(* ===== verification/Prelude.thy ===== *)
theory Prelude
  imports Main "HOL-Library.Word" "HOL-Library.Char_ord" "HOL-Library.List_Lexorder"
begin

text \<open>
  Shared vocabulary of the development: Rust results with panics, the machine integers and their
  checked, saturating and narrowing operations, UTF-8 strings as byte lists with Rust's
  \<open>trim().is_empty()\<close>, and the standard ordered collections. A \<^verbatim>\<open>BTreeSet\<close> is its strictly
  increasing list of elements and a \<^verbatim>\<open>BTreeMap\<close> its association list with strictly increasing
  keys, so iteration order is explicit and derived equality is equality of lists. A \<^verbatim>\<open>HashMap\<close>
  that is only read and written by key is a partial function.
\<close>

named_theorems res_simps \<open>how results are chained\<close>
named_theorems coll_simps \<open>ordered sets, ordered maps and indexes\<close>
named_theorems word_simps \<open>values of machine-integer operations\<close>

section \<open>Results\<close>

text \<open>
  \<open>Ok\<close> and \<open>Err\<close> are the two constructors of Rust's \<^verbatim>\<open>Result\<close>; \<open>Panic\<close> is an
  \<^verbatim>\<open>expect\<close>, \<^verbatim>\<open>unwrap\<close> or indexing operation that aborts the call.
\<close>

datatype ('a, 'e) res = Ok 'a | Err 'e | Panic

fun and_then :: "('a, 'e) res \<Rightarrow> ('a \<Rightarrow> ('b, 'e) res) \<Rightarrow> ('b, 'e) res" where
  "and_then (Ok a) f = f a"
| "and_then (Err e) f = Err e"
| "and_then Panic f = Panic"

fun map_err :: "('e \<Rightarrow> 'f) \<Rightarrow> ('a, 'e) res \<Rightarrow> ('a, 'f) res" where
  "map_err f (Ok a) = Ok a"
| "map_err f (Err e) = Err (f e)"
| "map_err f Panic = Panic"

fun is_ok :: "('a, 'e) res \<Rightarrow> bool" where
  "is_ok (Ok a) = True"
| "is_ok (Err e) = False"
| "is_ok Panic = False"

text \<open>\<^verbatim>\<open>iter().map(f).collect::<Result<Vec<_>, _>>()\<close>: the first failure ends the iteration.\<close>

fun collect_res :: "('a \<Rightarrow> ('b, 'e) res) \<Rightarrow> 'a list \<Rightarrow> ('b list, 'e) res" where
  "collect_res f [] = Ok []"
| "collect_res f (x # xs) =
     and_then (f x) (\<lambda>y. and_then (collect_res f xs) (\<lambda>ys. Ok (y # ys)))"

lemma and_then_eq_Ok [res_simps]: "and_then r f = Ok b \<longleftrightarrow> (\<exists>a. r = Ok a \<and> f a = Ok b)"
  by (cases r) auto

lemma and_then_eq_Err [res_simps]:
  "and_then r f = Err e \<longleftrightarrow> r = Err e \<or> (\<exists>a. r = Ok a \<and> f a = Err e)"
  by (cases r) auto

lemma and_then_eq_Panic [res_simps]:
  "and_then r f = Panic \<longleftrightarrow> r = Panic \<or> (\<exists>a. r = Ok a \<and> f a = Panic)"
  by (cases r) auto

lemma map_err_eq_Ok [res_simps]: "map_err f r = Ok a \<longleftrightarrow> r = Ok a"
  by (cases r) auto

lemma map_err_eq_Err: "map_err f r = Err e \<longleftrightarrow> (\<exists>x. r = Err x \<and> e = f x)"
  by (cases r) auto

lemma map_err_eq_Panic [res_simps]: "map_err f r = Panic \<longleftrightarrow> r = Panic"
  by (cases r) auto

lemma is_ok_iff [res_simps]: "is_ok r \<longleftrightarrow> (\<exists>a. r = Ok a)"
  by (cases r) auto

lemma collect_res_Ok_iff:
  "collect_res f xs = Ok ys \<longleftrightarrow> list_all2 (\<lambda>x y. f x = Ok y) xs ys"
proof (induction xs arbitrary: ys)
  case (Cons x xs)
  then show ?case by (cases ys) (auto simp: res_simps list_all2_Cons1)
qed auto

lemma collect_res_Panic: "collect_res f xs = Panic \<Longrightarrow> \<exists>x\<in>set xs. f x = Panic"
  by (induction xs) (auto simp: res_simps)

section \<open>Machine integers\<close>

type_synonym u8 = "8 word"
type_synonym u16 = "16 word"
type_synonym u32 = "32 word"
type_synonym u64 = "64 word"
type_synonym u128 = "128 word"

definition checked_add :: "'w::len word \<Rightarrow> 'w word \<Rightarrow> 'w word option" where
  "checked_add a b = (if a \<le> - 1 - b then Some (a + b) else None)"

definition saturating_add :: "'w::len word \<Rightarrow> 'w word \<Rightarrow> 'w word" where
  "saturating_add a b = (if a \<le> - 1 - b then a + b else - 1)"

definition saturating_sub :: "'w::len word \<Rightarrow> 'w word \<Rightarrow> 'w word" where
  "saturating_sub a b = (if b \<le> a then a - b else 0)"

text \<open>Narrowing conversions: \<^verbatim>\<open>u32::try_from\<close> and \<^verbatim>\<open>u64::try_from\<close> on a \<^verbatim>\<open>u128\<close>.\<close>

definition u32_try_from :: "u128 \<Rightarrow> u32 option" where
  "u32_try_from w = (if w \<le> 0xFFFFFFFF then Some (ucast w) else None)"

definition u64_try_from :: "u128 \<Rightarrow> u64 option" where
  "u64_try_from w = (if w \<le> 0xFFFFFFFFFFFFFFFF then Some (ucast w) else None)"

lemma unat_less_exp: "unat (a :: 'w::len word) < 2 ^ LENGTH('w)"
  by (fact unsigned_less)

lemma ucast_as_nat: "(ucast a :: 'v::len word) = word_of_nat (unat (a :: 'w::len word))"
  by (rule word_unat_eq_iff [THEN iffD2]) (simp add: unsigned_ucast_eq unsigned_of_nat)

lemma unat_minus_one: "unat (- 1 :: 'w::len word) = 2 ^ LENGTH('w) - 1"
proof -
  have "unat (- 1 :: 'w word) = mask LENGTH('w)"
    by (simp add: unsigned_minus_1_eq_mask)
  then show ?thesis by (simp add: mask_eq_exp_minus_1)
qed

lemma no_overflow_iff: "a \<le> - 1 - (b :: 'w::len word) \<longleftrightarrow> unat a + unat b < 2 ^ LENGTH('w)"
proof -
  have "unat (- 1 - b) = 2 ^ LENGTH('w) - 1 - unat b"
    using unat_sub [of b "- 1 :: 'w word"] by (simp add: unat_minus_one)
  moreover have "unat b < 2 ^ LENGTH('w)" by (rule unat_less_exp)
  ultimately show ?thesis
    unfolding word_le_nat_alt by linarith
qed

lemma unat_saturating_add [word_simps]:
  "unat (saturating_add a (b :: 'w::len word)) = min (unat a + unat b) (2 ^ LENGTH('w) - 1)"
  by (simp add: saturating_add_def no_overflow_iff unat_minus_one unat_word_ariths)

lemma unat_saturating_sub [word_simps]: "unat (saturating_sub a b) = unat a - unat b"
  by (simp add: saturating_sub_def word_le_nat_alt unat_sub)

lemma checked_add_Some_iff [word_simps]:
  "checked_add a (b :: 'w::len word) = Some c \<longleftrightarrow>
     unat a + unat b < 2 ^ LENGTH('w) \<and> unat c = unat a + unat b"
  by (auto simp: checked_add_def no_overflow_iff unat_word_ariths word_unat_eq_iff)

lemma checked_add_None_iff [word_simps]:
  "checked_add a (b :: 'w::len word) = None \<longleftrightarrow> 2 ^ LENGTH('w) \<le> unat a + unat b"
  by (auto simp: checked_add_def no_overflow_iff)

lemma saturating_add_mono: "a \<le> saturating_add a (b :: 'w::len word)"
proof -
  have "unat a \<le> 2 ^ LENGTH('w) - 1"
    using unat_less_exp [of a] by linarith
  then show ?thesis by (simp add: word_le_nat_alt unat_saturating_add)
qed

lemma u32_try_from_eq [word_simps]:
  "u32_try_from w = (if unat w < 2 ^ 32 then Some (word_of_nat (unat w)) else None)"
proof -
  have "w \<le> 0xFFFFFFFF \<longleftrightarrow> unat w < 2 ^ 32"
    by (simp add: word_le_nat_alt less_Suc_eq_le [symmetric])
  then show ?thesis by (simp only: u32_try_from_def ucast_as_nat)
qed

lemma u64_try_from_eq [word_simps]:
  "u64_try_from w = (if unat w < 2 ^ 64 then Some (word_of_nat (unat w)) else None)"
proof -
  have "w \<le> 0xFFFFFFFFFFFFFFFF \<longleftrightarrow> unat w < 2 ^ 64"
    by (simp add: word_le_nat_alt less_Suc_eq_le [symmetric])
  then show ?thesis by (simp only: u64_try_from_def ucast_as_nat)
qed

text \<open>Word operations whose exact result fits the width compute it.\<close>

lemma unat_mult_exact:
  "unat a * unat b < 2 ^ LENGTH('w) \<Longrightarrow> unat (a * b) = unat a * unat (b :: 'w::len word)"
  by (simp add: unat_word_ariths)

lemma unat_add_exact:
  "unat a + unat b < 2 ^ LENGTH('w) \<Longrightarrow> unat (a + b) = unat a + unat (b :: 'w::len word)"
  by (simp add: unat_word_ariths)

lemma unat_ucast_widen:
  "LENGTH('w) \<le> LENGTH('v) \<Longrightarrow> unat (ucast (a :: 'w::len word) :: 'v::len word) = unat a"
  by (simp add: unsigned_ucast_eq take_bit_nat_eq_self_iff
      order_less_le_trans [OF unat_less_exp])

lemma unat_of_nat_exact: "n < 2 ^ LENGTH('w) \<Longrightarrow> unat (word_of_nat n :: 'w::len word) = n"
  by (simp add: unsigned_of_nat take_bit_nat_eq_self_iff)

lemma unat_sum_list:
  "sum_list (map unat ws) < 2 ^ LENGTH('w) \<Longrightarrow> unat (sum_list (ws :: 'w::len word list)) = sum_list (map unat ws)"
proof (induction ws)
  case (Cons w ws)
  then show ?case by (simp add: unat_add_exact)
qed simp

section \<open>Strings\<close>

text \<open>
  A Rust string is its UTF-8 byte list. \<open>len()\<close> is the length of that list, the derived order is
  the lexicographic order on bytes, and substring search on strings is substring search on bytes.
  \<open>blank\<close> recognises the strings whose every code point has the Unicode property
  \<^verbatim>\<open>White_Space\<close>, which are the strings with \<open>trim().is_empty()\<close>: the ASCII blanks and the
  encodings of U+0085, U+00A0, U+1680, U+2000 to U+200A, U+2028, U+2029, U+202F, U+205F, U+3000.
\<close>

definition byte :: "char \<Rightarrow> nat" where
  "byte c = of_char c"

definition ascii_blank :: "char \<Rightarrow> bool" where
  "ascii_blank c \<longleftrightarrow> byte c = 32 \<or> 9 \<le> byte c \<and> byte c \<le> 13"

definition blank2 :: "char \<Rightarrow> char \<Rightarrow> bool" where
  "blank2 a b \<longleftrightarrow> byte a = 0xC2 \<and> (byte b = 0x85 \<or> byte b = 0xA0)"

definition blank3 :: "char \<Rightarrow> char \<Rightarrow> char \<Rightarrow> bool" where
  "blank3 a b c \<longleftrightarrow>
     byte a = 0xE1 \<and> byte b = 0x9A \<and> byte c = 0x80
   \<or> byte a = 0xE2 \<and> byte b = 0x80 \<and>
       (0x80 \<le> byte c \<and> byte c \<le> 0x8A \<or> byte c = 0xA8 \<or> byte c = 0xA9 \<or> byte c = 0xAF)
   \<or> byte a = 0xE2 \<and> byte b = 0x81 \<and> byte c = 0x9F
   \<or> byte a = 0xE3 \<and> byte b = 0x80 \<and> byte c = 0x80"

function blank :: "string \<Rightarrow> bool" where
  "blank s =
     (case s of
        [] \<Rightarrow> True
      | a # s1 \<Rightarrow>
          if ascii_blank a then blank s1
          else case s1 of
              [] \<Rightarrow> False
            | b # s2 \<Rightarrow>
                if blank2 a b then blank s2
                else case s2 of
                    [] \<Rightarrow> False
                  | c # s3 \<Rightarrow> blank3 a b c \<and> blank s3)"
  by pat_completeness auto
termination
  by (relation "measure length") auto

declare blank.simps [simp del]

lemma blank_Nil [simp]: "blank []"
  by (simp add: blank.simps)

text \<open>A string that starts with a byte that opens no blank code point is not blank.\<close>

definition visible :: "char \<Rightarrow> bool" where
  "visible c \<longleftrightarrow> \<not> ascii_blank c \<and> byte c < 0x80"

lemma visible_not_blank: "visible c \<Longrightarrow> \<not> blank (c # s)"
  by (subst blank.simps)
    (auto simp: visible_def blank2_def blank3_def split: list.splits)

text \<open>\<^verbatim>\<open>to_ascii_lowercase\<close> changes the bytes 65 to 90 only.\<close>

definition ascii_lower :: "char \<Rightarrow> char" where
  "ascii_lower c = (if 65 \<le> byte c \<and> byte c \<le> 90 then char_of (byte c + 32) else c)"

definition to_ascii_lowercase :: "string \<Rightarrow> string" where
  "to_ascii_lowercase = map ascii_lower"

fun starts_with :: "string \<Rightarrow> string \<Rightarrow> bool" where
  "starts_with s [] = True"
| "starts_with [] (p # ps) = False"
| "starts_with (c # s) (p # ps) = (c = p \<and> starts_with s ps)"

fun contains :: "string \<Rightarrow> string \<Rightarrow> bool" where
  "contains [] p = starts_with [] p"
| "contains (c # s) p = (starts_with (c # s) p \<or> contains s p)"

lemma starts_with_iff: "starts_with s p \<longleftrightarrow> (\<exists>t. s = p @ t)"
  by (induction s p rule: starts_with.induct) auto

lemma contains_iff: "contains s p \<longleftrightarrow> (\<exists>a b. s = a @ p @ b)"
proof (induction s)
  case Nil
  then show ?case by (auto simp: starts_with_iff)
next
  case (Cons c s)
  have "(\<exists>a b. c # s = a @ p @ b) \<longleftrightarrow> (\<exists>b. c # s = p @ b) \<or> (\<exists>a b. s = a @ p @ b)"
    by (metis append_Cons append_Nil neq_Nil_conv list.inject)
  with Cons show ?case by (simp add: starts_with_iff)
qed

text \<open>The display of an unsigned integer: its decimal digits.\<close>

function decimal :: "nat \<Rightarrow> string" where
  "decimal n = (if n < 10 then [char_of (48 + n)] else decimal (n div 10) @ [char_of (48 + n mod 10)])"
  by pat_completeness auto
termination
  by (relation "measure id") auto

declare decimal.simps [simp del]

definition undecimal :: "string \<Rightarrow> nat" where
  "undecimal cs = foldl (\<lambda>a c. 10 * a + (byte c - 48)) 0 cs"

lemma byte_digit: "n < 10 \<Longrightarrow> byte (char_of (48 + n)) = 48 + n"
  by (simp add: byte_def of_char_of)

lemma undecimal_decimal: "undecimal (decimal n) = n"
proof (induction n rule: decimal.induct)
  case (1 n)
  show ?case
  proof (cases "n < 10")
    case True
    then show ?thesis by (subst decimal.simps) (simp add: undecimal_def byte_digit)
  next
    case False
    with 1 have "undecimal (decimal (n div 10)) = n div 10" by simp
    with False show ?thesis by (subst decimal.simps) (simp add: undecimal_def byte_digit)
  qed
qed

lemma decimal_digits: "c \<in> set (decimal n) \<Longrightarrow> 48 \<le> byte c \<and> byte c \<le> 57"
proof (induction n rule: decimal.induct)
  case (1 n)
  have "n mod 10 < 10" by simp
  with 1 show ?case
    by (subst (asm) decimal.simps) (auto simp: byte_digit split: if_splits)
qed

lemma colon_not_digit: "CHR '':'' \<notin> set (decimal n)"
  using decimal_digits [of "CHR '':''" n] by (auto simp: byte_def)

lemma split_at_colon:
  assumes "CHR '':'' \<notin> set a" and "CHR '':'' \<notin> set b" and "a @ '':'' @ x = b @ '':'' @ y"
  shows "a = b \<and> x = y"
  using assms
proof (induction a arbitrary: b)
  case Nil
  then show ?case by (cases b) auto
next
  case (Cons c a)
  then show ?case by (cases b) auto
qed

section \<open>Ordered sets and maps\<close>

abbreviation bset_ok :: "'a::linorder list \<Rightarrow> bool" where
  "bset_ok \<equiv> sorted_wrt (<)"

fun bset_insert :: "'a::linorder \<Rightarrow> 'a list \<Rightarrow> 'a list" where
  "bset_insert x [] = [x]"
| "bset_insert x (y # ys) =
     (if x < y then x # y # ys else if x = y then y # ys else y # bset_insert x ys)"

definition bset_of_list :: "'a::linorder list \<Rightarrow> 'a list" where
  "bset_of_list xs = fold bset_insert xs []"

definition bset_union :: "'a::linorder list \<Rightarrow> 'a list \<Rightarrow> 'a list" where
  "bset_union s t = fold bset_insert t s"

type_synonym ('k, 'v) bmap = "('k \<times> 'v) list"

definition bmap_ok :: "('k::linorder, 'v) bmap \<Rightarrow> bool" where
  "bmap_ok m = bset_ok (map fst m)"

fun bmap_insert :: "'k::linorder \<Rightarrow> 'v \<Rightarrow> ('k, 'v) bmap \<Rightarrow> ('k, 'v) bmap" where
  "bmap_insert k v [] = [(k, v)]"
| "bmap_insert k v ((l, w) # m) =
     (if k < l then (k, v) # (l, w) # m
      else if k = l then (k, v) # m
      else (l, w) # bmap_insert k v m)"

lemma set_bset_insert [simp]: "set (bset_insert x s) = insert x (set s)"
  by (induction s) auto

lemma bset_ok_insert [intro, coll_simps]: "bset_ok s \<Longrightarrow> bset_ok (bset_insert x s)"
  by (induction s) (auto intro: less_trans)

lemma bset_insert_absorb [coll_simps]: "bset_ok s \<Longrightarrow> x \<in> set s \<Longrightarrow> bset_insert x s = s"
  by (induction s) auto

lemma bset_eq_iff: "bset_ok s \<Longrightarrow> bset_ok t \<Longrightarrow> s = t \<longleftrightarrow> set s = set t"
  by (auto intro: strict_sorted_equal)

lemma bset_ok_fold: "bset_ok s \<Longrightarrow> bset_ok (fold bset_insert xs s)"
  by (induction xs arbitrary: s) auto

lemma set_fold_bset_insert: "set (fold bset_insert xs s) = set xs \<union> set s"
  by (induction xs arbitrary: s) auto

lemma bset_ok_of_list [simp]: "bset_ok (bset_of_list xs)"
  by (simp add: bset_of_list_def bset_ok_fold)

lemma set_bset_of_list [simp]: "set (bset_of_list xs) = set xs"
  by (simp add: bset_of_list_def set_fold_bset_insert)

lemma bset_of_list_id [coll_simps]: "bset_ok s \<Longrightarrow> bset_of_list s = s"
  by (rule strict_sorted_equal) auto

lemma bset_ok_union [intro]: "bset_ok s \<Longrightarrow> bset_ok (bset_union s t)"
  by (simp add: bset_union_def bset_ok_fold)

lemma set_bset_union [simp]: "set (bset_union s t) = set s \<union> set t"
  by (auto simp: bset_union_def set_fold_bset_insert)

lemma bset_ok_distinct: "bset_ok s \<Longrightarrow> distinct s"
  by (induction s) auto

lemma fst_bmap_insert [simp]: "map fst (bmap_insert k v m) = bset_insert k (map fst m)"
  by (induction m) auto

lemma bmap_ok_insert [intro, coll_simps]: "bmap_ok m \<Longrightarrow> bmap_ok (bmap_insert k v m)"
  by (simp add: bmap_ok_def bset_ok_insert)

lemma map_of_bmap_insert [simp]: "map_of (bmap_insert k v m) = (map_of m)(k \<mapsto> v)"
  by (induction m) (auto simp: fun_eq_iff)

lemma set_bmap_insert_subset: "set (bmap_insert k v m) \<subseteq> insert (k, v) (set m)"
  by (induction m) (auto split: if_splits)

lemma bmap_ok_distinct: "bmap_ok m \<Longrightarrow> distinct (map fst m)"
  by (simp add: bmap_ok_def bset_ok_distinct)

lemma alist_by_keys:
  "distinct (map fst m) \<Longrightarrow> map (\<lambda>k. (k, the (map_of m k))) (map fst m) = m"
  by (induction m) (auto simp: image_iff intro!: map_idI split: if_splits)

lemma bmap_eqI:
  assumes "bmap_ok m" and "bmap_ok n" and "map_of m = map_of n"
  shows "m = n"
proof -
  have "set (map fst m) = set (map fst n)"
    using assms(3) by (metis dom_map_of_conv_image_fst list.set_map)
  then have "map fst m = map fst n"
    using assms(1,2) by (auto simp: bmap_ok_def intro: strict_sorted_equal)
  then show ?thesis
    using assms by (metis alist_by_keys bmap_ok_distinct)
qed

section \<open>Sorting with a comparator\<close>

text \<open>\<^verbatim>\<open>sort_by\<close> is stable: \<open>le x y\<close> says that the comparator does not put \<open>x\<close> after \<open>y\<close>.\<close>

fun insert_by :: "('a \<Rightarrow> 'a \<Rightarrow> bool) \<Rightarrow> 'a \<Rightarrow> 'a list \<Rightarrow> 'a list" where
  "insert_by le x [] = [x]"
| "insert_by le x (y # ys) = (if le x y then x # y # ys else y # insert_by le x ys)"

definition sort_by :: "('a \<Rightarrow> 'a \<Rightarrow> bool) \<Rightarrow> 'a list \<Rightarrow> 'a list" where
  "sort_by le xs = foldr (insert_by le) xs []"

lemma sort_by_simps [simp]:
  "sort_by le [] = []" "sort_by le (x # xs) = insert_by le x (sort_by le xs)"
  by (simp_all add: sort_by_def)

lemma set_insert_by [simp]: "set (insert_by le x xs) = insert x (set xs)"
  by (induction xs) auto

lemma set_sort_by [simp]: "set (sort_by le xs) = set xs"
  by (induction xs) auto

lemma length_insert_by [simp]: "length (insert_by le x xs) = Suc (length xs)"
  by (induction xs) auto

lemma length_sort_by [simp]: "length (sort_by le xs) = length xs"
  by (induction xs) auto

lemma distinct_insert_by: "distinct (map f (insert_by le x xs)) \<longleftrightarrow> distinct (map f (x # xs))"
  by (induction xs) auto

lemma distinct_sort_by: "distinct (map f (sort_by le xs)) \<longleftrightarrow> distinct (map f xs)"
  by (induction xs) (auto simp: distinct_insert_by)

lemma sorted_insert_by:
  assumes "\<And>a b. \<not> le a b \<Longrightarrow> le b a" and "\<And>a b c. le a b \<Longrightarrow> le b c \<Longrightarrow> le a c"
  shows "sorted_wrt le xs \<Longrightarrow> sorted_wrt le (insert_by le x xs)"
proof (induction xs)
  case (Cons y ys)
  show ?case
  proof (cases "le x y")
    case True
    with Cons.prems assms(2) [of x y] show ?thesis by auto
  next
    case False
    with Cons assms(1) [of x y] show ?thesis by auto
  qed
qed simp

lemma sorted_sort_by:
  assumes "\<And>a b. \<not> le a b \<Longrightarrow> le b a" and "\<And>a b c. le a b \<Longrightarrow> le b c \<Longrightarrow> le a c"
  shows "sorted_wrt le (sort_by le xs)"
  by (induction xs) (auto intro: sorted_insert_by [OF assms])

section \<open>Indexes over hash maps\<close>

text \<open>
  \<^verbatim>\<open>index.entry(key).or_default().insert(id)\<close> and the ordered projection of an indexed store
  (\<open>src/crates/termivar-scanner/src/knowledge/index.rs\<close>).
\<close>

definition index_ids :: "('k \<rightharpoonup> 'i list) \<Rightarrow> 'k \<Rightarrow> 'i list" where
  "index_ids m k = (case m k of None \<Rightarrow> [] | Some s \<Rightarrow> s)"

definition index :: "('k \<rightharpoonup> 'i::linorder list) \<Rightarrow> 'k \<Rightarrow> 'i \<Rightarrow> ('k \<rightharpoonup> 'i list)" where
  "index m k i = m(k \<mapsto> bset_insert i (index_ids m k))"

definition collect_indexed :: "'i list option \<Rightarrow> ('i \<rightharpoonup> 'v) \<Rightarrow> 'v list" where
  "collect_indexed ids values =
     List.map_filter values (case ids of None \<Rightarrow> [] | Some s \<Rightarrow> s)"

lemma index_ids_index [simp]:
  "index_ids (index m k i) l = (if l = k then bset_insert i (index_ids m k) else index_ids m l)"
  by (simp add: index_ids_def index_def)

lemma collect_indexed_eq: "collect_indexed (m k) values = List.map_filter values (index_ids m k)"
  by (simp add: collect_indexed_def index_ids_def)

lemma set_map_filter: "set (List.map_filter f xs) = {y. \<exists>x\<in>set xs. f x = Some y}"
  by (induction xs) (auto simp: List.map_filter_simps split: option.splits)

end
