(* ===== verification/Bayes.thy ===== *)
theory Bayes
  imports Prelude "HOL-Library.Multiset"
begin

text \<open>
  Confidence scores, fixed-point probabilities and Bayesian beliefs
  (\<open>src/crates/termivar-core/src/reasoning.rs\<close>). A probability is a \<^verbatim>\<open>u32\<close> of parts per
  million; \<open>probability_update\<close> computes in \<^verbatim>\<open>u128\<close> words exactly as the source does, and the
  lemmas show that no intermediate value wraps, that the narrowing \<^verbatim>\<open>expect\<close> never fires and that
  the result is the posterior rounded to the nearest part per million. \<open>observe\<close> keeps the
  evidence sorted by identifier and replays it, so a belief is a function of its prior and of the
  set of its observations.
\<close>

section \<open>Errors, scores and probabilities\<close>

type_synonym entity_id = string
type_synonym evidence_id = string
type_synonym relation_id = string

datatype reasoning_error =
    EmptyValue string
  | ConfidenceOutOfRange u16
  | ProbabilityOutOfRange u32
  | UndefinedPosterior
  | EmptyDerivationParents
  | TooManyDerivationParents nat nat
  | DerivationAlgorithmTooLong nat nat

definition non_empty :: "string \<Rightarrow> string \<Rightarrow> (string, reasoning_error) res" where
  "non_empty v field = (if blank v then Err (EmptyValue field) else Ok v)"

definition entity_id_new :: "string \<Rightarrow> (entity_id, reasoning_error) res" where
  "entity_id_new v = non_empty v ''entity id''"

definition evidence_id_parse :: "string \<Rightarrow> (evidence_id, reasoning_error) res" where
  "evidence_id_parse v = non_empty v ''evidence id''"

definition relation_id_parse :: "string \<Rightarrow> (relation_id, reasoning_error) res" where
  "relation_id_parse v = non_empty v ''relation id''"

definition MAX_CONFIDENCE_BASIS_POINTS :: u16 where
  "MAX_CONFIDENCE_BASIS_POINTS = 10000"

definition MAX_PROBABILITY_PARTS_PER_MILLION :: u32 where
  "MAX_PROBABILITY_PARTS_PER_MILLION = 1000000"

type_synonym confidence_score = u16

definition confidence_from_basis_points :: "u16 \<Rightarrow> (confidence_score, reasoning_error) res" where
  "confidence_from_basis_points v =
     (if v > MAX_CONFIDENCE_BASIS_POINTS then Err (ConfidenceOutOfRange v) else Ok v)"

definition confidence_from_percent :: "u8 \<Rightarrow> (confidence_score, reasoning_error) res" where
  "confidence_from_percent v = confidence_from_basis_points (ucast v * 100)"

type_synonym probability = u32

definition probability_ok :: "probability \<Rightarrow> bool" where
  "probability_ok p \<longleftrightarrow> p \<le> MAX_PROBABILITY_PARTS_PER_MILLION"

definition probability_from_ppm :: "u32 \<Rightarrow> (probability, reasoning_error) res" where
  "probability_from_ppm v =
     (if v > MAX_PROBABILITY_PARTS_PER_MILLION then Err (ProbabilityOutOfRange v) else Ok v)"

definition probability_from_basis_points :: "u16 \<Rightarrow> (probability, reasoning_error) res" where
  "probability_from_basis_points v = probability_from_ppm (ucast v * 100)"

definition probability_from_percent :: "u8 \<Rightarrow> (probability, reasoning_error) res" where
  "probability_from_percent v = probability_from_ppm (ucast v * 10000)"

definition probability_update ::
  "probability \<Rightarrow> probability \<Rightarrow> probability \<Rightarrow> (probability, reasoning_error) res" where
  "probability_update self likelihood_if_true likelihood_if_false =
     (let scale = (ucast MAX_PROBABILITY_PARTS_PER_MILLION :: u128);
          prior = ucast self;
          true_weight = ucast likelihood_if_true * prior;
          false_weight = ucast likelihood_if_false * (scale - prior);
          denominator = true_weight + false_weight
      in if denominator = 0 then Err UndefinedPosterior
         else
           let rounded = (true_weight * scale + denominator div 2) div denominator
           in case u32_try_from rounded of
                None \<Rightarrow> Panic
              | Some v \<Rightarrow> probability_from_ppm v)"

section \<open>Beliefs\<close>

record bayesian_evidence =
  be_evidence_id :: evidence_id
  be_likelihood_if_true :: probability
  be_likelihood_if_false :: probability
  be_rationale :: string

definition bayesian_evidence_new ::
  "evidence_id \<Rightarrow> probability \<Rightarrow> probability \<Rightarrow> string \<Rightarrow>
   (bayesian_evidence, reasoning_error) res" where
  "bayesian_evidence_new eid lt lf rationale =
     and_then (non_empty rationale ''Bayesian evidence rationale'')
       (\<lambda>r. Ok \<lparr>be_evidence_id = eid, be_likelihood_if_true = lt,
                 be_likelihood_if_false = lf, be_rationale = r\<rparr>)"

datatype belief_write = BeliefInserted | BeliefReplaced | BeliefUnchanged

record bayesian_update =
  bu_evidence_id :: evidence_id
  bu_prior :: probability
  bu_likelihood_if_true :: probability
  bu_likelihood_if_false :: probability
  bu_posterior :: probability
  bu_rationale :: string

record bayesian_belief =
  bb_prior :: probability
  bb_posterior :: probability
  bb_evidence :: "bayesian_evidence list"
  bb_updates :: "bayesian_update list"

definition belief_new :: "probability \<Rightarrow> bayesian_belief" where
  "belief_new prior =
     \<lparr>bb_prior = prior, bb_posterior = prior, bb_evidence = [], bb_updates = []\<rparr>"

fun calculate_bayesian_updates ::
  "probability \<Rightarrow> bayesian_evidence list \<Rightarrow>
   (probability \<times> bayesian_update list, reasoning_error) res" where
  "calculate_bayesian_updates current [] = Ok (current, [])"
| "calculate_bayesian_updates current (observation # rest) =
     and_then (probability_update current (be_likelihood_if_true observation)
                 (be_likelihood_if_false observation))
       (\<lambda>posterior.
          and_then (calculate_bayesian_updates posterior rest)
            (\<lambda>(final, updates).
               Ok (final,
                   \<lparr>bu_evidence_id = be_evidence_id observation, bu_prior = current,
                    bu_likelihood_if_true = be_likelihood_if_true observation,
                    bu_likelihood_if_false = be_likelihood_if_false observation,
                    bu_posterior = posterior, bu_rationale = be_rationale observation\<rparr> # updates)))"

text \<open>
  \<^verbatim>\<open>slice::binary_search_by\<close> on a slice sorted by the key: \<open>Inr i\<close> is the position of the match
  (\<^verbatim>\<open>Ok\<close>), \<open>Inl i\<close> the position where the key can be inserted (\<^verbatim>\<open>Err\<close>).
\<close>

definition binary_search_evidence :: "evidence_id \<Rightarrow> bayesian_evidence list \<Rightarrow> nat + nat" where
  "binary_search_evidence k xs =
     (let i = length (takeWhile (\<lambda>e. be_evidence_id e < k) xs)
      in if i < length xs \<and> be_evidence_id (xs ! i) = k then Inr i else Inl i)"

definition observe_candidate ::
  "bayesian_evidence list \<Rightarrow> bayesian_evidence \<Rightarrow> belief_write \<times> bayesian_evidence list" where
  "observe_candidate candidate observation =
     (case binary_search_evidence (be_evidence_id observation) candidate of
        Inr i \<Rightarrow>
          if candidate ! i = observation then (BeliefUnchanged, candidate)
          else (BeliefReplaced, candidate[i := observation])
      | Inl i \<Rightarrow> (BeliefInserted, take i candidate @ observation # drop i candidate))"

definition belief_observe ::
  "bayesian_belief \<Rightarrow> bayesian_evidence \<Rightarrow>
   (belief_write, reasoning_error) res \<times> bayesian_belief" where
  "belief_observe b observation =
     (case observe_candidate (bb_evidence b) observation of
        (BeliefUnchanged, _) \<Rightarrow> (Ok BeliefUnchanged, b)
      | (write, candidate) \<Rightarrow>
          (case calculate_bayesian_updates (bb_prior b) candidate of
             Ok (posterior, updates) \<Rightarrow>
               (Ok write,
                b\<lparr>bb_posterior := posterior, bb_evidence := candidate, bb_updates := updates\<rparr>)
           | Err e \<Rightarrow> (Err e, b)
           | Panic \<Rightarrow> (Panic, b)))"

text \<open>
  The wire form of a belief carries the prior, the posterior and the evidence; the audit trail is
  skipped and recomputed. Decoding replays the observations and rejects duplicates and a posterior
  that does not match.
\<close>

record wire_belief =
  wb_prior :: probability
  wb_posterior :: probability
  wb_evidence :: "bayesian_evidence list"

datatype belief_wire_error =
    DuplicateEvidence evidence_id
  | ObserveFailed reasoning_error
  | PosteriorMismatch probability probability

definition belief_to_wire :: "bayesian_belief \<Rightarrow> wire_belief" where
  "belief_to_wire b =
     \<lparr>wb_prior = bb_prior b, wb_posterior = bb_posterior b, wb_evidence = bb_evidence b\<rparr>"

fun replay_wire_evidence ::
  "evidence_id list \<Rightarrow> bayesian_belief \<Rightarrow> bayesian_evidence list \<Rightarrow>
   (bayesian_belief, belief_wire_error) res" where
  "replay_wire_evidence seen b [] = Ok b"
| "replay_wire_evidence seen b (observation # rest) =
     (if be_evidence_id observation \<in> set seen
      then Err (DuplicateEvidence (be_evidence_id observation))
      else case belief_observe b observation of
          (Ok _, b') \<Rightarrow> replay_wire_evidence (bset_insert (be_evidence_id observation) seen) b' rest
        | (Err e, _) \<Rightarrow> Err (ObserveFailed e)
        | (Panic, _) \<Rightarrow> Panic)"

definition belief_from_wire :: "wire_belief \<Rightarrow> (bayesian_belief, belief_wire_error) res" where
  "belief_from_wire w =
     and_then (replay_wire_evidence [] (belief_new (wb_prior w)) (wb_evidence w))
       (\<lambda>b. if bb_posterior b \<noteq> wb_posterior w
             then Err (PosteriorMismatch (wb_posterior w) (bb_posterior b))
             else Ok b)"

section \<open>Exactness of the Bayesian update\<close>

definition true_weight :: "probability \<Rightarrow> probability \<Rightarrow> nat" where
  "true_weight p lt = unat lt * unat p"

definition total_weight :: "probability \<Rightarrow> probability \<Rightarrow> probability \<Rightarrow> nat" where
  "total_weight p lt lf = unat lt * unat p + unat lf * (1000000 - unat p)"

definition nearest_posterior :: "probability \<Rightarrow> probability \<Rightarrow> probability \<Rightarrow> nat" where
  "nearest_posterior p lt lf =
     (true_weight p lt * 1000000 + total_weight p lt lf div 2) div total_weight p lt lf"

lemma probability_ok_iff: "probability_ok p \<longleftrightarrow> unat p \<le> 1000000"
  by (simp add: probability_ok_def MAX_PROBABILITY_PARTS_PER_MILLION_def word_le_nat_alt)

lemma probability_from_ppm_eq:
  "probability_from_ppm v = (if probability_ok v then Ok v else Err (ProbabilityOutOfRange v))"
  by (simp add: probability_from_ppm_def probability_ok_def not_le)

lemma rounded_quotient_le:
  fixes num den scale :: nat
  assumes "0 < den" and "num \<le> den * scale"
  shows "(num + den div 2) div den \<le> scale"
proof -
  have "(num + den div 2) div den < scale + 1"
    using assms by (subst div_less_iff_less_mult) (simp_all add: algebra_simps)
  then show ?thesis by simp
qed

lemma rounded_quotient_ge:
  fixes num den q :: nat
  assumes "0 < den" and "q * den \<le> num"
  shows "q \<le> (num + den div 2) div den"
  using assms by (subst less_eq_div_iff_mult_less_eq) simp_all

lemma rounded_quotient_nearest:
  fixes num den :: nat
  assumes "0 < den"
  shows "\<bar>2 * int ((num + den div 2) div den) * int den - 2 * int num\<bar> \<le> int den"
proof -
  define q r where "q = (num + den div 2) div den" and "r = (num + den div 2) mod den"
  have "q * den + r = num + den div 2" and "r < den"
    using assms by (simp_all add: q_def r_def mod_less_divisor)
  then have "int q * int den + int r = int num + int (den div 2)" and "int r < int den"
    by (simp_all flip: of_nat_add of_nat_mult)
  moreover have "2 * int (den div 2) \<le> int den" and "int den \<le> 2 * int (den div 2) + 1"
    by linarith+
  ultimately show ?thesis
    unfolding q_def [symmetric] by linarith
qed

lemma weight_bounds:
  assumes "probability_ok p" and "probability_ok lt" and "probability_ok lf"
  shows "true_weight p lt \<le> total_weight p lt lf" and "total_weight p lt lf \<le> 1000000000000"
proof -
  show "true_weight p lt \<le> total_weight p lt lf"
    by (simp add: true_weight_def total_weight_def)
  have "total_weight p lt lf \<le> 1000000 * unat p + 1000000 * (1000000 - unat p)"
    unfolding total_weight_def
    using assms by (intro add_mono mult_le_mono) (simp_all add: probability_ok_iff)
  also have "\<dots> = 1000000000000"
    using assms(1) by (simp add: probability_ok_iff flip: add_mult_distrib2)
  finally show "total_weight p lt lf \<le> 1000000000000" .
qed

lemma nearest_posterior_le:
  assumes "probability_ok p" and "probability_ok lt" and "probability_ok lf"
    and "0 < total_weight p lt lf"
  shows "nearest_posterior p lt lf \<le> 1000000"
  unfolding nearest_posterior_def
  using assms weight_bounds by (intro rounded_quotient_le) (auto simp: mult.commute)

text \<open>
  The word computation of the source is the natural-number formula: no product or sum wraps in
  \<^verbatim>\<open>u128\<close>, and the conversion to \<^verbatim>\<open>u32\<close> succeeds.
\<close>

lemma probability_update_exact:
  assumes ok: "probability_ok p" "probability_ok lt" "probability_ok lf"
  shows "probability_update p lt lf =
    (if total_weight p lt lf = 0 then Err UndefinedPosterior
     else Ok (word_of_nat (nearest_posterior p lt lf)))"
proof -
  define scale where "scale = (ucast MAX_PROBABILITY_PARTS_PER_MILLION :: u128)"
  define tw where "tw = (ucast lt :: u128) * ucast p"
  define fw where "fw = (ucast lf :: u128) * (scale - ucast p)"
  have scale: "unat scale = 1000000"
    by (simp add: scale_def unat_ucast_widen MAX_PROBABILITY_PARTS_PER_MILLION_def)
  have small: "unat p \<le> 1000000" "unat lt \<le> 1000000" "unat lf \<le> 1000000"
    using ok by (simp_all add: probability_ok_iff)
  have "unat lt * unat p \<le> 1000000 * 1000000" "unat lf * (1000000 - unat p) \<le> 1000000 * 1000000"
    using small by (intro mult_le_mono; simp)+
  moreover have "unat (scale - ucast p) = 1000000 - unat p"
    using small by (subst unat_sub) (simp_all add: word_le_nat_alt scale unat_ucast_widen)
  ultimately have tw: "unat tw = true_weight p lt" and fw: "unat fw = unat lf * (1000000 - unat p)"
    unfolding tw_def fw_def true_weight_def
    by (subst unat_mult_exact; simp add: unat_ucast_widen)+
  have den: "unat (tw + fw) = total_weight p lt lf"
    using weight_bounds(2) [OF ok]
    by (subst unat_add_exact) (simp_all add: tw fw total_weight_def true_weight_def)
  have "unat (tw * scale) = true_weight p lt * 1000000"
    using weight_bounds [OF ok] by (subst unat_mult_exact) (simp_all add: tw scale)
  moreover have "unat ((tw + fw) div 2) = total_weight p lt lf div 2"
    by (simp add: unat_div_distrib den)
  ultimately have "unat (tw * scale + (tw + fw) div 2) =
      true_weight p lt * 1000000 + total_weight p lt lf div 2"
    using weight_bounds [OF ok] by (subst unat_add_exact) simp_all
  then have rounded: "unat ((tw * scale + (tw + fw) div 2) div (tw + fw)) = nearest_posterior p lt lf"
    by (simp add: unat_div_distrib den nearest_posterior_def)
  have "tw + fw = 0 \<longleftrightarrow> total_weight p lt lf = 0"
    by (simp add: unat_eq_zero flip: den)
  moreover have "probability_ok (word_of_nat (nearest_posterior p lt lf))"
    if "total_weight p lt lf \<noteq> 0"
    using nearest_posterior_le [OF ok] that by (simp add: probability_ok_iff unat_of_nat_exact)
  moreover have "nearest_posterior p lt lf < 4294967296" if "total_weight p lt lf \<noteq> 0"
    using nearest_posterior_le [OF ok] that by simp
  ultimately show ?thesis
    using rounded
    unfolding probability_update_def Let_def scale_def [symmetric] tw_def [symmetric]
      fw_def [symmetric]
    by (auto simp: u32_try_from_eq probability_from_ppm_eq)
qed

lemma nearest_posterior_supporting:
  assumes "probability_ok p" and "unat lf \<le> unat lt" and "0 < total_weight p lt lf"
  shows "unat p \<le> nearest_posterior p lt lf"
proof -
  have "total_weight p lt lf \<le> unat lt * unat p + unat lt * (1000000 - unat p)"
    unfolding total_weight_def using assms(2) by (intro add_mono mult_le_mono) simp_all
  also have "\<dots> = unat lt * 1000000"
    using assms(1) by (simp add: probability_ok_iff flip: add_mult_distrib2)
  finally have "unat p * total_weight p lt lf \<le> true_weight p lt * 1000000"
    by (simp add: true_weight_def mult_le_mono2 mult.left_commute)
  with assms(3) show ?thesis
    unfolding nearest_posterior_def by (rule rounded_quotient_ge)
qed

lemma nearest_posterior_contradicting:
  assumes "probability_ok p" and "unat lt \<le> unat lf" and "0 < total_weight p lt lf"
  shows "nearest_posterior p lt lf \<le> unat p"
proof -
  have "unat lt * 1000000 = unat lt * unat p + unat lt * (1000000 - unat p)"
    using assms(1) by (simp add: probability_ok_iff flip: add_mult_distrib2)
  also have "\<dots> \<le> total_weight p lt lf"
    unfolding total_weight_def using assms(2) by (intro add_mono mult_le_mono) simp_all
  finally have "true_weight p lt * 1000000 \<le> total_weight p lt lf * unat p"
    by (simp add: true_weight_def mult.left_commute mult.commute mult_le_mono)
  with assms(3) show ?thesis
    unfolding nearest_posterior_def by (rule rounded_quotient_le)
qed

lemma probability_update_Ok:
  assumes "probability_ok p" "probability_ok lt" "probability_ok lf"
    and "probability_update p lt lf = Ok q"
  shows "0 < total_weight p lt lf" and "unat q = nearest_posterior p lt lf" and "probability_ok q"
proof -
  show pos: "0 < total_weight p lt lf"
    using assms by (auto simp: probability_update_exact split: if_splits)
  then show "unat q = nearest_posterior p lt lf"
    using assms nearest_posterior_le [OF assms(1-3)]
    by (auto simp: probability_update_exact unat_of_nat_exact split: if_splits)
  then show "probability_ok q"
    using nearest_posterior_le [OF assms(1-3) pos] by (simp add: probability_ok_iff)
qed

section \<open>Beliefs are replayed from sorted evidence\<close>

definition evidence_probabilities_ok :: "bayesian_evidence \<Rightarrow> bool" where
  "evidence_probabilities_ok e \<longleftrightarrow>
     probability_ok (be_likelihood_if_true e) \<and> probability_ok (be_likelihood_if_false e)"

definition belief_ok :: "bayesian_belief \<Rightarrow> bool" where
  "belief_ok b \<longleftrightarrow>
     probability_ok (bb_prior b) \<and> list_all evidence_probabilities_ok (bb_evidence b) \<and>
     bset_ok (map be_evidence_id (bb_evidence b)) \<and>
     calculate_bayesian_updates (bb_prior b) (bb_evidence b) = Ok (bb_posterior b, bb_updates b)"

lemma calculate_no_panic:
  "probability_ok p \<Longrightarrow> list_all evidence_probabilities_ok es \<Longrightarrow>
   calculate_bayesian_updates p es \<noteq> Panic"
proof (induction es arbitrary: p)
  case (Cons e es)
  then have ok: "probability_ok (be_likelihood_if_true e)" "probability_ok (be_likelihood_if_false e)"
    by (simp_all add: evidence_probabilities_ok_def)
  have "probability_update p (be_likelihood_if_true e) (be_likelihood_if_false e) \<noteq> Panic"
    using Cons.prems ok by (simp add: probability_update_exact)
  with Cons ok show ?case
    by (auto simp: res_simps split: prod.splits dest: probability_update_Ok(3))
qed simp

lemma calculate_posterior_ok:
  "probability_ok p \<Longrightarrow> list_all evidence_probabilities_ok es \<Longrightarrow>
   calculate_bayesian_updates p es = Ok (q, us) \<Longrightarrow> probability_ok q"
proof (induction es arbitrary: p us)
  case (Cons e es)
  then show ?case
    by (auto simp: res_simps evidence_probabilities_ok_def
        dest: probability_update_Ok(3) [of p])
qed simp

lemma calculate_prefix_Ok:
  "calculate_bayesian_updates p (xs @ ys) = Ok r \<Longrightarrow> \<exists>r'. calculate_bayesian_updates p xs = Ok r'"
proof (induction xs arbitrary: p r)
  case (Cons x xs)
  then obtain q r1 where "probability_update p (be_likelihood_if_true x) (be_likelihood_if_false x) = Ok q"
    and "calculate_bayesian_updates q (xs @ ys) = Ok r1"
    by (auto simp: res_simps)
  with Cons.IH [of q r1] show ?case by (auto split: prod.splits)
qed simp

lemma belief_ok_new: "probability_ok p \<Longrightarrow> belief_ok (belief_new p)"
  by (simp add: belief_ok_def belief_new_def)

lemma observe_candidate_eq:
  "observe_candidate xs e =
     (let before = takeWhile (\<lambda>x. be_evidence_id x < be_evidence_id e) xs;
          after = dropWhile (\<lambda>x. be_evidence_id x < be_evidence_id e) xs
      in case after of
           [] \<Rightarrow> (BeliefInserted, before @ [e])
         | x # rest \<Rightarrow>
             if be_evidence_id x = be_evidence_id e
             then if x = e then (BeliefUnchanged, xs) else (BeliefReplaced, before @ e # rest)
             else (BeliefInserted, before @ e # x # rest))"
proof -
  define before after where
    "before = takeWhile (\<lambda>x. be_evidence_id x < be_evidence_id e) xs" and
    "after = dropWhile (\<lambda>x. be_evidence_id x < be_evidence_id e) xs"
  have xs: "xs = before @ after"
    by (simp add: before_def after_def)
  show ?thesis
    unfolding observe_candidate_def binary_search_evidence_def Let_def
      before_def [symmetric] after_def [symmetric]
    by (cases after) (simp_all add: xs nth_append list_update_append)
qed

text \<open>On sorted evidence, an observation replaces what its identifier held or joins the rest.\<close>

lemma observe_candidate_sorted:
  assumes sorted: "bset_ok (map be_evidence_id xs)"
    and "observe_candidate xs e = (w, ys)"
  shows "bset_ok (map be_evidence_id ys)"
    and "set ys = insert e {x \<in> set xs. be_evidence_id x \<noteq> be_evidence_id e}"
proof -
  define before after where
    "before = takeWhile (\<lambda>x. be_evidence_id x < be_evidence_id e) xs" and
    "after = dropWhile (\<lambda>x. be_evidence_id x < be_evidence_id e) xs"
  have xs: "xs = before @ after"
    by (simp add: before_def after_def)
  have less: "\<forall>x\<in>set before. be_evidence_id x < be_evidence_id e"
    by (auto simp: before_def dest: set_takeWhileD)
  have first: "\<not> be_evidence_id (hd after) < be_evidence_id e" if "after \<noteq> []"
    using that hd_dropWhile [of "\<lambda>x. be_evidence_id x < be_evidence_id e" xs]
    by (simp add: after_def)
  have eq: "(w, ys) = (case after of
       [] \<Rightarrow> (BeliefInserted, before @ [e])
     | x # rest \<Rightarrow>
         if be_evidence_id x = be_evidence_id e
         then if x = e then (BeliefUnchanged, xs) else (BeliefReplaced, before @ e # rest)
         else (BeliefInserted, before @ e # x # rest))"
    using assms(2) unfolding observe_candidate_eq Let_def before_def [symmetric] after_def [symmetric]
    by (rule sym)
  have "bset_ok (map be_evidence_id ys) \<and>
      set ys = insert e {x \<in> set xs. be_evidence_id x \<noteq> be_evidence_id e}"
  proof (cases after)
    case Nil
    with eq xs sorted less show ?thesis
      by (auto simp: sorted_wrt_append)
  next
    case (Cons x rest)
    with eq xs sorted less first show ?thesis
      by (auto simp: sorted_wrt_append split: if_splits intro: less_trans)
  qed
  then show "bset_ok (map be_evidence_id ys)"
    and "set ys = insert e {x \<in> set xs. be_evidence_id x \<noteq> be_evidence_id e}"
    by simp_all
qed

lemma belief_observe_prior [simp]: "bb_prior (snd (belief_observe b e)) = bb_prior b"
  by (auto simp: belief_observe_def split: prod.splits belief_write.splits res.splits)

lemma belief_observe_ok:
  assumes "belief_ok b" and "evidence_probabilities_ok e"
  shows "belief_ok (snd (belief_observe b e))"
proof -
  obtain w ys where ys: "observe_candidate (bb_evidence b) e = (w, ys)"
    by (cases "observe_candidate (bb_evidence b) e")
  note sorted = observe_candidate_sorted [OF _ ys]
  show ?thesis
    using assms sorted
    by (auto simp: belief_observe_def ys belief_ok_def list_all_iff
        split: belief_write.splits res.splits)
qed

lemma belief_observe_no_panic:
  assumes "belief_ok b" and "evidence_probabilities_ok e"
  shows "fst (belief_observe b e) \<noteq> Panic"
proof -
  obtain w ys where ys: "observe_candidate (bb_evidence b) e = (w, ys)"
    by (cases "observe_candidate (bb_evidence b) e")
  have "list_all evidence_probabilities_ok ys"
    using assms observe_candidate_sorted(2) [OF _ ys] by (auto simp: belief_ok_def list_all_iff)
  then have "calculate_bayesian_updates (bb_prior b) ys \<noteq> Panic"
    using assms by (intro calculate_no_panic) (simp_all add: belief_ok_def)
  then show ?thesis
    by (auto simp: belief_observe_def ys split: belief_write.splits res.splits)
qed

lemma belief_observe_Ok_evidence:
  assumes "belief_ok b" and "belief_observe b e = (Ok w, b')"
  shows "set (bb_evidence b') =
    insert e {x \<in> set (bb_evidence b). be_evidence_id x \<noteq> be_evidence_id e}"
proof -
  obtain v ys where ys: "observe_candidate (bb_evidence b) e = (v, ys)"
    by (cases "observe_candidate (bb_evidence b) e")
  have keep: "v = BeliefUnchanged \<Longrightarrow> ys = bb_evidence b"
    using ys by (auto simp: observe_candidate_def split: sum.splits if_splits)
  have "bset_ok (map be_evidence_id (bb_evidence b))"
    using assms(1) by (simp add: belief_ok_def)
  note seteq = observe_candidate_sorted(2) [OF this ys]
  have "bb_evidence b' = ys"
    using assms(2) keep
    by (auto simp: belief_observe_def ys split: belief_write.splits res.splits)
  then show ?thesis by (simp only: seteq)
qed

text \<open>
  A belief is determined by its prior and the set of its observations, whatever the order in which
  they arrived.
\<close>

lemma belief_ok_eqI:
  assumes "belief_ok b" and "belief_ok c" and "bb_prior b = bb_prior c"
    and "set (bb_evidence b) = set (bb_evidence c)"
  shows "b = c"
proof -
  have inj: "bb_evidence b = bb_evidence c"
  proof (rule map_sorted_distinct_set_unique [where f = be_evidence_id])
    show "inj_on be_evidence_id (set (bb_evidence b) \<union> set (bb_evidence c))"
      using assms bset_ok_distinct [of "map be_evidence_id (bb_evidence b)"]
      by (simp add: belief_ok_def distinct_map)
  qed (use assms in \<open>auto simp: belief_ok_def strict_sorted_iff\<close>)
  with assms show ?thesis
    by (cases b, cases c) (auto simp: belief_ok_def)
qed

section \<open>Arrival order and the wire form\<close>

fun observe_all ::
  "bayesian_belief \<Rightarrow> bayesian_evidence list \<Rightarrow> (bayesian_belief, reasoning_error) res" where
  "observe_all b [] = Ok b"
| "observe_all b (e # es) =
     (case belief_observe b e of
        (Ok _, b') \<Rightarrow> observe_all b' es
      | (Err err, _) \<Rightarrow> Err err
      | (Panic, _) \<Rightarrow> Panic)"

lemma observe_all_set:
  assumes "belief_ok b" and "list_all evidence_probabilities_ok es"
    and "distinct (map be_evidence_id (bb_evidence b @ es))"
    and "observe_all b es = Ok c"
  shows "belief_ok c \<and> bb_prior c = bb_prior b \<and>
    set (bb_evidence c) = set (bb_evidence b) \<union> set es"
  using assms
proof (induction es arbitrary: b)
  case (Cons e es)
  then obtain w b' where step: "belief_observe b e = (Ok w, b')" and rest: "observe_all b' es = Ok c"
    by (auto split: prod.splits res.splits)
  have b': "belief_ok b'" "bb_prior b' = bb_prior b"
    using belief_observe_ok [of b e] belief_observe_prior [of b e] Cons.prems step by simp_all
  have fresh: "be_evidence_id e \<notin> be_evidence_id ` set (bb_evidence b)"
    using Cons.prems(3) by simp
  then have "{x \<in> set (bb_evidence b). be_evidence_id x \<noteq> be_evidence_id e} = set (bb_evidence b)"
    by (auto simp: image_iff)
  with belief_observe_Ok_evidence [OF Cons.prems(1) step]
  have new: "set (bb_evidence b') = insert e (set (bb_evidence b))"
    by (simp only:)
  have "distinct (map be_evidence_id (bb_evidence b'))"
    using b'(1) unfolding belief_ok_def by (intro bset_ok_distinct) simp
  then have "distinct (map be_evidence_id (bb_evidence b' @ es))"
    using Cons.prems(3) new by (simp add: Int_insert_left)
  from Cons.IH [OF b'(1) _ this rest] Cons.prems(2) b'(2) new show ?case
    by simp
qed simp

lemma belief_observe_last:
  assumes ok: "belief_ok b" and "calculate_bayesian_updates (bb_prior b) (bb_evidence b @ [e]) = Ok (q, us)"
    and less: "\<forall>x\<in>set (bb_evidence b). be_evidence_id x < be_evidence_id e"
  shows "belief_observe b e =
    (Ok BeliefInserted, b\<lparr>bb_posterior := q, bb_evidence := bb_evidence b @ [e], bb_updates := us\<rparr>)"
proof -
  have "observe_candidate (bb_evidence b) e = (BeliefInserted, bb_evidence b @ [e])"
    using less by (simp add: observe_candidate_eq Let_def takeWhile_eq_all_conv [THEN iffD2]
        dropWhile_eq_Nil_conv [THEN iffD2])
  then show ?thesis using assms(2) by (simp add: belief_observe_def)
qed

lemma replay_sorted:
  assumes "belief_ok b" and "bset_ok (map be_evidence_id (bb_evidence b @ es))"
    and "list_all evidence_probabilities_ok es"
    and "calculate_bayesian_updates (bb_prior b) (bb_evidence b @ es) = Ok (q, us)"
    and "set seen = be_evidence_id ` set (bb_evidence b)"
  shows "replay_wire_evidence seen b es =
    Ok (b\<lparr>bb_posterior := q, bb_evidence := bb_evidence b @ es, bb_updates := us\<rparr>)"
  using assms
proof (induction es arbitrary: b seen)
  case Nil
  then show ?case by (simp add: belief_ok_def)
next
  case (Cons e es)
  have "calculate_bayesian_updates (bb_prior b) ((bb_evidence b @ [e]) @ es) = Ok (q, us)"
    using Cons.prems(4) by simp
  then obtain q1 us1 where
    prefix: "calculate_bayesian_updates (bb_prior b) (bb_evidence b @ [e]) = Ok (q1, us1)"
    by (metis calculate_prefix_Ok prod.collapse)
  define b' where "b' = b\<lparr>bb_posterior := q1, bb_evidence := bb_evidence b @ [e], bb_updates := us1\<rparr>"
  have less: "\<forall>x\<in>set (bb_evidence b). be_evidence_id x < be_evidence_id e"
    using Cons.prems(2) by (simp add: sorted_wrt_append)
  have step: "belief_observe b e = (Ok BeliefInserted, b')"
    using belief_observe_last [OF Cons.prems(1) prefix less] by (simp add: b'_def)
  have "belief_ok b'"
    using belief_observe_ok [OF Cons.prems(1), of e] Cons.prems(3) step by simp
  moreover have "be_evidence_id e \<notin> set seen"
    using less Cons.prems(5) by auto
  ultimately show ?case
    using Cons.IH [of b' "bset_insert (be_evidence_id e) seen"] Cons.prems step
    by (simp add: b'_def)
qed

section \<open>Properties\<close>

text \<open>
  C17. A Bayesian update of valid probabilities never panics. It fails exactly when both weights are
  zero, and otherwise returns a valid probability whose distance to the true posterior
  \<open>true_weight / total_weight\<close> is at most half a part per million, although the source computes it
  in 128-bit words and narrows it to 32 bits.
\<close>

theorem probability_update_correct:
  assumes "probability_ok p" and "probability_ok lt" and "probability_ok lf"
  shows "case probability_update p lt lf of
      Panic \<Rightarrow> False
    | Err e \<Rightarrow> e = UndefinedPosterior \<and> total_weight p lt lf = 0
    | Ok q \<Rightarrow> 0 < total_weight p lt lf \<and> probability_ok q \<and>
        \<bar>2 * int (unat q) * int (total_weight p lt lf)
           - 2 * int (true_weight p lt * 1000000)\<bar> \<le> int (total_weight p lt lf)"
proof (cases "total_weight p lt lf = 0")
  case True
  then show ?thesis using assms by (simp add: probability_update_exact)
next
  case False
  then obtain q where q: "probability_update p lt lf = Ok q"
    using assms by (simp add: probability_update_exact)
  note facts = probability_update_Ok [OF assms q]
  show ?thesis
    using facts rounded_quotient_nearest [OF facts(1), of "true_weight p lt * 1000000"]
    by (simp add: q nearest_posterior_def)
qed

theorem probability_update_correct_witness:
  "probability_ok 500000 \<and> probability_update 500000 800000 200000 = Ok 800000 \<and>
   probability_ok 800000"
proof -
  have ok: "probability_ok 500000" "probability_ok 800000" "probability_ok 200000"
    by (simp_all add: probability_ok_iff)
  have val: "probability_update 500000 800000 200000 = Ok 800000"
    by code_simp
  show ?thesis
    using probability_update_correct [OF ok] ok(1) val by simp
qed

text \<open>
  Evidence moves a belief in its own direction only: when the claim makes the observation at
  least as likely, the rounded posterior is not below the prior, and when it makes it at most as
  likely, not above it; so an observation that is equally likely either way changes nothing.
\<close>

theorem probability_update_direction:
  assumes "probability_ok p" and "probability_ok lt" and "probability_ok lf"
    and "probability_update p lt lf = Ok q"
  shows "(lf \<le> lt \<longrightarrow> p \<le> q) \<and> (lt \<le> lf \<longrightarrow> q \<le> p)"
  using probability_update_Ok [OF assms] assms(1)
  by (simp add: word_le_nat_alt nearest_posterior_supporting nearest_posterior_contradicting)

text \<open>
  C18. Arrival order does not matter: two accepted sequences of the same observations with distinct
  identifiers, from the same valid prior, end in the same belief, audit trail included.
\<close>

theorem observe_all_order_independent:
  assumes "probability_ok p" and "list_all evidence_probabilities_ok es"
    and "distinct (map be_evidence_id es)" and "mset fs = mset es"
    and "observe_all (belief_new p) es = Ok b" and "observe_all (belief_new p) fs = Ok c"
  shows "b = c"
proof -
  have new: "belief_ok (belief_new p)" "bb_evidence (belief_new p) = []" "bb_prior (belief_new p) = p"
    using assms(1) by (simp_all add: belief_ok_new) (simp_all add: belief_new_def)
  have same: "set fs = set es"
    using assms(4) by (rule mset_eq_setD)
  have "mset (map be_evidence_id fs) = mset (map be_evidence_id es)"
    using assms(4) by simp
  then have fs: "distinct (map be_evidence_id fs)" "list_all evidence_probabilities_ok fs"
    using assms(2,3) same mset_eq_imp_distinct_iff by (blast, simp add: list_all_iff)
  have "belief_ok b \<and> bb_prior b = p \<and> set (bb_evidence b) = set es"
    using observe_all_set [OF new(1) assms(2) _ assms(5)] new(2,3) assms(3) by simp
  moreover have "belief_ok c \<and> bb_prior c = p \<and> set (bb_evidence c) = set fs"
    using observe_all_set [OF new(1) fs(2) _ assms(6)] new(2,3) fs(1) by simp
  ultimately show ?thesis
    using same by (intro belief_ok_eqI) simp_all
qed

theorem observe_all_order_independent_witness:
  "observe_all (belief_new 500000)
     [\<lparr>be_evidence_id = ''a'', be_likelihood_if_true = 800000, be_likelihood_if_false = 200000,
       be_rationale = ''r''\<rparr>,
      \<lparr>be_evidence_id = ''b'', be_likelihood_if_true = 100000, be_likelihood_if_false = 300000,
       be_rationale = ''s''\<rparr>] =
   observe_all (belief_new 500000)
     [\<lparr>be_evidence_id = ''b'', be_likelihood_if_true = 100000, be_likelihood_if_false = 300000,
       be_rationale = ''s''\<rparr>,
      \<lparr>be_evidence_id = ''a'', be_likelihood_if_true = 800000, be_likelihood_if_false = 200000,
       be_rationale = ''r''\<rparr>]"
  (is "observe_all ?n [?a, ?b] = observe_all ?n [?b, ?a]")
proof -
  have "is_ok (observe_all ?n [?a, ?b])" and "is_ok (observe_all ?n [?b, ?a])"
    by code_simp+
  then obtain b c where b: "observe_all ?n [?a, ?b] = Ok b" and c: "observe_all ?n [?b, ?a] = Ok c"
    unfolding is_ok_iff by blast
  have "b = c"
    by (rule observe_all_order_independent [OF _ _ _ _ b c])
      (simp_all add: probability_ok_iff evidence_probabilities_ok_def)
  with b c show ?thesis by simp
qed

text \<open>
  C19. An observation is transactional: it never panics on valid input, a failed one leaves the
  belief as it was, an accepted one replaces whatever its identifier held, and the belief stays
  sorted by identifier with a posterior and audit trail recomputed from the prior.
\<close>

theorem belief_observe_transactional:
  assumes "belief_ok b" and "evidence_probabilities_ok e"
  shows "belief_ok (snd (belief_observe b e)) \<and>
    (case fst (belief_observe b e) of
       Panic \<Rightarrow> False
     | Err err \<Rightarrow> snd (belief_observe b e) = b
     | Ok w \<Rightarrow> set (bb_evidence (snd (belief_observe b e))) =
         insert e {x \<in> set (bb_evidence b). be_evidence_id x \<noteq> be_evidence_id e})"
proof -
  have "snd (belief_observe b e) = b" if "fst (belief_observe b e) = Err err" for err
    using that by (auto simp: belief_observe_def split: prod.splits belief_write.splits res.splits)
  moreover have "set (bb_evidence (snd (belief_observe b e))) =
      insert e {x \<in> set (bb_evidence b). be_evidence_id x \<noteq> be_evidence_id e}"
    if "fst (belief_observe b e) = Ok w" for w
    using that belief_observe_Ok_evidence [OF assms(1)] by (metis prod.collapse)
  ultimately show ?thesis
    using belief_observe_no_panic [OF assms] belief_observe_ok [OF assms]
    by (simp split: res.split)
qed

theorem belief_observe_transactional_witness:
  "belief_ok (snd (belief_observe (belief_new 500000)
     \<lparr>be_evidence_id = ''a'', be_likelihood_if_true = 0, be_likelihood_if_false = 0,
      be_rationale = ''r''\<rparr>)) \<and>
   fst (belief_observe (belief_new 500000)
     \<lparr>be_evidence_id = ''a'', be_likelihood_if_true = 0, be_likelihood_if_false = 0,
      be_rationale = ''r''\<rparr>) = Err UndefinedPosterior"
  (is "belief_ok (snd (belief_observe ?b ?e)) \<and> _")
proof -
  have "belief_ok ?b" and "evidence_probabilities_ok ?e"
    by (simp_all add: belief_ok_new probability_ok_iff evidence_probabilities_ok_def)
  from belief_observe_transactional [OF this]
  have "belief_ok (snd (belief_observe ?b ?e))" by (rule conjunct1)
  moreover have "fst (belief_observe ?b ?e) = Err UndefinedPosterior" by code_simp
  ultimately show ?thesis by simp
qed

text \<open>
  The wire form is faithful: every belief the engine can hold decodes from its own encoding to
  itself, with the skipped audit trail rebuilt.
\<close>

theorem belief_wire_roundtrip:
  assumes "belief_ok b"
  shows "belief_from_wire (belief_to_wire b) = Ok b"
proof -
  have "replay_wire_evidence [] (belief_new (bb_prior b)) (bb_evidence b) = Ok b"
    using assms replay_sorted [of "belief_new (bb_prior b)" "bb_evidence b"]
    by (simp add: belief_ok_def belief_new_def)
  then show ?thesis
    by (simp add: belief_from_wire_def belief_to_wire_def)
qed

end
