(* ===== verification/Records.thy ===== *)
theory Records
  imports Bayes
begin

text \<open>
  The immutable and evaluated records the engine exchanges
  (\<open>src/crates/termivar-core/src/reasoning.rs\<close>): predicates and typed values, evidence with its
  derivation lineage, facts, hypotheses with their Bayesian belief, and knowledge-graph entities
  and relations. Generated identifiers and the wall clock are arguments of the constructors.
\<close>

section \<open>Predicates, values and sources\<close>

record knowledge_predicate =
  kp_namespace :: string
  kp_name :: string

definition knowledge_predicate_new ::
  "string \<Rightarrow> string \<Rightarrow> (knowledge_predicate, reasoning_error) res" where
  "knowledge_predicate_new namespace name =
     and_then (non_empty namespace ''predicate namespace'')
       (\<lambda>ns. and_then (non_empty name ''predicate name'')
         (\<lambda>n. Ok \<lparr>kp_namespace = ns, kp_name = n\<rparr>))"

definition dotted :: "knowledge_predicate \<Rightarrow> string" where
  "dotted p = kp_namespace p @ ''.'' @ kp_name p"

type_synonym i64 = "64 word"

datatype evidence_value =
    Boolean bool
  | Signed i64
  | Unsigned u64
  | Text string
  | TextList "string list"

datatype evidence_kind =
    Network | Http | Tls | Dns | Content | Authentication | RateLimit | Timing | Technology
  | CustomEvidence string

record evidence_source =
  es_component :: string
  es_method :: string
  es_correlation_id :: "string option"

definition evidence_source_new ::
  "string \<Rightarrow> string \<Rightarrow> (evidence_source, reasoning_error) res" where
  "evidence_source_new component meth =
     and_then (non_empty component ''evidence source component'')
       (\<lambda>c. and_then (non_empty meth ''evidence source method'')
         (\<lambda>m. Ok \<lparr>es_component = c, es_method = m, es_correlation_id = None\<rparr>))"

definition with_correlation_id ::
  "evidence_source \<Rightarrow> string \<Rightarrow> (evidence_source, reasoning_error) res" where
  "with_correlation_id src cid =
     and_then (non_empty cid ''correlation id'') (\<lambda>c. Ok (src\<lparr>es_correlation_id := Some c\<rparr>))"

section \<open>Derivation lineage\<close>

definition MAX_DERIVATION_PARENTS :: nat where
  "MAX_DERIVATION_PARENTS = 32"

definition MAX_DERIVATION_ALGORITHM_BYTES :: nat where
  "MAX_DERIVATION_ALGORITHM_BYTES = 64"

record derivation_algorithm =
  da_name :: string
  da_version :: u32

definition derivation_algorithm_new ::
  "string \<Rightarrow> u32 \<Rightarrow> (derivation_algorithm, reasoning_error) res" where
  "derivation_algorithm_new name version =
     and_then (non_empty name ''derivation algorithm name'')
       (\<lambda>n. if length n > MAX_DERIVATION_ALGORITHM_BYTES
             then Err (DerivationAlgorithmTooLong (length n) MAX_DERIVATION_ALGORITHM_BYTES)
             else Ok \<lparr>da_name = n, da_version = version\<rparr>)"

record evidence_derivation =
  ed_parents :: "evidence_id list"
  ed_algorithm :: derivation_algorithm

definition evidence_derivation_new ::
  "evidence_id list \<Rightarrow> derivation_algorithm \<Rightarrow> (evidence_derivation, reasoning_error) res" where
  "evidence_derivation_new parents algorithm =
     (let canonical = bset_of_list parents
      in if canonical = [] then Err EmptyDerivationParents
         else if length canonical > MAX_DERIVATION_PARENTS
         then Err (TooManyDerivationParents (length canonical) MAX_DERIVATION_PARENTS)
         else Ok \<lparr>ed_parents = canonical, ed_algorithm = algorithm\<rparr>)"

text \<open>\<^verbatim>\<open>slice::binary_search\<close> on a sorted slice succeeds exactly when the element occurs.\<close>

definition references_parent :: "evidence_derivation \<Rightarrow> evidence_id \<Rightarrow> bool" where
  "references_parent d i =
     (let n = length (takeWhile (\<lambda>p. p < i) (ed_parents d))
      in n < length (ed_parents d) \<and> ed_parents d ! n = i)"

datatype evidence_origin = Direct | Derived evidence_derivation

fun derivation :: "evidence_origin \<Rightarrow> evidence_derivation option" where
  "derivation (Derived d) = Some d"
| "derivation Direct = None"

fun is_direct :: "evidence_origin \<Rightarrow> bool" where
  "is_direct Direct = True"
| "is_direct (Derived d) = False"

section \<open>Evidence, facts and hypotheses\<close>

record evidence =
  e_id :: evidence_id
  e_subject :: entity_id
  e_kind :: evidence_kind
  e_predicate :: knowledge_predicate
  e_value :: evidence_value
  e_source :: evidence_source
  e_reliability :: confidence_score
  e_observed_at_ms :: u64
  e_origin :: evidence_origin

definition evidence_with_id_at ::
  "evidence_id \<Rightarrow> entity_id \<Rightarrow> evidence_kind \<Rightarrow> knowledge_predicate \<Rightarrow> evidence_value \<Rightarrow>
   evidence_source \<Rightarrow> confidence_score \<Rightarrow> u64 \<Rightarrow> evidence" where
  "evidence_with_id_at i s k p v src r t =
     \<lparr>e_id = i, e_subject = s, e_kind = k, e_predicate = p, e_value = v, e_source = src,
      e_reliability = r, e_observed_at_ms = t, e_origin = Direct\<rparr>"

definition derived_from :: "evidence \<Rightarrow> evidence_derivation \<Rightarrow> evidence" where
  "derived_from e d = e\<lparr>e_origin := Derived d\<rparr>"

definition e_parents :: "evidence \<Rightarrow> evidence_id list" where
  "e_parents e = (case derivation (e_origin e) of None \<Rightarrow> [] | Some d \<Rightarrow> ed_parents d)"

record fact =
  f_id :: string
  f_subject :: entity_id
  f_predicate :: knowledge_predicate
  f_value :: evidence_value
  f_confidence :: confidence_score
  f_evidence_ids :: "evidence_id list"
  f_asserted_at_ms :: u64

definition fact_new ::
  "string \<Rightarrow> u64 \<Rightarrow> entity_id \<Rightarrow> knowledge_predicate \<Rightarrow> evidence_value \<Rightarrow> confidence_score \<Rightarrow>
   evidence_id \<Rightarrow> fact" where
  "fact_new fresh_id now subject predicate v confidence eid =
     \<lparr>f_id = fresh_id, f_subject = subject, f_predicate = predicate, f_value = v,
      f_confidence = confidence, f_evidence_ids = [eid], f_asserted_at_ms = now\<rparr>"

definition fact_with_confidence :: "fact \<Rightarrow> confidence_score \<Rightarrow> fact" where
  "fact_with_confidence f c = f\<lparr>f_confidence := c\<rparr>"

definition fact_add_evidence :: "fact \<Rightarrow> evidence_id \<Rightarrow> fact" where
  "fact_add_evidence f i = f\<lparr>f_evidence_ids := bset_insert i (f_evidence_ids f)\<rparr>"

datatype contribution_direction = Supporting | Contradicting

record evidence_contribution =
  ec_evidence_id :: evidence_id
  ec_direction :: contribution_direction
  ec_weight :: confidence_score
  ec_rationale :: string

definition evidence_contribution_new ::
  "evidence_id \<Rightarrow> contribution_direction \<Rightarrow> confidence_score \<Rightarrow> string \<Rightarrow>
   (evidence_contribution, reasoning_error) res" where
  "evidence_contribution_new eid direction weight rationale =
     and_then (non_empty rationale ''evidence contribution rationale'')
       (\<lambda>r. Ok \<lparr>ec_evidence_id = eid, ec_direction = direction, ec_weight = weight,
                 ec_rationale = r\<rparr>)"

datatype hypothesis_state = Proposed | Supported | Contradicted | Confirmed | Rejected

datatype hypothesis_strength = Weak | Strong

record hypothesis =
  h_id :: string
  h_subject :: entity_id
  h_predicate :: knowledge_predicate
  h_value :: evidence_value
  h_belief :: bayesian_belief
  h_strength :: hypothesis_strength
  h_state :: hypothesis_state
  h_updated_at_ms :: u64

definition hypothesis_with_id ::
  "u64 \<Rightarrow> string \<Rightarrow> entity_id \<Rightarrow> knowledge_predicate \<Rightarrow> evidence_value \<Rightarrow> probability \<Rightarrow>
   (hypothesis, reasoning_error) res" where
  "hypothesis_with_id now i subject predicate v prior =
     and_then (non_empty i ''hypothesis id'')
       (\<lambda>hid. Ok \<lparr>h_id = hid, h_subject = subject, h_predicate = predicate, h_value = v,
                   h_belief = belief_new prior, h_strength = Weak, h_state = Proposed,
                   h_updated_at_ms = now\<rparr>)"

definition hypothesis_observe ::
  "u64 \<Rightarrow> hypothesis \<Rightarrow> bayesian_evidence \<Rightarrow>
   (belief_write, reasoning_error) res \<times> hypothesis" where
  "hypothesis_observe now h observation =
     (case belief_observe (h_belief h) observation of
        (Ok w, b) \<Rightarrow>
          (Ok w, if w \<noteq> BeliefUnchanged then h\<lparr>h_belief := b, h_updated_at_ms := now\<rparr>
                 else h\<lparr>h_belief := b\<rparr>)
      | (Err e, b) \<Rightarrow> (Err e, h\<lparr>h_belief := b\<rparr>)
      | (Panic, b) \<Rightarrow> (Panic, h\<lparr>h_belief := b\<rparr>))"

definition set_strength :: "u64 \<Rightarrow> hypothesis \<Rightarrow> hypothesis_strength \<Rightarrow> hypothesis" where
  "set_strength now h s = h\<lparr>h_strength := s, h_updated_at_ms := now\<rparr>"

definition set_state :: "u64 \<Rightarrow> hypothesis \<Rightarrow> hypothesis_state \<Rightarrow> hypothesis" where
  "set_state now h s = h\<lparr>h_state := s, h_updated_at_ms := now\<rparr>"

abbreviation h_posterior :: "hypothesis \<Rightarrow> probability" where
  "h_posterior h \<equiv> bb_posterior (h_belief h)"

definition same_evaluation_as :: "hypothesis \<Rightarrow> hypothesis \<Rightarrow> bool" where
  "same_evaluation_as h k \<longleftrightarrow>
     h_id h = h_id k \<and> h_subject h = h_subject k \<and> h_predicate h = h_predicate k \<and>
     h_value h = h_value k \<and> h_belief h = h_belief k \<and> h_strength h = h_strength k \<and>
     h_state h = h_state k"

section \<open>Knowledge-graph entities and relations\<close>

datatype entity_kind =
    Host | Service | Endpoint | TechnologyEntity | Identity | Session | Parameter | Credential
  | CustomEntity string

record knowledge_entity =
  ke_id :: entity_id
  ke_kind :: entity_kind
  ke_label :: string

definition knowledge_entity_new ::
  "entity_id \<Rightarrow> entity_kind \<Rightarrow> string \<Rightarrow> (knowledge_entity, reasoning_error) res" where
  "knowledge_entity_new i k label =
     and_then (non_empty label ''entity label'') (\<lambda>l. Ok \<lparr>ke_id = i, ke_kind = k, ke_label = l\<rparr>)"

datatype relation_kind =
    Exposes | Serves | Uses | DependsOn | Contains | AuthenticatesWith | DerivedFrom | RelatedTo
  | CustomRelation string

record knowledge_relation =
  kr_id :: relation_id
  kr_from :: entity_id
  kr_to :: entity_id
  kr_kind :: relation_kind
  kr_confidence :: confidence_score
  kr_evidence_ids :: "evidence_id list"

definition knowledge_relation_with_id ::
  "relation_id \<Rightarrow> entity_id \<Rightarrow> entity_id \<Rightarrow> relation_kind \<Rightarrow> confidence_score \<Rightarrow> evidence_id \<Rightarrow>
   knowledge_relation" where
  "knowledge_relation_with_id i a b k c eid =
     \<lparr>kr_id = i, kr_from = a, kr_to = b, kr_kind = k, kr_confidence = c, kr_evidence_ids = [eid]\<rparr>"

definition relation_add_evidence :: "knowledge_relation \<Rightarrow> evidence_id \<Rightarrow> knowledge_relation" where
  "relation_add_evidence r i = r\<lparr>kr_evidence_ids := bset_insert i (kr_evidence_ids r)\<rparr>"

section \<open>Lemmas\<close>

lemma evidence_derivation_new_Ok:
  assumes "evidence_derivation_new ps a = Ok d"
  shows "ed_parents d = bset_of_list ps" and "ed_parents d \<noteq> []"
    and "length (ed_parents d) \<le> MAX_DERIVATION_PARENTS"
  using assms by (auto simp: evidence_derivation_new_def Let_def split: if_splits)

lemma same_evaluation_refl [simp]: "same_evaluation_as h h"
  by (simp add: same_evaluation_as_def)

lemma set_state_simps [simp]:
  "h_id (set_state t h s) = h_id h" "h_subject (set_state t h s) = h_subject h"
  "h_predicate (set_state t h s) = h_predicate h" "h_value (set_state t h s) = h_value h"
  "h_belief (set_state t h s) = h_belief h" "h_strength (set_state t h s) = h_strength h"
  "h_state (set_state t h s) = s"
  by (simp_all add: set_state_def)

lemma hypothesis_observe_simps [simp]:
  "h_id (snd (hypothesis_observe t h e)) = h_id h"
  "h_subject (snd (hypothesis_observe t h e)) = h_subject h"
  "h_predicate (snd (hypothesis_observe t h e)) = h_predicate h"
  "h_value (snd (hypothesis_observe t h e)) = h_value h"
  "h_belief (snd (hypothesis_observe t h e)) = snd (belief_observe (h_belief h) e)"
  by (auto simp: hypothesis_observe_def split: prod.splits res.splits)

lemma takeWhile_less_nth_iff:
  "bset_ok xs \<Longrightarrow>
   length (takeWhile (\<lambda>p. p < i) xs) < length xs \<and> xs ! length (takeWhile (\<lambda>p. p < i) xs) = i \<longleftrightarrow>
   i \<in> set xs"
  by (induction xs) auto

text \<open>
  Lineage is canonical: whether a parent list is accepted and the record it gives depend on the
  set of parents alone, and an accepted lineage is sorted, free of duplicates, non-empty and within
  the compiled bound, so that the binary search of \<^verbatim>\<open>references_parent\<close> decides membership.
\<close>

theorem evidence_derivation_canonical:
  "(set ps = set qs \<longrightarrow> evidence_derivation_new ps a = evidence_derivation_new qs a) \<and>
   (\<forall>d. evidence_derivation_new ps a = Ok d \<longrightarrow>
      bset_ok (ed_parents d) \<and> set (ed_parents d) = set ps \<and> ed_parents d \<noteq> [] \<and>
      length (ed_parents d) \<le> MAX_DERIVATION_PARENTS \<and>
      (\<forall>i. references_parent d i \<longleftrightarrow> i \<in> set ps))"
proof (intro conjI impI allI)
  assume "set ps = set qs"
  then have "bset_of_list ps = bset_of_list qs"
    by (intro strict_sorted_equal) simp_all
  then show "evidence_derivation_new ps a = evidence_derivation_new qs a"
    by (simp add: evidence_derivation_new_def)
next
  fix d i
  assume d: "evidence_derivation_new ps a = Ok d"
  show sorted: "bset_ok (ed_parents d)" and members: "set (ed_parents d) = set ps"
    and "ed_parents d \<noteq> []" and "length (ed_parents d) \<le> MAX_DERIVATION_PARENTS"
    using evidence_derivation_new_Ok [OF d] by simp_all
  show "references_parent d i \<longleftrightarrow> i \<in> set ps"
    using takeWhile_less_nth_iff [OF sorted, of i] members
    by (simp add: references_parent_def Let_def)
qed

end
