(* ===== verification/Lineage.thy ===== *)
theory Lineage
  imports Records
begin

text \<open>
  Validation of derivation lineage before a batch of evidence is written
  (\<open>src/crates/termivar-scanner/src/knowledge/writes.rs\<close>), with the error type of the knowledge
  base. A pending batch is a hash map in the source and is traversed in an unspecified order; here
  it is the list of its entries in that order. The explicit-stack depth-first search keeps the
  source's colours, indices and stack; it is total, never panics, and accepts exactly the batches
  whose internal derivation edges are acyclic.
\<close>

section \<open>Errors of the knowledge base\<close>

datatype knowledge_record_kind =
  EvidenceRecord | FactRecord | HypothesisRecord | EntityRecord | RelationRecord

datatype knowledge_base_error =
    SnapshotAuthorityMismatch entity_id
  | IdentityConflict knowledge_record_kind string
  | RelationEvidenceMismatch string string
  | RelationSubjectMismatch string string string
  | RelationLimitExceeded string nat nat
  | StaleSnapshot entity_id u64 u64 u64 u64
  | ReasoningSubjectMismatch string entity_id entity_id
  | MissingDerivationParent string string
  | SelfDerivation string
  | DerivationSubjectMismatch string string
  | DerivationCycle string

type_synonym 'a kb_res = "('a, knowledge_base_error) res"

definition identity_conflict :: "knowledge_record_kind \<Rightarrow> string \<Rightarrow> knowledge_base_error" where
  "identity_conflict kind i = IdentityConflict kind i"

section \<open>Parents resolve within one subject\<close>

type_synonym pending = "(evidence_id \<times> evidence) list"

fun validate_parents ::
  "(evidence_id \<rightharpoonup> evidence) \<Rightarrow> pending \<Rightarrow> evidence_id \<Rightarrow> evidence \<Rightarrow> evidence_id list \<Rightarrow>
   unit kb_res" where
  "validate_parents stored pending child_id child [] = Ok ()"
| "validate_parents stored pending child_id child (parent # parents) =
     (if parent = child_id then Err (SelfDerivation child_id)
      else case (case map_of pending parent of
                   Some e \<Rightarrow> Some (e_subject e)
                 | None \<Rightarrow> map_option e_subject (stored parent)) of
          None \<Rightarrow> Err (MissingDerivationParent child_id parent)
        | Some parent_subject \<Rightarrow>
            if parent_subject \<noteq> e_subject child
            then Err (DerivationSubjectMismatch child_id parent)
            else validate_parents stored pending child_id child parents)"

fun validate_children ::
  "(evidence_id \<rightharpoonup> evidence) \<Rightarrow> pending \<Rightarrow> (evidence_id \<times> evidence) list \<Rightarrow> unit kb_res" where
  "validate_children stored pending [] = Ok ()"
| "validate_children stored pending ((child_id, child) # rest) =
     (case derivation (e_origin child) of
        None \<Rightarrow> validate_children stored pending rest
      | Some d \<Rightarrow>
          and_then (validate_parents stored pending child_id child (ed_parents d))
            (\<lambda>_. validate_children stored pending rest))"

section \<open>Cycle detection\<close>

datatype color = White | Gray | Black

type_synonym adjacency = "(evidence_id \<times> evidence_id list) list"

definition batch_adjacency :: "pending \<Rightarrow> adjacency" where
  "batch_adjacency pending =
     map (\<lambda>(i, e).
       (i, case derivation (e_origin e) of
             None \<Rightarrow> []
           | Some d \<Rightarrow> filter (\<lambda>p. map_of pending p \<noteq> None) (ed_parents d))) pending"

definition adjacency_targets :: "adjacency \<Rightarrow> evidence_id set" where
  "adjacency_targets adj = (\<Union>p \<in> set adj. set (snd p))"

lemma finite_adjacency_targets [simp]: "finite (adjacency_targets adj)"
  by (simp add: adjacency_targets_def)

lemma adjacency_target: "map_of adj v = Some ns \<Longrightarrow> j < length ns \<Longrightarrow> ns ! j \<in> adjacency_targets adj"
  by (force simp: adjacency_targets_def dest: map_of_SomeD nth_mem)

definition white_targets :: "adjacency \<Rightarrow> (evidence_id \<rightharpoonup> color) \<Rightarrow> evidence_id set" where
  "white_targets adj col = {x \<in> adjacency_targets adj. col x = Some White}"

lemma finite_white_targets [simp]: "finite (white_targets adj col)"
  by (simp add: white_targets_def)

definition frame_work :: "adjacency \<Rightarrow> evidence_id \<times> nat \<Rightarrow> nat" where
  "frame_work adj f = (case map_of adj (fst f) of None \<Rightarrow> 0 | Some ns \<Rightarrow> length ns - snd f)"

text \<open>The inner loop; the head of the list is the top of the stack.\<close>

function dfs_loop ::
  "adjacency \<Rightarrow> (evidence_id \<rightharpoonup> color) \<Rightarrow> (evidence_id \<times> nat) list \<Rightarrow>
   (evidence_id \<rightharpoonup> color) kb_res" where
  "dfs_loop adj col [] = Ok col"
| "dfs_loop adj col ((node, ix) # stack) =
     (case map_of adj node of
        None \<Rightarrow> Panic
      | Some neighbors \<Rightarrow>
          if ix < length neighbors
          then (let nxt = neighbors ! ix in
            case col nxt of
              Some Gray \<Rightarrow> Err (DerivationCycle nxt)
            | Some White \<Rightarrow> dfs_loop adj (col(nxt \<mapsto> Gray)) ((nxt, 0) # (node, ix + 1) # stack)
            | _ \<Rightarrow> dfs_loop adj col ((node, ix + 1) # stack))
          else dfs_loop adj (col(node \<mapsto> Black)) stack)"
  by pat_completeness auto
termination
proof (relation "measures
    [\<lambda>(adj, col, stack). card (white_targets adj col),
     \<lambda>(adj, col, stack). sum_list (map (frame_work adj) stack),
     \<lambda>(adj, col, stack). length stack]", goal_cases)
  case (1)
  then show ?case by simp
next
  case (2 adj col node ix stack ns nxt)
  then show ?case by (simp add: frame_work_def)
next
  case (3 adj col node ix stack ns nxt c)
  then have "nxt \<in> white_targets adj col"
    by (simp add: white_targets_def adjacency_target)
  moreover have "white_targets adj (col(nxt \<mapsto> Gray)) = white_targets adj col - {nxt}"
    by (auto simp: white_targets_def)
  ultimately have "card (white_targets adj (col(nxt \<mapsto> Gray))) < card (white_targets adj col)"
    by (metis card_Diff1_less finite_white_targets)
  then show ?case by simp
next
  case (4 adj col node ix stack ns nxt c)
  then show ?case by (simp add: frame_work_def)
next
  case (5 adj col node ix stack ns)
  have "white_targets adj (col(node \<mapsto> Black)) \<subseteq> white_targets adj col"
    by (auto simp: white_targets_def split: if_splits)
  then have "card (white_targets adj (col(node \<mapsto> Black))) \<le> card (white_targets adj col)"
    by (simp add: card_mono)
  then show ?case by auto
qed

fun dfs_starts ::
  "adjacency \<Rightarrow> (evidence_id \<rightharpoonup> color) \<Rightarrow> evidence_id list \<Rightarrow> (evidence_id \<rightharpoonup> color) kb_res" where
  "dfs_starts adj col [] = Ok col"
| "dfs_starts adj col (start # starts) =
     (if col start = Some White
      then and_then (dfs_loop adj (col(start \<mapsto> Gray)) [(start, 0)])
             (\<lambda>col'. dfs_starts adj col' starts)
      else dfs_starts adj col starts)"

definition detect_batch_derivation_cycles :: "pending \<Rightarrow> unit kb_res" where
  "detect_batch_derivation_cycles pending =
     and_then
       (dfs_starts (batch_adjacency pending) (map_of (map (\<lambda>(i, e). (i, White)) pending))
         (map fst pending))
       (\<lambda>_. Ok ())"

definition validate_batch_derivations :: "(evidence_id \<rightharpoonup> evidence) \<Rightarrow> pending \<Rightarrow> unit kb_res" where
  "validate_batch_derivations stored pending =
     and_then (validate_children stored pending pending)
       (\<lambda>_. detect_batch_derivation_cycles pending)"

section \<open>The search decides acyclicity\<close>

definition adj_edges :: "adjacency \<Rightarrow> (evidence_id \<times> evidence_id) set" where
  "adj_edges adj = {(v, n). \<exists>ns. map_of adj v = Some ns \<and> n \<in> set ns}"

text \<open>
  What holds of the stack: every frame has looked at the parents before its index and found them
  finished, but for the one that the frame above it is exploring.
\<close>

fun frames_ok ::
  "adjacency \<Rightarrow> (evidence_id \<rightharpoonup> color) \<Rightarrow> evidence_id option \<Rightarrow> (evidence_id \<times> nat) list \<Rightarrow> bool" where
  "frames_ok adj col c [] = True"
| "frames_ok adj col c ((v, i) # stack) =
     ((\<exists>ns. map_of adj v = Some ns \<and> i \<le> length ns \<and>
        (\<forall>j<i. col (ns ! j) = Some Black \<or> c = Some (ns ! j))) \<and>
      (\<forall>u. c = Some u \<longrightarrow> (v, u) \<in> adj_edges adj) \<and> frames_ok adj col (Some v) stack)"

definition black_edges ::
  "adjacency \<Rightarrow> (evidence_id \<rightharpoonup> color) \<Rightarrow> (evidence_id \<times> evidence_id) set" where
  "black_edges adj col = {(a, b). (a, b) \<in> adj_edges adj \<and> col a = Some Black}"

lemma black_edges_iff [simp]:
  "(a, b) \<in> black_edges adj col \<longleftrightarrow> (a, b) \<in> adj_edges adj \<and> col a = Some Black"
  by (simp add: black_edges_def)

definition colors_ok :: "adjacency \<Rightarrow> (evidence_id \<rightharpoonup> color) \<Rightarrow> bool" where
  "colors_ok adj col \<longleftrightarrow>
     dom col = dom (map_of adj) \<and>
     (\<forall>a b. (a, b) \<in> adj_edges adj \<longrightarrow> col a = Some Black \<longrightarrow> col b = Some Black) \<and>
     acyclic (black_edges adj col)"

definition stack_ok ::
  "adjacency \<Rightarrow> (evidence_id \<rightharpoonup> color) \<Rightarrow> (evidence_id \<times> nat) list \<Rightarrow> bool" where
  "stack_ok adj col stack \<longleftrightarrow>
     distinct (map fst stack) \<and> (\<forall>x. col x = Some Gray \<longleftrightarrow> x \<in> set (map fst stack)) \<and>
     frames_ok adj col None stack"

lemma frames_ok_mono:
  "frames_ok adj col c stack \<Longrightarrow> (\<And>x. col x = Some Black \<Longrightarrow> col' x = Some Black) \<Longrightarrow>
   frames_ok adj col' c stack"
  by (induction adj col c stack rule: frames_ok.induct) (simp, fastforce)

lemma frames_ok_push:
  "frames_ok adj col None ((v, i) # stack) \<Longrightarrow> map_of adj v = Some ns \<Longrightarrow> i < length ns \<Longrightarrow>
   frames_ok adj col (Some (ns ! i)) ((v, i + 1) # stack)"
  by (auto simp: adj_edges_def less_Suc_eq)

lemma frames_ok_skip:
  "frames_ok adj col None ((v, i) # stack) \<Longrightarrow> map_of adj v = Some ns \<Longrightarrow> i < length ns \<Longrightarrow>
   col (ns ! i) = Some Black \<Longrightarrow> frames_ok adj col None ((v, i + 1) # stack)"
  by (auto simp: less_Suc_eq)

lemma frames_ok_pop:
  assumes "frames_ok adj col (Some v) stack" and "col v = Some Black"
  shows "frames_ok adj col None stack"
  using assms by (cases stack rule: list.exhaust; force)

lemma frames_path:
  "frames_ok adj col (Some v) stack \<Longrightarrow> x \<in> fst ` set stack \<Longrightarrow> (x, v) \<in> (adj_edges adj)\<^sup>+"
proof (induction stack arbitrary: v)
  case (Cons f stack)
  obtain w j where f: "f = (w, j)" by (cases f)
  with Cons.prems have step: "(w, v) \<in> adj_edges adj" and rest: "frames_ok adj col (Some w) stack"
    by auto
  show ?case
  proof (cases "x = w")
    case True
    with step show ?thesis by blast
  next
    case False
    with Cons.prems f have "x \<in> fst ` set stack" by auto
    from Cons.IH [OF rest this] step show ?thesis by (rule trancl_into_trancl)
  qed
qed simp

lemma gray_closes_cycle:
  assumes "stack_ok adj col ((v, i) # stack)" and "map_of adj v = Some ns" and "i < length ns"
    and "col (ns ! i) = Some Gray"
  shows "(ns ! i, ns ! i) \<in> (adj_edges adj)\<^sup>+"
proof -
  have edge: "(v, ns ! i) \<in> adj_edges adj" using assms(2,3) by (auto simp: adj_edges_def)
  have "ns ! i \<in> set (map fst ((v, i) # stack))" using assms(1,4) by (auto simp: stack_ok_def)
  then consider "ns ! i = v" | "ns ! i \<in> fst ` set stack" by auto
  then show ?thesis
  proof cases
    case 1
    with edge show ?thesis by auto
  next
    case 2
    have "frames_ok adj col (Some v) stack" using assms(1) by (simp add: stack_ok_def)
    from frames_path [OF this 2] edge show ?thesis by (rule trancl_into_trancl)
  qed
qed

text \<open>Edges that leave a node no edge enters close no cycle.\<close>

lemma acyclic_add_source:
  assumes entering: "\<And>x y. (y, x) \<in> R \<Longrightarrow> x \<noteq> v" and acyc: "acyclic S"
    and old: "\<And>a b. (a, b) \<in> R \<Longrightarrow> a \<noteq> v \<Longrightarrow> (a, b) \<in> S"
  shows "acyclic R"
proof -
  have path: "(a, b) \<in> S\<^sup>+ \<and> b \<noteq> v" if "(a, b) \<in> R\<^sup>+" "a \<noteq> v" for a b
    using that
  proof induction
    case (base b)
    with entering [of a b] old [of a b] show ?case by auto
  next
    case (step b c)
    then have "(a, b) \<in> S\<^sup>+" "b \<noteq> v" by auto
    with step.hyps(2) entering [of b c] old [of b c] show ?case
      by (auto intro: trancl_into_trancl)
  qed
  have "(x, x) \<notin> R\<^sup>+" for x
  proof
    assume cyc: "(x, x) \<in> R\<^sup>+"
    then obtain y where "(y, x) \<in> R" by (auto elim: tranclE)
    then have "x \<noteq> v" by (rule entering)
    with path [OF cyc] acyc show False by (auto simp: acyclic_def)
  qed
  then show ?thesis by (simp add: acyclic_def)
qed

lemma blacken_ok:
  assumes "colors_ok adj col" and "stack_ok adj col ((v, i) # stack)" and "map_of adj v = Some ns"
    and "\<not> i < length ns"
  shows "colors_ok adj (col(v \<mapsto> Black))" and "stack_ok adj (col(v \<mapsto> Black)) stack"
proof -
  let ?E = "adj_edges adj" and ?col = "col(v \<mapsto> Black)"
  have gray: "col v = Some Gray" using assms(2) by (simp add: stack_ok_def)
  have finished: "col b = Some Black" if "(v, b) \<in> ?E" for b
    using assms(2-4) that by (auto simp: stack_ok_def adj_edges_def in_set_conv_nth)
  have closed: "col b = Some Black" if "(a, b) \<in> ?E" "col a = Some Black" for a b
    using assms(1) that unfolding colors_ok_def by blast
  have acyc: "acyclic (black_edges adj col)" using assms(1) by (simp add: colors_ok_def)
  have entering: "x \<noteq> v" if "(y, x) \<in> black_edges adj ?col" for x y
    using that finished closed gray by (cases "y = v") auto
  show "colors_ok adj ?col"
    unfolding colors_ok_def
  proof (intro conjI allI impI)
    show "dom ?col = dom (map_of adj)"
      using assms(1,3) unfolding colors_ok_def by auto
    show "?col b = Some Black" if "(a, b) \<in> ?E" "?col a = Some Black" for a b
      using that finished closed by (cases "a = v") auto
    show "acyclic (black_edges adj ?col)"
      using entering acyc by (rule acyclic_add_source) auto
  qed
  show "stack_ok adj ?col stack"
    unfolding stack_ok_def
  proof (intro conjI)
    show "distinct (map fst stack)" using assms(2) by (simp add: stack_ok_def)
    show "\<forall>x. ?col x = Some Gray \<longleftrightarrow> x \<in> set (map fst stack)"
      using assms(2) by (auto simp: stack_ok_def)
    have "frames_ok adj ?col (Some v) stack"
      by (rule frames_ok_mono [of adj col]) (use assms(2) in \<open>simp_all add: stack_ok_def\<close>)
    then show "frames_ok adj ?col None stack" by (rule frames_ok_pop) simp
  qed
qed

text \<open>The search: it never panics, and its answer is a cycle or finished colours.\<close>

definition search_result ::
  "adjacency \<Rightarrow> (evidence_id \<rightharpoonup> color) \<Rightarrow> (evidence_id \<rightharpoonup> color) kb_res \<Rightarrow> bool" where
  "search_result adj col r =
     (case r of
        Ok col' \<Rightarrow> colors_ok adj col' \<and> stack_ok adj col' [] \<and>
          (\<forall>x. col' x = Some White \<longrightarrow> col x = Some White)
      | Err e \<Rightarrow> \<exists>x. e = DerivationCycle x \<and> (x, x) \<in> (adj_edges adj)\<^sup>+
      | Panic \<Rightarrow> False)"

lemma search_result_mono:
  "search_result adj col' r \<Longrightarrow> (\<And>x. col' x = Some White \<Longrightarrow> col x = Some White) \<Longrightarrow>
   search_result adj col r"
  by (auto simp: search_result_def split: res.splits)

lemma colors_ok_gray:
  assumes "colors_ok adj col" and "col v = Some White"
  shows "colors_ok adj (col(v \<mapsto> Gray))"
proof -
  have "black_edges adj (col(v \<mapsto> Gray)) = black_edges adj col"
    using assms(2) by (auto simp: black_edges_def split: if_splits)
  then show ?thesis using assms by (auto simp: colors_ok_def)
qed

lemma stack_ok_push:
  assumes "stack_ok adj col ((v, i) # stack)" and "map_of adj v = Some ns" and "i < length ns"
    and "col (ns ! i) = Some White" and "ns ! i \<in> dom (map_of adj)"
  shows "stack_ok adj (col(ns ! i \<mapsto> Gray)) ((ns ! i, 0) # (v, i + 1) # stack)"
proof -
  have "frames_ok adj col (Some (ns ! i)) ((v, i + 1) # stack)"
    using assms(1) unfolding stack_ok_def by (intro frames_ok_push [OF _ assms(2,3)]) blast
  then have "frames_ok adj (col(ns ! i \<mapsto> Gray)) (Some (ns ! i)) ((v, i + 1) # stack)"
    by (rule frames_ok_mono) (use assms(4) in auto)
  moreover have "ns ! i \<notin> set (map fst ((v, i) # stack))"
  proof
    assume "ns ! i \<in> set (map fst ((v, i) # stack))"
    then have "col (ns ! i) = Some Gray" using assms(1) unfolding stack_ok_def by blast
    with assms(4) show False by simp
  qed
  ultimately show ?thesis using assms(1,5) by (auto simp: stack_ok_def)
qed

lemma stack_ok_skip:
  assumes "stack_ok adj col ((v, i) # stack)" and "map_of adj v = Some ns" and "i < length ns"
    and "col (ns ! i) = Some Black"
  shows "stack_ok adj col ((v, i + 1) # stack)"
proof -
  have "frames_ok adj col None ((v, i + 1) # stack)"
    using assms(1) unfolding stack_ok_def 
    by (intro frames_ok_skip [where ns = ns, OF _ assms(2,3)] assms(4)) blast
  then show ?thesis using assms(1) unfolding stack_ok_def list.map fst_conv by blast
qed

lemma dfs_loop_steps:
  assumes "map_of adj v = Some ns"
  shows "\<not> i < length ns \<Longrightarrow> dfs_loop adj col ((v, i) # stack) = dfs_loop adj (col(v \<mapsto> Black)) stack"
    and "i < length ns \<Longrightarrow> col (ns ! i) = Some Gray \<Longrightarrow>
      dfs_loop adj col ((v, i) # stack) = Err (DerivationCycle (ns ! i))"
    and "i < length ns \<Longrightarrow> col (ns ! i) = Some White \<Longrightarrow> dfs_loop adj col ((v, i) # stack) =
      dfs_loop adj (col(ns ! i \<mapsto> Gray)) ((ns ! i, 0) # (v, i + 1) # stack)"
    and "i < length ns \<Longrightarrow> col (ns ! i) = Some Black \<Longrightarrow>
      dfs_loop adj col ((v, i) # stack) = dfs_loop adj col ((v, i + 1) # stack)"
  by (subst dfs_loop.simps(2), simp only: assms option.case Let_def if_True if_False color.case)+

lemma dfs_loop_result:
  assumes "colors_ok adj col" and "stack_ok adj col stack"
    and targets: "adjacency_targets adj \<subseteq> dom (map_of adj)"
  shows "search_result adj col (dfs_loop adj col stack)"
  using assms
proof (induction adj col stack rule: dfs_loop.induct)
  case (1 adj col)
  then show ?case by (simp add: search_result_def)
next
  case (2 adj col v i stack)
  obtain ns where ns: "map_of adj v = Some ns" using "2.prems"(2) by (auto simp: stack_ok_def)
  show ?case
  proof (cases "i < length ns")
    case False
    have "search_result adj (col(v \<mapsto> Black)) (dfs_loop adj (col(v \<mapsto> Black)) stack)"
      using "2.IH"(4) [OF ns False] blacken_ok [OF "2.prems"(1,2) ns False] "2.prems"(3) by blast
    then have "search_result adj col (dfs_loop adj (col(v \<mapsto> Black)) stack)"
      by (rule search_result_mono) (auto split: if_splits)
    then show ?thesis by (simp only: dfs_loop_steps(1) [OF ns False])
  next
    case True
    let ?n = "ns ! i"
    have dom: "?n \<in> dom (map_of adj)" using adjacency_target [OF ns True] "2.prems"(3) by auto
    obtain c where "col ?n = Some c" using dom "2.prems"(1) unfolding colors_ok_def by blast
    then consider (gray) "col ?n = Some Gray" | (white) "col ?n = Some White"
      | (black) "col ?n = Some Black" by (cases c) auto
    then show ?thesis
    proof cases
      case gray
      show ?thesis
        unfolding dfs_loop_steps(2) [where col = col, OF ns True gray] search_result_def
        using gray_closes_cycle [OF "2.prems"(2) ns True gray] by simp
    next
      case white
      let ?col = "col(?n \<mapsto> Gray)" and ?stack = "(?n, 0) # (v, i + 1) # stack"
      have inv: "colors_ok adj ?col" "stack_ok adj ?col ?stack"
        by (rule colors_ok_gray [OF "2.prems"(1) white],
            rule stack_ok_push [OF "2.prems"(2) ns True white dom])
      have "search_result adj ?col (dfs_loop adj ?col ?stack)"
        by (rule "2.IH"(2) [OF ns True refl white refl inv "2.prems"(3)])
      then have "search_result adj col (dfs_loop adj ?col ?stack)"
        by (rule search_result_mono) (auto split: if_splits)
      then show ?thesis by (simp only: dfs_loop_steps(3) [where col = col, OF ns True white])
    next
      case black
      have inv: "stack_ok adj col ((v, i + 1) # stack)"
        by (rule stack_ok_skip [where ns = ns]) (fact "2.prems"(2) ns True black)+
      have "search_result adj col (dfs_loop adj col ((v, i + 1) # stack))"
        by (rule "2.IH"(3) [OF ns True refl black refl "2.prems"(1) inv "2.prems"(3)])
      then show ?thesis by (simp only: dfs_loop_steps(4) [where col = col, OF ns True black])
    qed
  qed
qed

lemma dfs_starts_result:
  assumes "colors_ok adj col" and "stack_ok adj col []"
    and "adjacency_targets adj \<subseteq> dom (map_of adj)" and "set starts \<subseteq> dom (map_of adj)"
  shows "(case dfs_starts adj col starts of
      Ok col' \<Rightarrow> colors_ok adj col' \<and> stack_ok adj col' [] \<and>
        (\<forall>x. col' x = Some White \<longrightarrow> col x = Some White \<and> x \<notin> set starts)
    | Err e \<Rightarrow> \<exists>x. e = DerivationCycle x \<and> (x, x) \<in> (adj_edges adj)\<^sup>+
    | Panic \<Rightarrow> False)"
  using assms
proof (induction starts arbitrary: col)
  case (Cons x starts)
  show ?case
  proof (cases "col x = Some White")
    case False
    then show ?thesis using Cons.IH [OF Cons.prems(1-3)] Cons.prems(4)
      by (auto split: res.splits)
  next
    case True
    let ?r = "dfs_loop adj (col(x \<mapsto> Gray)) [(x, 0)]"
    have "stack_ok adj (col(x \<mapsto> Gray)) [(x, 0)]"
      using Cons.prems(2,4) by (auto simp: stack_ok_def)
    then have r: "search_result adj (col(x \<mapsto> Gray)) ?r"
      by (rule dfs_loop_result [OF colors_ok_gray [OF Cons.prems(1) True] _ Cons.prems(3)])
    show ?thesis
    proof (cases ?r)
      case (Ok col')
      then have col': "colors_ok adj col'" "stack_ok adj col' []"
        "\<And>y. col' y = Some White \<Longrightarrow> col y = Some White \<and> y \<noteq> x"
        using r by (auto simp: search_result_def split: if_splits)
      show ?thesis using Cons.IH [OF col'(1,2) Cons.prems(3)] Cons.prems(4) True Ok col'(3)
        by (auto split: res.splits)
    qed (use r True in \<open>auto simp: search_result_def\<close>)
  qed
qed simp

section \<open>Batches\<close>

definition batch_edges :: "pending \<Rightarrow> (evidence_id \<times> evidence_id) set" where
  "batch_edges pending =
     {(i, p). \<exists>e. map_of pending i = Some e \<and> p \<in> set (e_parents e) \<and> map_of pending p \<noteq> None}"

lemma map_of_batch_adjacency:
  "map_of (batch_adjacency pending) =
     map_option (\<lambda>e. filter (\<lambda>p. map_of pending p \<noteq> None) (e_parents e)) \<circ> map_of pending"
proof -
  have "batch_adjacency pending =
      map (\<lambda>(i, e). (i, filter (\<lambda>p. map_of pending p \<noteq> None) (e_parents e))) pending"
    by (auto simp: batch_adjacency_def e_parents_def split: option.split)
  then show ?thesis by (simp add: map_of_map)
qed

lemma dom_batch_adjacency: "dom (map_of (batch_adjacency pending)) = set (map fst pending)"
  by (simp add: map_of_batch_adjacency dom_map_option_comp dom_map_of_conv_image_fst)

lemma adj_edges_batch: "adj_edges (batch_adjacency pending) = batch_edges pending"
  by (auto simp: adj_edges_def batch_edges_def map_of_batch_adjacency)

lemma adjacency_targets_batch:
  "adjacency_targets (batch_adjacency pending) \<subseteq> dom (map_of (batch_adjacency pending))"
  unfolding map_of_batch_adjacency
  by (auto simp: adjacency_targets_def batch_adjacency_def split: option.splits)

lemma detect_cycles_cases:
  "detect_batch_derivation_cycles pending = Ok () \<and> acyclic (batch_edges pending)
   \<or> (\<exists>x. detect_batch_derivation_cycles pending = Err (DerivationCycle x)
        \<and> (x, x) \<in> (batch_edges pending)\<^sup>+)"
proof -
  let ?adj = "batch_adjacency pending" and ?col = "map_of (map (\<lambda>(i, e). (i, White)) pending)"
  have col: "?col = map_option (\<lambda>_. White) \<circ> map_of pending"
    by (simp add: map_of_map)
  have dom: "dom ?col = dom (map_of ?adj)" unfolding col map_of_batch_adjacency by (auto simp: dom_def)
  have no_black: "?col x \<noteq> Some Black" "?col x \<noteq> Some Gray" for x
    unfolding col by (auto split: option.splits)
  have "black_edges ?adj ?col = {}" using no_black(1) by (auto simp: black_edges_def)
  then have colors: "colors_ok ?adj ?col" using dom no_black(1)
    unfolding colors_ok_def by (simp add: acyclic_def)
  have stack: "stack_ok ?adj ?col []" using no_black(2) by (simp add: stack_ok_def)
  have starts: "set (map fst pending) \<subseteq> dom (map_of ?adj)"
    by (simp only: dom_batch_adjacency order_refl)
  note result = dfs_starts_result [OF colors stack adjacency_targets_batch starts]
  show ?thesis
  proof (cases "dfs_starts ?adj ?col (map fst pending)")
    case (Ok col')
    then have inv: "colors_ok ?adj col'" "stack_ok ?adj col' []"
      and white: "\<And>x. col' x = Some White \<Longrightarrow> x \<notin> set (map fst pending)" using result by auto
    have "col' a = Some Black" if "(a, b) \<in> adj_edges ?adj" for a b
    proof -
      have a: "a \<in> dom (map_of ?adj)" using that by (auto simp: adj_edges_def)
      then obtain c where c: "col' a = Some c" using inv(1) unfolding colors_ok_def by blast
      have "a \<in> set (map fst pending)" using a by (simp only: dom_batch_adjacency)
      with c white [of a] inv(2) show ?thesis by (cases c) (auto simp: stack_ok_def)
    qed
    then have "black_edges ?adj col' = adj_edges ?adj" by (auto simp: black_edges_def)
    with inv(1) Ok show ?thesis
      by (simp add: detect_batch_derivation_cycles_def colors_ok_def adj_edges_batch)
  qed (use result in \<open>auto simp: detect_batch_derivation_cycles_def adj_edges_batch\<close>)
qed

definition parents_resolve :: "(evidence_id \<rightharpoonup> evidence) \<Rightarrow> evidence_id \<Rightarrow> evidence \<Rightarrow> bool" where
  "parents_resolve m i e \<longleftrightarrow>
     (\<forall>p \<in> set (e_parents e). p \<noteq> i \<and> (\<exists>pe. m p = Some pe \<and> e_subject pe = e_subject e))"

lemma resolved_subject:
  "(case map_of pending p of Some e \<Rightarrow> Some (e_subject e) | None \<Rightarrow> map_option e_subject (stored p)) =
   map_option e_subject ((stored ++ map_of pending) p)"
  by (auto simp: map_add_def split: option.split)

lemma validate_parents_Ok_iff:
  "validate_parents stored pending i e ps = Ok () \<longleftrightarrow>
     (\<forall>p \<in> set ps. p \<noteq> i \<and> (\<exists>pe. (stored ++ map_of pending) p = Some pe \<and> e_subject pe = e_subject e))"
  by (induction ps) (auto simp: resolved_subject simp del: map_add_Some_iff split: option.splits)

lemma validate_parents_no_panic: "validate_parents stored pending i e ps \<noteq> Panic"
  by (induction ps) (auto split: option.splits)

lemma validate_children_Ok_iff:
  "validate_children stored pending cs = Ok () \<longleftrightarrow>
     (\<forall>(i, e) \<in> set cs. parents_resolve (stored ++ map_of pending) i e)"
proof (induction cs)
  case (Cons c cs)
  obtain i e where c: "c = (i, e)" by (cases c)
  show ?case
  proof (cases "derivation (e_origin e)")
    case None
    then show ?thesis using Cons c by (simp add: parents_resolve_def e_parents_def)
  next
    case (Some d)
    then have "validate_parents stored pending i e (ed_parents d) = Ok () \<longleftrightarrow>
        parents_resolve (stored ++ map_of pending) i e"
      by (simp add: validate_parents_Ok_iff parents_resolve_def e_parents_def)
    with Some Cons c show ?thesis by (simp add: res_simps)
  qed
qed simp

lemma validate_children_no_panic: "validate_children stored pending cs \<noteq> Panic"
  by (induction stored pending cs rule: validate_children.induct)
    (auto simp: res_simps validate_parents_no_panic split: option.split)

lemma validate_batch_Ok_iff:
  "validate_batch_derivations stored pending = Ok () \<longleftrightarrow>
     (\<forall>(i, e) \<in> set pending. parents_resolve (stored ++ map_of pending) i e)
     \<and> acyclic (batch_edges pending)"
  using detect_cycles_cases [of pending]
  by (auto simp: validate_batch_derivations_def res_simps validate_children_Ok_iff acyclic_def)

lemma validate_batch_no_panic: "validate_batch_derivations stored pending \<noteq> Panic"
  using detect_cycles_cases [of pending]
  by (auto simp: validate_batch_derivations_def res_simps validate_children_no_panic)

section \<open>Lineage of a store\<close>

declare map_add_SomeD [rule del]

definition lineage_edges :: "(evidence_id \<rightharpoonup> evidence) \<Rightarrow> (evidence_id \<times> evidence_id) set" where
  "lineage_edges m = {(i, p). \<exists>e. m i = Some e \<and> p \<in> set (e_parents e)}"

lemma lineage_edges_iff: "(i, p) \<in> lineage_edges m \<longleftrightarrow> (\<exists>e. m i = Some e \<and> p \<in> set (e_parents e))"
  by (simp add: lineage_edges_def)

definition lineage_ok :: "(evidence_id \<rightharpoonup> evidence) \<Rightarrow> bool" where
  "lineage_ok m \<longleftrightarrow> (\<forall>i e. m i = Some e \<longrightarrow> parents_resolve m i e) \<and> acyclic (lineage_edges m)"

lemma lineage_ok_empty: "lineage_ok Map.empty"
  by (simp add: lineage_ok_def lineage_edges_def acyclic_def)

lemma lineage_ok_merge:
  assumes ok: "lineage_ok m" and valid: "validate_batch_derivations m pending = Ok ()"
    and agree: "\<And>i e. map_of pending i = Some e \<Longrightarrow> m i = None \<or> m i = Some e"
  shows "lineage_ok (m ++ map_of pending)"
proof -
  let ?m = "m ++ map_of pending" and ?B = "batch_edges pending"
  have old: "?m i = Some e" if "m i = Some e" for i e
    using that agree [of i] by (cases "map_of pending i") (auto simp: map_add_def)
  have resolves: "parents_resolve ?m i e" if "?m i = Some e" for i e
  proof (cases "map_of pending i")
    case None
    with that have "m i = Some e" by (simp add: map_add_def)
    with ok have "parents_resolve m i e" by (simp add: lineage_ok_def)
    then show ?thesis using old by (fastforce simp: parents_resolve_def)
  next
    case (Some e')
    with that have "(i, e) \<in> set pending" by (simp add: map_add_def map_of_SomeD)
    then show ?thesis using valid unfolding validate_batch_Ok_iff by blast
  qed
  have stored: "(a, b) \<in> lineage_edges m \<and> b \<in> dom m"
    if "(a, b) \<in> lineage_edges ?m" "a \<in> dom m" for a b
  proof -
    from that(2) obtain e where e: "m a = Some e" by auto
    with that(1) have b: "b \<in> set (e_parents e)" using old [OF e] by (auto simp: lineage_edges_def)
    moreover have "parents_resolve m a e" using ok e by (simp add: lineage_ok_def)
    ultimately show ?thesis using e by (auto simp: lineage_edges_def parents_resolve_def)
  qed
  have stored_path: "(a, b) \<in> (lineage_edges m)\<^sup>+ \<and> b \<in> dom m"
    if "(a, b) \<in> (lineage_edges ?m)\<^sup>+" "a \<in> dom m" for a b
    using that by induction (use stored in \<open>blast intro: trancl_into_trancl\<close>)+
  have fresh: "(a, b) \<in> ?B \<and> a \<notin> dom m" if "(a, b) \<in> lineage_edges ?m" "b \<notin> dom m" for a b
  proof -
    have a: "a \<notin> dom m" using stored that by blast
    from that(1) obtain e where e: "?m a = Some e" "b \<in> set (e_parents e)"
      unfolding lineage_edges_iff by metis
    then have "\<exists>pe. ?m b = Some pe" using resolves [OF e(1)] unfolding parents_resolve_def by metis
    then show ?thesis using a e that(2) by (auto simp: batch_edges_def map_add_Some_iff)
  qed
  have fresh_path: "(a, b) \<in> ?B\<^sup>+" if "(a, b) \<in> (lineage_edges ?m)\<^sup>+" "b \<notin> dom m" for a b
    using that by induction (use fresh in \<open>blast intro: trancl_into_trancl\<close>)+
  have "(x, x) \<notin> (lineage_edges ?m)\<^sup>+" for x
    using stored_path [of x x] fresh_path [of x x] ok valid
    by (cases "x \<in> dom m") (auto simp: lineage_ok_def acyclic_def validate_batch_Ok_iff)
  then show ?thesis using resolves by (simp add: lineage_ok_def acyclic_def)
qed

section \<open>Property\<close>

text \<open>
  C22. Lineage validation is exact: it always returns, and it accepts a batch if and only if no
  record names itself, every parent is in the batch or already stored and describes the same
  subject, and the derivation edges inside the batch are free of cycles, in whatever order the
  batch is traversed.
\<close>

theorem validate_batch_exact:
  "validate_batch_derivations stored pending \<noteq> Panic \<and>
   (validate_batch_derivations stored pending = Ok () \<longleftrightarrow>
     (\<forall>(i, e) \<in> set pending. parents_resolve (stored ++ map_of pending) i e)
     \<and> acyclic (batch_edges pending))"
  by (simp add: validate_batch_no_panic validate_batch_Ok_iff)

definition sample_evidence :: "string \<Rightarrow> evidence_origin \<Rightarrow> evidence" where
  "sample_evidence i org =
     \<lparr>e_id = i, e_subject = ''s'', e_kind = Http, e_predicate = \<lparr>kp_namespace = ''n'', kp_name = ''p''\<rparr>,
      e_value = Boolean True,
      e_source = \<lparr>es_component = ''c'', es_method = ''m'', es_correlation_id = None\<rparr>,
      e_reliability = 5000, e_observed_at_ms = 0, e_origin = org\<rparr>"

definition derived_by :: "evidence_id list \<Rightarrow> evidence_origin" where
  "derived_by ps = Derived \<lparr>ed_parents = ps, ed_algorithm = \<lparr>da_name = ''a'', da_version = 1\<rparr>\<rparr>"

theorem validate_batch_exact_witness:
  "acyclic (batch_edges
     [(''b'', sample_evidence ''b'' (derived_by [''a''])), (''a'', sample_evidence ''a'' Direct)])
   \<and> \<not> acyclic (batch_edges
     [(''b'', sample_evidence ''b'' (derived_by [''a''])),
      (''a'', sample_evidence ''a'' (derived_by [''b'']))])"
proof -
  let ?p = "[(''b'', sample_evidence ''b'' (derived_by [''a''])), (''a'', sample_evidence ''a'' Direct)]"
  let ?q = "[(''b'', sample_evidence ''b'' (derived_by [''a''])),
    (''a'', sample_evidence ''a'' (derived_by [''b'']))]"
  have "validate_batch_derivations Map.empty ?p = Ok ()" by code_simp
  moreover have "validate_batch_derivations Map.empty ?q \<noteq> Ok ()" by code_simp
  moreover have "\<forall>(i, e) \<in> set ?q. parents_resolve (Map.empty ++ map_of ?q) i e"
    by (simp add: parents_resolve_def e_parents_def sample_evidence_def derived_by_def)
  ultimately show ?thesis
    using validate_batch_exact [of Map.empty ?p] validate_batch_exact [of Map.empty ?q] by blast
qed

end
