(* ===== verification/Registry.thy ===== *)
theory Registry
  imports Prelude
begin

text \<open>
  The contract that five stores of the program share: an idempotent registry keyed by a stable
  identity. A first registration is stored, an identical one changes nothing, and a different
  definition under a used identity is an error that changes nothing. The client lemmas follow from
  these laws alone. The providers are the ontology's concepts and relation types, the rule engine,
  the attack planner and the knowledge base's entities.
\<close>

locale registry =
  fixes lookup :: "'s \<Rightarrow> 'k \<Rightarrow> 'v option"
    and key :: "'v \<Rightarrow> 'k"
    and register :: "'v \<Rightarrow> 's \<Rightarrow> ('w, 'e) res \<times> 's"
    and inserted :: 'w
    and unchanged :: 'w
    and conflict :: "'v \<Rightarrow> 'e"
  assumes register_new:
      "lookup s (key v) = None \<Longrightarrow>
       fst (register v s) = Ok inserted \<and> lookup (snd (register v s)) = (lookup s)(key v \<mapsto> v)"
    and register_same: "lookup s (key v) = Some v \<Longrightarrow> register v s = (Ok unchanged, s)"
    and register_conflict:
      "lookup s (key v) = Some u \<Longrightarrow> u \<noteq> v \<Longrightarrow> register v s = (Err (conflict v), s)"
    and writes_differ: "inserted \<noteq> unchanged"
begin

lemma register_cases:
  obtains (new) "lookup s (key v) = None" "fst (register v s) = Ok inserted"
      "lookup (snd (register v s)) = (lookup s)(key v \<mapsto> v)"
    | (same) "lookup s (key v) = Some v" "register v s = (Ok unchanged, s)"
    | (conflicting) u where "lookup s (key v) = Some u" "u \<noteq> v" "register v s = (Err (conflict v), s)"
proof (cases "lookup s (key v)")
  case None
  then show thesis using register_new [of s v] new by blast
next
  case (Some u)
  then show thesis
    using register_same [of s v] register_conflict [of s v u] same conflicting by (cases "u = v") auto
qed

lemma register_lookup:
  "lookup (snd (register v s)) k =
     (if k = key v \<and> lookup s (key v) = None then Some v else lookup s k)"
  by (rule register_cases [of s v]) auto

lemma register_stored:
  "fst (register v s) = Ok w \<Longrightarrow> lookup (snd (register v s)) (key v) = Some v"
  by (rule register_cases [of s v]) auto

lemma register_again:
  assumes "fst (register v s) = Ok w"
  shows "register v (snd (register v s)) = (Ok unchanged, snd (register v s))"
  using register_same [OF register_stored [OF assms]] .

lemma register_outcome:
  "fst (register v s) = (case lookup s (key v) of
      None \<Rightarrow> Ok inserted
    | Some u \<Rightarrow> if u = v then Ok unchanged else Err (conflict v))"
  by (rule register_cases [of s v]) auto

lemma register_Err_keeps: "fst (register v s) = Err e \<Longrightarrow> snd (register v s) = s"
  by (rule register_cases [of s v]) auto

lemma register_all_keeps:
  "lookup s k = Some u \<Longrightarrow> lookup (fold (\<lambda>v t. snd (register v t)) vs s) k = Some u"
proof (induction vs arbitrary: s)
  case (Cons v vs)
  then have "lookup (snd (register v s)) k = Some u" by (auto simp: register_lookup)
  with Cons.IH show ?case by simp
qed simp

text \<open>The definition an identity ends up with is the first one submitted for it.\<close>

lemma register_all_first:
  "lookup (fold (\<lambda>v t. snd (register v t)) vs s) k =
     (case lookup s k of Some u \<Rightarrow> Some u | None \<Rightarrow> find (\<lambda>v. key v = k) vs)"
proof (induction vs arbitrary: s)
  case Nil
  then show ?case by (simp split: option.split)
next
  case (Cons v vs)
  then show ?case by (auto simp: register_lookup split: option.split)
qed

end

end
