(* ===== verification/Ontology.thy ===== *)
theory Ontology
  imports Registry "HOL-Library.Product_Lexorder"
begin

text \<open>
  The domain ontology (\<open>src/crates/termivar-core/src/ontology.rs\<close>): concepts, relation types with
  their declared semantics, and axioms. \<open>is_related\<close> keeps the source's breadth-first search with
  its queue and visited set; the lemmas identify it with the transitive closure of the one-step
  relation and show that accepted axioms keep the acyclic relations acyclic.
\<close>

section \<open>Data\<close>

type_synonym concept_id = string
type_synonym relation_type_id = string

datatype ontology_record_kind = ConceptRecord | RelationTypeRecord

datatype ontology_error =
    OntologyEmptyValue string
  | OntologyIdentityConflict ontology_record_kind string
  | UnknownConcept concept_id
  | UnknownRelationType relation_type_id
  | CycleDetected relation_type_id concept_id concept_id

definition ontology_non_empty :: "string \<Rightarrow> string \<Rightarrow> (string, ontology_error) res" where
  "ontology_non_empty v field = (if blank v then Err (OntologyEmptyValue field) else Ok v)"

definition concept_id_new :: "string \<Rightarrow> (concept_id, ontology_error) res" where
  "concept_id_new v = ontology_non_empty v ''concept id''"

definition relation_type_id_new :: "string \<Rightarrow> (relation_type_id, ontology_error) res" where
  "relation_type_id_new v = ontology_non_empty v ''relation type id''"

record ontology_concept =
  oc_id :: concept_id
  oc_label :: string

definition ontology_concept_new :: "concept_id \<Rightarrow> string \<Rightarrow> (ontology_concept, ontology_error) res" where
  "ontology_concept_new i label =
     and_then (ontology_non_empty label ''concept label'') (\<lambda>l. Ok \<lparr>oc_id = i, oc_label = l\<rparr>)"

record relation_semantics =
  transitive :: bool
  symmetric :: bool
  reflexive :: bool
  acyclic_rel :: bool

definition default_semantics :: relation_semantics where
  "default_semantics =
     \<lparr>transitive = False, symmetric = False, reflexive = False, acyclic_rel = False\<rparr>"

record ontology_relation_type =
  rt_id :: relation_type_id
  rt_label :: string
  rt_semantics :: relation_semantics
  rt_inverse :: "relation_type_id option"

definition ontology_relation_type_new ::
  "relation_type_id \<Rightarrow> string \<Rightarrow> (ontology_relation_type, ontology_error) res" where
  "ontology_relation_type_new i label =
     and_then (ontology_non_empty label ''relation type label'')
       (\<lambda>l. Ok \<lparr>rt_id = i, rt_label = l, rt_semantics = default_semantics, rt_inverse = None\<rparr>)"

definition with_semantics ::
  "ontology_relation_type \<Rightarrow> relation_semantics \<Rightarrow> ontology_relation_type" where
  "with_semantics rt sem = rt\<lparr>rt_semantics := sem\<rparr>"

definition with_inverse ::
  "ontology_relation_type \<Rightarrow> relation_type_id \<Rightarrow> ontology_relation_type" where
  "with_inverse rt i = rt\<lparr>rt_inverse := Some i\<rparr>"

datatype ontology_axiom =
  OntologyAxiom (ax_subject: concept_id) (ax_relation: relation_type_id) (ax_object: concept_id)

text \<open>The derived order of an axiom compares its fields in declaration order.\<close>

definition axiom_key :: "ontology_axiom \<Rightarrow> string \<times> string \<times> string" where
  "axiom_key a = (ax_subject a, ax_relation a, ax_object a)"

lemma axiom_key_inj: "axiom_key a = axiom_key b \<Longrightarrow> a = b"
  by (cases a, cases b) (simp add: axiom_key_def)

instantiation ontology_axiom :: linorder
begin

definition less_eq_ontology_axiom :: "ontology_axiom \<Rightarrow> ontology_axiom \<Rightarrow> bool" where
  "less_eq_ontology_axiom a b \<longleftrightarrow> axiom_key a \<le> axiom_key b"

definition less_ontology_axiom :: "ontology_axiom \<Rightarrow> ontology_axiom \<Rightarrow> bool" where
  "less_ontology_axiom a b \<longleftrightarrow> axiom_key a < axiom_key b"

instance
  by standard
    (auto simp: less_eq_ontology_axiom_def less_ontology_axiom_def
      intro: axiom_key_inj order_trans antisym)

end

datatype ontology_write = OntologyInserted | OntologyUnchanged

record ontology =
  concepts :: "(concept_id, ontology_concept) bmap"
  relation_types :: "(relation_type_id, ontology_relation_type) bmap"
  axioms :: "ontology_axiom list"

section \<open>Operations\<close>

definition add_concept ::
  "ontology_concept \<Rightarrow> ontology \<Rightarrow> (ontology_write, ontology_error) res \<times> ontology" where
  "add_concept c o1 =
     (case map_of (concepts o1) (oc_id c) of
        Some existing \<Rightarrow>
          if existing = c then (Ok OntologyUnchanged, o1)
          else (Err (OntologyIdentityConflict ConceptRecord (oc_id c)), o1)
      | None \<Rightarrow>
          (Ok OntologyInserted, o1\<lparr>concepts := bmap_insert (oc_id c) c (concepts o1)\<rparr>))"

definition add_relation_type ::
  "ontology_relation_type \<Rightarrow> ontology \<Rightarrow> (ontology_write, ontology_error) res \<times> ontology" where
  "add_relation_type rt o1 =
     (case map_of (relation_types o1) (rt_id rt) of
        Some existing \<Rightarrow>
          if existing = rt then (Ok OntologyUnchanged, o1)
          else (Err (OntologyIdentityConflict RelationTypeRecord (rt_id rt)), o1)
      | None \<Rightarrow>
          (Ok OntologyInserted,
           o1\<lparr>relation_types := bmap_insert (rt_id rt) rt (relation_types o1)\<rparr>))"

definition ensure_concept :: "ontology \<Rightarrow> concept_id \<Rightarrow> (ontology_concept, ontology_error) res" where
  "ensure_concept o1 i =
     (case map_of (concepts o1) i of Some c \<Rightarrow> Ok c | None \<Rightarrow> Err (UnknownConcept i))"

definition ensure_relation_type ::
  "ontology \<Rightarrow> relation_type_id \<Rightarrow> (ontology_relation_type, ontology_error) res" where
  "ensure_relation_type o1 i =
     (case map_of (relation_types o1) i of Some r \<Rightarrow> Ok r | None \<Rightarrow> Err (UnknownRelationType i))"

definition neighbor_via :: "concept_id \<Rightarrow> ontology_relation_type \<Rightarrow> ontology_axiom \<Rightarrow> concept_id option" where
  "neighbor_via subject rt a =
     (if ax_relation a = rt_id rt \<and> ax_subject a = subject then Some (ax_object a)
      else if ax_object a = subject \<and>
        (ax_relation a = rt_id rt \<and> symmetric (rt_semantics rt) \<or> rt_inverse rt = Some (ax_relation a))
      then Some (ax_subject a)
      else None)"

definition neighbors :: "ontology \<Rightarrow> concept_id \<Rightarrow> ontology_relation_type \<Rightarrow> concept_id list" where
  "neighbors o1 subject rt = bset_of_list (List.map_filter (neighbor_via subject rt) (axioms o1))"

definition axiom_nodes :: "ontology \<Rightarrow> concept_id set" where
  "axiom_nodes o1 = ax_subject ` set (axioms o1) \<union> ax_object ` set (axioms o1)"

lemma set_neighbors:
  "set (neighbors o1 c rt) = {d. \<exists>a\<in>set (axioms o1). neighbor_via c rt a = Some d}"
  by (simp add: neighbors_def set_map_filter)

lemma finite_axiom_nodes [simp]: "finite (axiom_nodes o1)"
  by (simp add: axiom_nodes_def)

lemma neighbors_outside: "c \<notin> axiom_nodes o1 \<Longrightarrow> neighbors o1 c rt = []"
proof -
  assume "c \<notin> axiom_nodes o1"
  then have "set (neighbors o1 c rt) = {}"
    by (auto simp: set_neighbors axiom_nodes_def neighbor_via_def split: if_splits)
  then show ?thesis by simp
qed

text \<open>The loop of \<^verbatim>\<open>is_related\<close>: the queue of concepts to look at and the set already expanded.\<close>

function relation_search ::
  "ontology \<Rightarrow> ontology_relation_type \<Rightarrow> concept_id \<Rightarrow> concept_id list \<Rightarrow> concept_id list \<Rightarrow> bool" where
  "relation_search o1 rt obj visited [] = False"
| "relation_search o1 rt obj visited (current # queue) =
     (if current = obj then True
      else if current \<in> set visited then relation_search o1 rt obj visited queue
      else
        (let visited' = bset_insert current visited
         in relation_search o1 rt obj visited'
              (queue @ filter (\<lambda>n. n \<notin> set visited') (neighbors o1 current rt))))"
  by pat_completeness auto
termination
proof (relation "measures
    [\<lambda>(o1, rt, obj, visited, queue). card (axiom_nodes o1 - set visited),
     \<lambda>(o1, rt, obj, visited, queue). length queue]", goal_cases)
  case (3 o1 rt obj visited current queue visited')
  show ?case
  proof (cases "current \<in> axiom_nodes o1")
    case True
    with 3 have "axiom_nodes o1 - set visited' \<subset> axiom_nodes o1 - set visited"
      by auto
    then show ?thesis by (simp add: psubset_card_mono)
  next
    case False
    with 3 have "axiom_nodes o1 - set visited' = axiom_nodes o1 - set visited"
      and "neighbors o1 current rt = []"
      by (auto simp: neighbors_outside)
    then show ?thesis by simp
  qed
qed auto

definition is_related ::
  "ontology \<Rightarrow> concept_id \<Rightarrow> relation_type_id \<Rightarrow> concept_id \<Rightarrow> (bool, ontology_error) res" where
  "is_related o1 subject relation obj =
     and_then (ensure_concept o1 subject) (\<lambda>_.
     and_then (ensure_concept o1 obj) (\<lambda>_.
     and_then (ensure_relation_type o1 relation) (\<lambda>rt.
       if reflexive (rt_semantics rt) \<and> subject = obj then Ok True
       else
         (let direct = neighbors o1 subject rt
          in if obj \<in> set direct then Ok True
             else if \<not> transitive (rt_semantics rt) then Ok False
             else Ok (relation_search o1 rt obj [subject] direct)))))"

definition add_axiom ::
  "ontology_axiom \<Rightarrow> ontology \<Rightarrow> (ontology_write, ontology_error) res \<times> ontology" where
  "add_axiom a o1 =
     (case and_then (ensure_concept o1 (ax_subject a)) (\<lambda>_.
           and_then (ensure_concept o1 (ax_object a)) (\<lambda>_.
           and_then (ensure_relation_type o1 (ax_relation a)) (\<lambda>rt.
           and_then
             (if acyclic_rel (rt_semantics rt)
              then if ax_subject a = ax_object a then Ok True
                   else is_related o1 (ax_object a) (ax_relation a) (ax_subject a)
              else Ok False) (\<lambda>cycle.
             if cycle then Err (CycleDetected (ax_relation a) (ax_subject a) (ax_object a))
             else is_related o1 (ax_subject a) (ax_relation a) (ax_object a))))) of
        Err e \<Rightarrow> (Err e, o1)
      | Panic \<Rightarrow> (Panic, o1)
      | Ok True \<Rightarrow> (Ok OntologyUnchanged, o1)
      | Ok False \<Rightarrow>
          if a \<in> set (axioms o1) then (Ok OntologyUnchanged, o1)
          else (Ok OntologyInserted, o1\<lparr>axioms := bset_insert a (axioms o1)\<rparr>))"

definition IS_A :: string where "IS_A = ''is_a''"
definition PART_OF :: string where "PART_OF = ''part_of''"
definition HAS_PART :: string where "HAS_PART = ''has_part''"
definition DEPENDS_ON :: string where "DEPENDS_ON = ''depends_on''"
definition REQUIRED_BY :: string where "REQUIRED_BY = ''required_by''"
definition IMPLIES :: string where "IMPLIES = ''implies''"
definition ASSOCIATED_WITH :: string where "ASSOCIATED_WITH = ''associated_with''"
definition IMPLEMENTED_IN :: string where "IMPLEMENTED_IN = ''implemented_in''"
definition PROVIDES :: string where "PROVIDES = ''provides''"

definition is_a :: "ontology \<Rightarrow> concept_id \<Rightarrow> concept_id \<Rightarrow> (bool, ontology_error) res" where
  "is_a o1 child ancestor =
     and_then (relation_type_id_new IS_A) (\<lambda>r. is_related o1 child r ancestor)"

definition axioms_from ::
  "ontology \<Rightarrow> concept_id \<Rightarrow> (ontology_axiom list, ontology_error) res" where
  "axioms_from o1 subject =
     and_then (ensure_concept o1 subject)
       (\<lambda>_. Ok (filter (\<lambda>a. ax_subject a = subject) (axioms o1)))"

definition standard_relation :: "string \<Rightarrow> string \<Rightarrow> ontology_relation_type" where
  "standard_relation i label =
     \<lparr>rt_id = i, rt_label = label, rt_semantics = default_semantics, rt_inverse = None\<rparr>"

definition standard_relation_types :: "ontology_relation_type list" where
  "standard_relation_types =
    [with_semantics (standard_relation IS_A ''is a'')
       (default_semantics\<lparr>transitive := True, reflexive := True, acyclic_rel := True\<rparr>),
     with_inverse (with_semantics (standard_relation PART_OF ''part of'')
       (default_semantics\<lparr>transitive := True, acyclic_rel := True\<rparr>)) HAS_PART,
     with_inverse (with_semantics (standard_relation HAS_PART ''has part'')
       (default_semantics\<lparr>transitive := True, acyclic_rel := True\<rparr>)) PART_OF,
     with_inverse (standard_relation DEPENDS_ON ''depends on'') REQUIRED_BY,
     with_inverse (standard_relation REQUIRED_BY ''required by'') DEPENDS_ON,
     with_semantics (standard_relation IMPLIES ''implies'')
       (default_semantics\<lparr>transitive := True, reflexive := True\<rparr>),
     with_semantics (standard_relation ASSOCIATED_WITH ''associated with'')
       (default_semantics\<lparr>symmetric := True\<rparr>),
     standard_relation IMPLEMENTED_IN ''implemented in'',
     standard_relation PROVIDES ''provides'']"

definition ontology_new :: ontology where
  "ontology_new =
     \<lparr>concepts = [],
      relation_types = fold (\<lambda>rt m. bmap_insert (rt_id rt) rt m) standard_relation_types [],
      axioms = []\<rparr>"

record ontology_stats =
  os_concepts :: nat
  os_relation_types :: nat
  os_axioms :: nat

definition ontology_stats_of :: "ontology \<Rightarrow> ontology_stats" where
  "ontology_stats_of o1 =
     \<lparr>os_concepts = length (concepts o1), os_relation_types = length (relation_types o1),
      os_axioms = length (axioms o1)\<rparr>"

section \<open>Search computes the transitive closure\<close>

text \<open>The one-step relation of a type: asserted, symmetric and inverse axioms.\<close>

definition rel_edges :: "ontology \<Rightarrow> ontology_relation_type \<Rightarrow> (concept_id \<times> concept_id) set" where
  "rel_edges o1 rt = {(a, b). b \<in> set (neighbors o1 a rt)}"

lemma rel_edges_iff: "(a, b) \<in> rel_edges o1 rt \<longleftrightarrow> b \<in> set (neighbors o1 a rt)"
  by (simp add: rel_edges_def)

lemma closed_under_edges:
  assumes "(a, b) \<in> (rel_edges o1 rt)\<^sup>*" and "a \<in> V"
    and "\<And>v n. v \<in> V \<Longrightarrow> (v, n) \<in> rel_edges o1 rt \<Longrightarrow> n \<in> V"
  shows "b \<in> V"
  using assms(1,2) by induction (auto intro: assms(3))

lemma relation_search_iff:
  assumes "obj \<notin> set visited"
    and "\<And>v n. v \<in> set visited \<Longrightarrow> (v, n) \<in> rel_edges o1 rt \<Longrightarrow> n \<in> set visited \<union> set queue"
  shows "relation_search o1 rt obj visited queue \<longleftrightarrow>
     (\<exists>q \<in> set visited \<union> set queue. (q, obj) \<in> (rel_edges o1 rt)\<^sup>*)"
  using assms
proof (induction o1 rt obj visited queue rule: relation_search.induct)
  case (1 o1 rt obj visited)
  then show ?case using closed_under_edges [of _ obj o1 rt "set visited"] by auto
next
  case (2 o1 rt obj visited current queue)
  let ?E = "rel_edges o1 rt"
  consider "current = obj" | "current \<noteq> obj" "current \<in> set visited"
    | "current \<noteq> obj" "current \<notin> set visited" by blast
  then show ?case
  proof cases
    case 1
    then show ?thesis by auto
  next
    case 2
    with "2.prems" have "n \<in> set visited \<union> set queue" if "v \<in> set visited" "(v, n) \<in> ?E" for v n
      using that by auto
    then have "relation_search o1 rt obj visited queue \<longleftrightarrow>
        (\<exists>q \<in> set visited \<union> set queue. (q, obj) \<in> ?E\<^sup>*)"
      using "2.IH"(1) 2 "2.prems"(1) by blast
    with 2 show ?thesis by auto
  next
    case 3
    let ?v = "bset_insert current visited"
    let ?q = "queue @ filter (\<lambda>n. n \<notin> set ?v) (neighbors o1 current rt)"
    have closed: "n \<in> set ?v \<union> set ?q" if "v \<in> set ?v" "(v, n) \<in> ?E" for v n
      using that "2.prems"(2) [of v n] by (auto simp: rel_edges_iff)
    have "relation_search o1 rt obj ?v ?q \<longleftrightarrow> (\<exists>q \<in> set ?v \<union> set ?q. (q, obj) \<in> ?E\<^sup>*)"
      by (rule "2.IH"(2)) (use 3 "2.prems"(1) closed in auto)
    moreover have "(current, obj) \<in> ?E\<^sup>*" if "n \<in> set (neighbors o1 current rt)" "(n, obj) \<in> ?E\<^sup>*" for n
      using that converse_rtrancl_into_rtrancl [of current n ?E obj] by (simp add: rel_edges_iff)
    ultimately show ?thesis using 3 by (auto simp: Let_def)
  qed
qed

lemma relation_search_visited:
  "obj \<in> set visited \<Longrightarrow> obj \<notin> set queue \<Longrightarrow> \<not> relation_search o1 rt obj visited queue"
  by (induction o1 rt obj visited queue rule: relation_search.induct) (auto simp: Let_def)

lemma relation_search_start:
  assumes "subject \<noteq> obj"
  shows "relation_search o1 rt obj [subject] (neighbors o1 subject rt) \<longleftrightarrow>
     (subject, obj) \<in> (rel_edges o1 rt)\<^sup>+"
proof -
  let ?E = "rel_edges o1 rt"
  have "relation_search o1 rt obj [subject] (neighbors o1 subject rt) \<longleftrightarrow>
      (\<exists>q \<in> {subject} \<union> set (neighbors o1 subject rt). (q, obj) \<in> ?E\<^sup>*)"
    using relation_search_iff [of obj "[subject]" o1 rt "neighbors o1 subject rt"] assms
    by (simp add: rel_edges_iff)
  also have "\<dots> \<longleftrightarrow> (subject, obj) \<in> ?E\<^sup>*"
    using converse_rtrancl_into_rtrancl [of subject _ ?E obj] by (auto simp: rel_edges_iff)
  finally show ?thesis using assms by (simp add: rtrancl_eq_or_trancl)
qed

text \<open>What a query answers once its three names are known.\<close>

definition relates :: "ontology \<Rightarrow> ontology_relation_type \<Rightarrow> concept_id \<Rightarrow> concept_id \<Rightarrow> bool" where
  "relates o1 rt a b \<longleftrightarrow>
     reflexive (rt_semantics rt) \<and> a = b
   \<or> (a, b) \<in> rel_edges o1 rt
   \<or> transitive (rt_semantics rt) \<and> a \<noteq> b \<and> (a, b) \<in> (rel_edges o1 rt)\<^sup>+"

lemma is_related_known:
  assumes "map_of (concepts o1) a \<noteq> None" and "map_of (concepts o1) b \<noteq> None"
    and "map_of (relation_types o1) r = Some rt"
  shows "is_related o1 a r b = Ok (relates o1 rt a b)"
proof -
  have "a = b \<Longrightarrow> b \<notin> set (neighbors o1 a rt) \<Longrightarrow>
      \<not> relation_search o1 rt b [a] (neighbors o1 a rt)"
    by (rule relation_search_visited) auto
  then show ?thesis
    using assms relation_search_start [of a b o1 rt]
    by (cases "a = b")
      (auto simp: is_related_def relates_def ensure_concept_def ensure_relation_type_def
        rel_edges_iff Let_def)
qed

lemma is_related_unknown:
  "is_related o1 a r b =
     (if map_of (concepts o1) a = None then Err (UnknownConcept a)
      else if map_of (concepts o1) b = None then Err (UnknownConcept b)
      else case map_of (relation_types o1) r of
          None \<Rightarrow> Err (UnknownRelationType r)
        | Some rt \<Rightarrow> Ok (relates o1 rt a b))"
proof (cases "map_of (concepts o1) a = None \<or> map_of (concepts o1) b = None
    \<or> map_of (relation_types o1) r = None")
  case True
  then show ?thesis
    by (auto simp: is_related_def ensure_concept_def ensure_relation_type_def split: option.splits)
next
  case False
  then show ?thesis using is_related_known [of o1 a b r] by auto
qed

section \<open>Reachable ontologies and their hierarchies\<close>

inductive ontology_reachable :: "ontology \<Rightarrow> bool" where
  reach_new: "ontology_reachable ontology_new"
| reach_concept: "ontology_reachable o1 \<Longrightarrow> ontology_reachable (snd (add_concept c o1))"
| reach_relation_type: "ontology_reachable o1 \<Longrightarrow> ontology_reachable (snd (add_relation_type rt o1))"
| reach_axiom: "ontology_reachable o1 \<Longrightarrow> ontology_reachable (snd (add_axiom a o1))"

text \<open>
  A hierarchical relation type: transitive, acyclic, not symmetric, and its inverse, once
  registered, is declared with the same semantics and names it back.
\<close>

definition strict_order_type :: "ontology_relation_type \<Rightarrow> bool" where
  "strict_order_type rt \<longleftrightarrow> transitive (rt_semantics rt) \<and> acyclic_rel (rt_semantics rt)
     \<and> \<not> symmetric (rt_semantics rt) \<and> rt_inverse rt \<noteq> Some (rt_id rt)"

definition hierarchical :: "ontology \<Rightarrow> ontology_relation_type \<Rightarrow> bool" where
  "hierarchical o1 rt \<longleftrightarrow> strict_order_type rt \<and>
     (case rt_inverse rt of None \<Rightarrow> True
      | Some i \<Rightarrow> (case map_of (relation_types o1) i of None \<Rightarrow> True
          | Some rt' \<Rightarrow> strict_order_type rt' \<and> rt_inverse rt' = Some (rt_id rt)))"

definition ontology_ok :: "ontology \<Rightarrow> bool" where
  "ontology_ok o1 \<longleftrightarrow>
     (\<forall>r rt. map_of (relation_types o1) r = Some rt \<longrightarrow> rt_id rt = r) \<and>
     (\<forall>a \<in> set (axioms o1). map_of (relation_types o1) (ax_relation a) \<noteq> None
        \<and> map_of (concepts o1) (ax_subject a) \<noteq> None \<and> map_of (concepts o1) (ax_object a) \<noteq> None) \<and>
     (\<forall>r rt. map_of (relation_types o1) r = Some rt \<longrightarrow> hierarchical o1 rt \<longrightarrow>
        acyclic (rel_edges o1 rt))"

lemma neighbor_via_iff:
  "neighbor_via c rt x = Some d \<longleftrightarrow>
     ax_relation x = rt_id rt \<and> ax_subject x = c \<and> ax_object x = d
   \<or> ax_object x = c \<and> ax_subject x = d \<and>
       (ax_relation x = rt_id rt \<and> symmetric (rt_semantics rt) \<or> rt_inverse rt = Some (ax_relation x))"
  by (auto simp: neighbor_via_def)

lemma rel_edges_axioms:
  "rel_edges o1 rt =
     {(a, b). \<exists>x \<in> set (axioms o1). ax_relation x = rt_id rt \<and> ax_subject x = a \<and> ax_object x = b}
   \<union> {(a, b). \<exists>x \<in> set (axioms o1). ax_object x = a \<and> ax_subject x = b \<and>
        (ax_relation x = rt_id rt \<and> symmetric (rt_semantics rt) \<or> rt_inverse rt = Some (ax_relation x))}"
  by (auto simp: rel_edges_def set_neighbors neighbor_via_iff)

lemma rel_edges_cong: "axioms o1 = axioms o2 \<Longrightarrow> rel_edges o1 rt = rel_edges o2 rt"
  by (simp add: rel_edges_axioms)

lemma rel_edges_insert:
  assumes "strict_order_type rt" and "set (axioms o2) = insert x (set (axioms o1))"
  shows "rel_edges o2 rt =
     (if ax_relation x = rt_id rt then insert (ax_subject x, ax_object x) (rel_edges o1 rt)
      else if rt_inverse rt = Some (ax_relation x)
      then insert (ax_object x, ax_subject x) (rel_edges o1 rt)
      else rel_edges o1 rt)"
  using assms unfolding rel_edges_axioms strict_order_type_def by auto

lemma rel_edges_mirror:
  assumes "strict_order_type rt" "strict_order_type rt'"
    and "rt_inverse rt = Some (rt_id rt')" "rt_inverse rt' = Some (rt_id rt)"
  shows "rel_edges o1 rt' = (rel_edges o1 rt)\<inverse>"
  using assms unfolding rel_edges_axioms strict_order_type_def by auto

lemma keyed_by_id:
  "\<forall>k v. map_of m k = Some v \<longrightarrow> rt_id v = k \<Longrightarrow>
   map_of (fold (\<lambda>rt m. bmap_insert (rt_id rt) rt m) rts m) r = Some rt \<Longrightarrow> rt_id rt = r"
proof (induction rts arbitrary: m)
  case (Cons x rts)
  from Cons.prems show ?case by (intro Cons.IH [of "bmap_insert (rt_id x) x m"]) auto
qed simp

lemma ontology_ok_new: "ontology_ok ontology_new"
proof -
  have "rel_edges ontology_new rt = {}" for rt
    by (simp add: rel_edges_axioms ontology_new_def)
  moreover have "map_of (relation_types ontology_new) r = Some rt \<Longrightarrow> rt_id rt = r" for r rt
    using keyed_by_id [of "[]" standard_relation_types r rt] by (simp add: ontology_new_def)
  moreover have "axioms ontology_new = []" by (simp add: ontology_new_def)
  ultimately show ?thesis by (simp add: ontology_ok_def acyclic_def)
qed

lemma ontology_ok_concept: "ontology_ok o1 \<Longrightarrow> ontology_ok (snd (add_concept c o1))"
  by (auto simp: ontology_ok_def add_concept_def hierarchical_def
      rel_edges_cong [of "o1\<lparr>concepts := _\<rparr>" o1] split: option.splits)

lemma hierarchicalD:
  "hierarchical o1 rt \<Longrightarrow> strict_order_type rt"
  "hierarchical o1 rt \<Longrightarrow> rt_inverse rt = Some i \<Longrightarrow> map_of (relation_types o1) i = Some rt' \<Longrightarrow>
     strict_order_type rt' \<and> rt_inverse rt' = Some (rt_id rt)"
  by (auto simp: hierarchical_def)

lemma ontology_okD:
  assumes "ontology_ok o1"
  shows "map_of (relation_types o1) r = Some rt \<Longrightarrow> rt_id rt = r"
    and "x \<in> set (axioms o1) \<Longrightarrow> map_of (relation_types o1) (ax_relation x) \<noteq> None"
    and "map_of (relation_types o1) r = Some rt \<Longrightarrow> hierarchical o1 rt \<Longrightarrow> acyclic (rel_edges o1 rt)"
  using assms by (auto simp: ontology_ok_def)

lemma ontology_ok_relation_type:
  assumes ok: "ontology_ok o1"
  shows "ontology_ok (snd (add_relation_type rt o1))"
proof (cases "map_of (relation_types o1) (rt_id rt)")
  case (Some u)
  then show ?thesis using ok by (simp add: add_relation_type_def)
next
  case None
  define o2 where "o2 = o1\<lparr>relation_types := bmap_insert (rt_id rt) rt (relation_types o1)\<rparr>"
  have types: "map_of (relation_types o2) = (map_of (relation_types o1))(rt_id rt \<mapsto> rt)"
    and same: "axioms o2 = axioms o1" "concepts o2 = concepts o1" by (auto simp: o2_def)
  have edges: "rel_edges o2 t = rel_edges o1 t" for t
    using same by (simp add: rel_edges_axioms)
  have fresh: "ax_relation x \<noteq> rt_id rt" if "x \<in> set (axioms o1)" for x
    using ontology_okD(2) [OF ok that] None by auto
  have acyc: "acyclic (rel_edges o1 t)"
    if t: "map_of (relation_types o2) r = Some t" "hierarchical o2 t" for r t
  proof (cases "r = rt_id rt")
    case False
    then have old: "map_of (relation_types o1) r = Some t" using t types by simp
    moreover have "hierarchical o1 t"
      using t(2) None types by (auto simp: hierarchical_def split: option.splits if_splits)
    ultimately show ?thesis using ontology_okD(3) [OF ok] by blast
  next
    case True
    then have [simp]: "t = rt" using t types by simp
    consider "\<forall>x \<in> set (axioms o1). rt_inverse rt \<noteq> Some (ax_relation x)"
      | x where "x \<in> set (axioms o1)" "rt_inverse rt = Some (ax_relation x)" by blast
    then show ?thesis
    proof cases
      case 1
      then have "rel_edges o1 rt = {}" using fresh by (auto simp: rel_edges_axioms)
      then show ?thesis by (simp add: acyclic_def)
    next
      case 2
      then obtain rt' where rt': "map_of (relation_types o1) (ax_relation x) = Some rt'"
        using ontology_okD(2) [OF ok] by blast
      then have id': "rt_id rt' = ax_relation x" using ontology_okD(1) [OF ok] by blast
      have so: "strict_order_type rt" using t(2) hierarchicalD(1) by auto
      have mirror: "strict_order_type rt'" "rt_inverse rt' = Some (rt_id rt)"
        using hierarchicalD(2) [OF t(2), of "ax_relation x" rt'] 2 rt' types fresh by auto
      then have "hierarchical o1 rt'" using None by (simp add: hierarchical_def)
      then have "acyclic (rel_edges o1 rt')" using ontology_okD(3) [OF ok rt'] by blast
      moreover have "rel_edges o1 rt' = (rel_edges o1 rt)\<inverse>"
        using rel_edges_mirror [OF so mirror(1)] 2 mirror(2) id' by simp
      ultimately show ?thesis by simp
    qed
  qed
  have "ontology_ok o2"
    unfolding ontology_ok_def edges same
  proof (intro conjI)
    show "\<forall>r t. map_of (relation_types o2) r = Some t \<longrightarrow> rt_id t = r"
      using ontology_okD(1) [OF ok] types by auto
    show "\<forall>a \<in> set (axioms o1). map_of (relation_types o2) (ax_relation a) \<noteq> None
        \<and> map_of (concepts o1) (ax_subject a) \<noteq> None \<and> map_of (concepts o1) (ax_object a) \<noteq> None"
      using ok types by (auto simp: ontology_ok_def)
  qed (use acyc in blast)
  then show ?thesis using None by (simp add: add_relation_type_def o2_def)
qed

lemma add_axiom_eq:
  "add_axiom a o1 =
     (if map_of (concepts o1) (ax_subject a) = None then (Err (UnknownConcept (ax_subject a)), o1)
      else if map_of (concepts o1) (ax_object a) = None then (Err (UnknownConcept (ax_object a)), o1)
      else case map_of (relation_types o1) (ax_relation a) of
          None \<Rightarrow> (Err (UnknownRelationType (ax_relation a)), o1)
        | Some rt \<Rightarrow>
            if acyclic_rel (rt_semantics rt) \<and>
              (ax_subject a = ax_object a \<or> relates o1 rt (ax_object a) (ax_subject a))
            then (Err (CycleDetected (ax_relation a) (ax_subject a) (ax_object a)), o1)
            else if relates o1 rt (ax_subject a) (ax_object a) \<or> a \<in> set (axioms o1)
            then (Ok OntologyUnchanged, o1)
            else (Ok OntologyInserted, o1\<lparr>axioms := bset_insert a (axioms o1)\<rparr>))"
  by (auto simp: add_axiom_def ensure_concept_def ensure_relation_type_def is_related_unknown
      split: option.splits)

lemma insert_keeps_acyclic:
  assumes ok: "ontology_ok o1" and rt: "map_of (relation_types o1) (ax_relation a) = Some rt"
    and so: "strict_order_type rt" and hier: "hierarchical o1 rt"
    and ne: "ax_subject a \<noteq> ax_object a" and no: "\<not> relates o1 rt (ax_object a) (ax_subject a)"
  shows "acyclic (insert (ax_subject a, ax_object a) (rel_edges o1 rt))"
proof -
  have "(ax_object a, ax_subject a) \<notin> (rel_edges o1 rt)\<^sup>*"
    using no so ne by (auto simp: relates_def strict_order_type_def rtrancl_eq_or_trancl)
  with ontology_okD(3) [OF ok rt hier] show ?thesis by (simp add: acyclic_insert)
qed

lemma ontology_ok_axiom:
  assumes ok: "ontology_ok o1"
  shows "ontology_ok (snd (add_axiom a o1))"
proof (cases "fst (add_axiom a o1) = Ok OntologyInserted")
  case False
  then have "snd (add_axiom a o1) = o1" by (auto simp: add_axiom_eq split: option.splits if_splits)
  with ok show ?thesis by simp
next
  case True
  define o2 where "o2 = o1\<lparr>axioms := bset_insert a (axioms o1)\<rparr>"
  from True obtain rt where known: "map_of (concepts o1) (ax_subject a) \<noteq> None"
      "map_of (concepts o1) (ax_object a) \<noteq> None"
    and rt: "map_of (relation_types o1) (ax_relation a) = Some rt"
    and guard: "acyclic_rel (rt_semantics rt) \<Longrightarrow> ax_subject a \<noteq> ax_object a"
      "acyclic_rel (rt_semantics rt) \<Longrightarrow> \<not> relates o1 rt (ax_object a) (ax_subject a)"
    and res: "snd (add_axiom a o1) = o2"
    by (auto simp: add_axiom_eq o2_def split: option.splits if_splits)
  have axs: "set (axioms o2) = insert a (set (axioms o1))"
    and same: "relation_types o2 = relation_types o1" "concepts o2 = concepts o1"
    by (auto simp: o2_def)
  have ident: "rt_id rt = ax_relation a" using ontology_okD(1) [OF ok rt] .
  have acyc: "acyclic (rel_edges o2 t)"
    if t: "map_of (relation_types o1) r = Some t" "hierarchical o1 t" for r t
  proof -
    have so: "strict_order_type t" and old: "acyclic (rel_edges o1 t)"
      using t hierarchicalD(1) ontology_okD(3) [OF ok] by blast+
    consider (own) "ax_relation a = rt_id t"
      | (inverse) "ax_relation a \<noteq> rt_id t" "rt_inverse t = Some (ax_relation a)"
      | (other) "ax_relation a \<noteq> rt_id t" "rt_inverse t \<noteq> Some (ax_relation a)" by blast
    then show ?thesis
    proof cases
      case own
      then have "t = rt" using t(1) rt ontology_okD(1) [OF ok t(1)] by simp
      then show ?thesis
        using rel_edges_insert [OF so axs] own insert_keeps_acyclic [OF ok rt _ _ guard] so t(2)
        by (simp add: strict_order_type_def)
    next
      case inverse
      have so': "strict_order_type rt" and inv': "rt_inverse rt = Some (rt_id t)"
        using hierarchicalD(2) [OF t(2) inverse(2) rt] by auto
      have "map_of (relation_types o1) (rt_id t) = Some t"
        using t(1) ontology_okD(1) [OF ok t(1)] by simp
      then have hier': "hierarchical o1 rt"
        using so' inv' so inverse(2) ident by (simp add: hierarchical_def)
      have mirror: "rel_edges o1 t = (rel_edges o1 rt)\<inverse>"
        using rel_edges_mirror [OF so' so inv'] inverse(2) ident by simp
      have "acyclic (insert (ax_subject a, ax_object a) (rel_edges o1 rt))"
        using insert_keeps_acyclic [OF ok rt so' hier' guard] so' by (simp add: strict_order_type_def)
      then have "acyclic ((insert (ax_subject a, ax_object a) (rel_edges o1 rt))\<inverse>)" by simp
      also have "(insert (ax_subject a, ax_object a) (rel_edges o1 rt))\<inverse> = rel_edges o2 t"
        using rel_edges_insert [OF so axs] inverse mirror by auto
      finally show ?thesis .
    next
      case other
      then show ?thesis using rel_edges_insert [OF so axs] old by simp
    qed
  qed
  have "hierarchical o2 t = hierarchical o1 t" for t
    unfolding hierarchical_def same by (rule refl)
  with acyc have "ontology_ok o2"
    using ok known rt unfolding ontology_ok_def same axs by auto
  then show ?thesis by (simp add: res)
qed

lemma ontology_reachable_ok: "ontology_reachable o1 \<Longrightarrow> ontology_ok o1"
  by (induction rule: ontology_reachable.induct)
    (simp_all add: ontology_ok_new ontology_ok_concept ontology_ok_relation_type ontology_ok_axiom)

section \<open>The registries of concepts and relation types\<close>

interpretation concept_registry: registry "\<lambda>o1. map_of (concepts o1)" oc_id add_concept
    OntologyInserted OntologyUnchanged
    "\<lambda>c. OntologyIdentityConflict ConceptRecord (oc_id c)"
  by unfold_locales (auto simp: add_concept_def)

interpretation relation_type_registry: registry "\<lambda>o1. map_of (relation_types o1)" rt_id
    add_relation_type OntologyInserted OntologyUnchanged
    "\<lambda>rt. OntologyIdentityConflict RelationTypeRecord (rt_id rt)"
  by unfold_locales (auto simp: add_relation_type_def)

lemma add_axiom_frame:
  "concepts (snd (add_axiom a o1)) = concepts o1"
  "relation_types (snd (add_axiom a o1)) = relation_types o1"
  by (auto simp: add_axiom_eq split: option.splits)

lemma add_concept_frame: "relation_types (snd (add_concept c o1)) = relation_types o1"
  by (auto simp: add_concept_def split: option.splits)

lemma reachable_keeps_standard:
  assumes "ontology_reachable o1" and "map_of (relation_types ontology_new) r = Some rt"
  shows "map_of (relation_types o1) r = Some rt"
  using assms(1)
proof induction
  case (reach_relation_type o1 t)
  then show ?case by (auto simp: relation_type_registry.register_lookup)
qed (use assms(2) in \<open>simp_all add: add_axiom_frame add_concept_frame\<close>)

definition is_a_type :: ontology_relation_type where
  "is_a_type = with_semantics (standard_relation IS_A ''is a'')
     (default_semantics\<lparr>transitive := True, reflexive := True, acyclic_rel := True\<rparr>)"

lemma standard_is_a: "map_of (relation_types ontology_new) IS_A = Some is_a_type"
  by code_simp

lemma is_a_strict: "hierarchical o1 is_a_type" "reflexive (rt_semantics is_a_type)"
  by (simp_all add: hierarchical_def strict_order_type_def is_a_type_def with_semantics_def
      standard_relation_def default_semantics_def)

lemma IS_A_id: "relation_type_id_new IS_A = Ok IS_A"
  by code_simp

lemma is_a_acyclic: "ontology_reachable o1 \<Longrightarrow> acyclic (rel_edges o1 is_a_type)"
  using ontology_okD(3) [OF ontology_reachable_ok reachable_keeps_standard [OF _ standard_is_a]]
  by (simp add: is_a_strict)

lemma is_a_iff:
  assumes "ontology_reachable o1"
  shows "is_a o1 a b = Ok True \<longleftrightarrow>
     map_of (concepts o1) a \<noteq> None \<and> map_of (concepts o1) b \<noteq> None
     \<and> (a, b) \<in> (rel_edges o1 is_a_type)\<^sup>*"
proof -
  have "transitive (rt_semantics is_a_type)"
    using is_a_strict(1) by (simp add: hierarchical_def strict_order_type_def)
  then show ?thesis
    using reachable_keeps_standard [OF assms standard_is_a] is_a_strict(2)
    by (auto simp: is_a_def IS_A_id is_related_unknown relates_def rtrancl_eq_or_trancl)
qed

section \<open>Properties\<close>


definition sample_ontology :: ontology where
  "sample_ontology =
     fold (\<lambda>x t. snd (add_axiom x t))
       [OntologyAxiom ''laravel'' IS_A ''framework'', OntologyAxiom ''framework'' IS_A ''technology'']
       (fold (\<lambda>c t. snd (add_concept \<lparr>oc_id = c, oc_label = c\<rparr> t))
         [''technology'', ''framework'', ''laravel''] ontology_new)"


text \<open>
  C21. Whatever sequence of writes built the ontology, every registered hierarchical relation type
  (transitive, acyclic, not symmetric, with a matching inverse) is free of cycles: the two checks
  of \<open>add_axiom\<close> are enough, also across a relation and its inverse.
\<close>

theorem hierarchy_acyclic:
  assumes "ontology_reachable o1" and "map_of (relation_types o1) r = Some rt"
    and "hierarchical o1 rt"
  shows "acyclic (rel_edges o1 rt)"
  using ontology_okD(3) [OF ontology_reachable_ok [OF assms(1)] assms(2,3)] .

lemma sample_reachable: "ontology_reachable sample_ontology"
  by (simp add: sample_ontology_def ontology_reachable.intros)

theorem hierarchy_acyclic_witness: "acyclic (rel_edges sample_ontology is_a_type)"
proof (rule hierarchy_acyclic [OF sample_reachable, of IS_A])
  show "map_of (relation_types sample_ontology) IS_A = Some is_a_type" by code_simp
  show "hierarchical sample_ontology is_a_type" by code_simp
qed

text \<open>
  In every reachable ontology the canonical type hierarchy is a partial order on the known
  concepts: \<open>is_a\<close> never fails on them, is reflexive, antisymmetric and transitive.
\<close>

theorem is_a_partial_order:
  assumes "ontology_reachable o1"
  shows "partial_order_on {a. map_of (concepts o1) a \<noteq> None} {(a, b). is_a o1 a b = Ok True}"
  unfolding is_a_iff [OF assms] partial_order_on_def preorder_on_def
  using acyclic_impl_antisym_rtrancl [OF is_a_acyclic [OF assms]]
  by (auto simp: refl_on_def trans_def antisym_def intro: rtrancl_trans)

section \<open>Limits of the declared semantics\<close>

text \<open>
  An acyclic type that is not transitive is only protected against cycles of length one and two:
  the guard asks \<open>is_related\<close>, which looks one step far for such a type. The third axiom below
  closes a cycle and is accepted.
\<close>

definition next_step :: ontology_relation_type where
  "next_step = with_semantics (standard_relation ''next'' ''next'')
     (default_semantics\<lparr>acyclic_rel := True\<rparr>)"

definition sample_cycle :: ontology where
  "sample_cycle =
     fold (\<lambda>x t. snd (add_axiom x t))
       [OntologyAxiom ''a'' ''next'' ''b'', OntologyAxiom ''b'' ''next'' ''c'']
       (fold (\<lambda>c t. snd (add_concept \<lparr>oc_id = c, oc_label = c\<rparr> t)) [''a'', ''b'', ''c'']
         (snd (add_relation_type next_step ontology_new)))"

lemma acyclic_type_accepts_cycle:
  "fst (add_axiom (OntologyAxiom ''c'' ''next'' ''a'') sample_cycle) = Ok OntologyInserted"
  by code_simp

text \<open>
  A transitive type that is neither reflexive nor acyclic does not relate a concept on a cycle to
  itself, although the closure of its axioms does.
\<close>

definition leads_to :: ontology_relation_type where
  "leads_to = with_semantics (standard_relation ''leads_to'' ''leads to'')
     (default_semantics\<lparr>transitive := True\<rparr>)"

definition sample_loop :: ontology where
  "sample_loop =
     fold (\<lambda>x t. snd (add_axiom x t))
       [OntologyAxiom ''a'' ''leads_to'' ''b'', OntologyAxiom ''b'' ''leads_to'' ''a'']
       (fold (\<lambda>c t. snd (add_concept \<lparr>oc_id = c, oc_label = c\<rparr> t)) [''a'', ''b'']
         (snd (add_relation_type leads_to ontology_new)))"

lemma transitive_loop_not_related:
  "is_related sample_loop ''a'' ''leads_to'' ''b'' = Ok True
   \<and> is_related sample_loop ''b'' ''leads_to'' ''a'' = Ok True
   \<and> is_related sample_loop ''a'' ''leads_to'' ''a'' = Ok False"
  by code_simp

end
