(* ===== verification/Knowledge.thy ===== *)
theory Knowledge
  imports Lineage Ontology
begin

text \<open>
  The knowledge base (\<open>src/crates/termivar-scanner/src/knowledge.rs\<close> and the files under
  \<open>knowledge/\<close>): its state with the secondary indexes, the write transactions, the subject
  snapshots with their authority and revision guards, and the read projections. Each public write
  runs under one write lock, so it is one transition of the state. A panic leaves the state the
  code had reached when it happened: the lock recovers from poisoning.
\<close>

section \<open>State\<close>

type_synonym knowledge_authority = nat

record knowledge_state =
  ks_ontology :: ontology
  ks_ontology_revision :: u64
  subject_revisions :: "entity_id \<rightharpoonup> u64"
  ks_evidence :: "evidence_id \<rightharpoonup> evidence"
  ks_facts :: "string \<rightharpoonup> fact"
  ks_hypotheses :: "string \<rightharpoonup> hypothesis"
  ks_entities :: "entity_id \<rightharpoonup> knowledge_entity"
  ks_relations :: "relation_id \<rightharpoonup> knowledge_relation"
  evidence_by_subject :: "entity_id \<rightharpoonup> evidence_id list"
  evidence_by_predicate :: "knowledge_predicate \<rightharpoonup> evidence_id list"
  derivation_children :: "evidence_id \<rightharpoonup> evidence_id list"
  facts_by_subject :: "entity_id \<rightharpoonup> string list"
  facts_by_predicate :: "knowledge_predicate \<rightharpoonup> string list"
  hypotheses_by_subject :: "entity_id \<rightharpoonup> string list"
  hypotheses_by_predicate :: "knowledge_predicate \<rightharpoonup> string list"
  relations_from_index :: "entity_id \<rightharpoonup> relation_id list"
  relations_to_index :: "entity_id \<rightharpoonup> relation_id list"

record knowledge_base =
  kb_authority :: knowledge_authority
  kb_state :: knowledge_state

definition knowledge_state_default :: knowledge_state where
  "knowledge_state_default =
     \<lparr>ks_ontology = ontology_new, ks_ontology_revision = 0, subject_revisions = Map.empty,
      ks_evidence = Map.empty, ks_facts = Map.empty, ks_hypotheses = Map.empty,
      ks_entities = Map.empty, ks_relations = Map.empty,
      evidence_by_subject = Map.empty, evidence_by_predicate = Map.empty,
      derivation_children = Map.empty,
      facts_by_subject = Map.empty, facts_by_predicate = Map.empty,
      hypotheses_by_subject = Map.empty, hypotheses_by_predicate = Map.empty,
      relations_from_index = Map.empty, relations_to_index = Map.empty\<rparr>"

definition knowledge_base_new :: "knowledge_authority \<Rightarrow> knowledge_base" where
  "knowledge_base_new authority = \<lparr>kb_authority = authority, kb_state = knowledge_state_default\<rparr>"

datatype knowledge_write = Inserted | Updated | Unchanged

datatype hypothesis_state_transition =
    TransitionMissing
  | TransitionSubjectMismatch entity_id
  | TransitionStaleSnapshot knowledge_base_error
  | TerminalConflict hypothesis_state hypothesis_state
  | Written knowledge_write

section \<open>Revisions\<close>

definition subject_revision :: "knowledge_state \<Rightarrow> entity_id \<Rightarrow> u64" where
  "subject_revision st s = (case subject_revisions st s of None \<Rightarrow> 0 | Some r \<Rightarrow> r)"

definition validate_revisions ::
  "knowledge_state \<Rightarrow> entity_id \<Rightarrow> u64 \<Rightarrow> u64 \<Rightarrow> unit kb_res" where
  "validate_revisions st s expected_subject expected_ontology =
     (if subject_revision st s \<noteq> expected_subject \<or> ks_ontology_revision st \<noteq> expected_ontology
      then Err (StaleSnapshot s expected_subject (subject_revision st s) expected_ontology
             (ks_ontology_revision st))
      else Ok ())"

text \<open>\<^verbatim>\<open>checked_add(1).expect(..)\<close>: \<open>None\<close> is the panic.\<close>

definition bump_subject_revision :: "knowledge_state \<Rightarrow> entity_id \<Rightarrow> knowledge_state option" where
  "bump_subject_revision st s =
     (case checked_add (subject_revision st s) 1 of
        None \<Rightarrow> None
      | Some r \<Rightarrow> Some (st\<lparr>subject_revisions := (subject_revisions st)(s \<mapsto> r)\<rparr>))"

definition bump_ontology_revision :: "knowledge_state \<Rightarrow> knowledge_state option" where
  "bump_ontology_revision st =
     (case checked_add (ks_ontology_revision st) 1 of
        None \<Rightarrow> None
      | Some r \<Rightarrow> Some (st\<lparr>ks_ontology_revision := r\<rparr>))"

section \<open>Ontology lifecycle\<close>

definition after_ontology_write ::
  "(ontology_write, ontology_error) res \<times> ontology \<Rightarrow> knowledge_state \<Rightarrow>
   (ontology_write, ontology_error) res \<times> knowledge_state" where
  "after_ontology_write r st =
     (let st' = st\<lparr>ks_ontology := snd r\<rparr>
      in case fst r of
           Ok OntologyInserted \<Rightarrow>
             (case bump_ontology_revision st' of
                None \<Rightarrow> (Panic, st')
              | Some st'' \<Rightarrow> (Ok OntologyInserted, st''))
         | w \<Rightarrow> (w, st'))"

definition register_concept ::
  "ontology_concept \<Rightarrow> knowledge_state \<Rightarrow> (ontology_write, ontology_error) res \<times> knowledge_state" where
  "register_concept c st = after_ontology_write (add_concept c (ks_ontology st)) st"

definition register_relation_type ::
  "ontology_relation_type \<Rightarrow> knowledge_state \<Rightarrow>
   (ontology_write, ontology_error) res \<times> knowledge_state" where
  "register_relation_type rt st = after_ontology_write (add_relation_type rt (ks_ontology st)) st"

definition register_axiom ::
  "ontology_axiom \<Rightarrow> knowledge_state \<Rightarrow> (ontology_write, ontology_error) res \<times> knowledge_state" where
  "register_axiom a st = after_ontology_write (add_axiom a (ks_ontology st)) st"

fun install_all ::
  "('d \<Rightarrow> ontology \<Rightarrow> (ontology_write, ontology_error) res \<times> ontology) \<Rightarrow> 'd list \<Rightarrow> ontology \<Rightarrow> nat \<Rightarrow>
   (ontology \<times> nat, ontology_error) res" where
  "install_all add [] o1 n = Ok (o1, n)"
| "install_all add (d # ds) o1 n =
     (case add d o1 of
        (Ok w, o2) \<Rightarrow> install_all add ds o2 (if w = OntologyInserted then n + 1 else n)
      | (Err e, _) \<Rightarrow> Err e
      | (Panic, _) \<Rightarrow> Panic)"

definition install_ontology_definitions ::
  "ontology_concept list \<Rightarrow> ontology_axiom list \<Rightarrow> knowledge_state \<Rightarrow>
   (nat \<times> nat, ontology_error) res \<times> knowledge_state" where
  "install_ontology_definitions cs axs st =
     (case and_then (install_all add_concept cs (ks_ontology st) 0) (\<lambda>(o1, nc).
           and_then (install_all add_axiom axs o1 0) (\<lambda>(o2, na). Ok (o2, nc, na))) of
        Err e \<Rightarrow> (Err e, st)
      | Panic \<Rightarrow> (Panic, st)
      | Ok (o2, nc, na) \<Rightarrow>
          (let st' = st\<lparr>ks_ontology := o2\<rparr>
           in if nc \<noteq> 0 \<or> na \<noteq> 0
              then (case bump_ontology_revision st' of
                      None \<Rightarrow> (Panic, st')
                    | Some st'' \<Rightarrow> (Ok (nc, na), st''))
              else (Ok (nc, na), st')))"

section \<open>Evidence\<close>

definition index_derivation :: "evidence \<Rightarrow> knowledge_state \<Rightarrow> knowledge_state" where
  "index_derivation e st =
     (case derivation (e_origin e) of
        None \<Rightarrow> st
      | Some d \<Rightarrow>
          st\<lparr>derivation_children :=
            fold (\<lambda>p m. index m p (e_id e)) (ed_parents d) (derivation_children st)\<rparr>)"

text \<open>The write sequence of one new observation: record, revision, then its two indexes.\<close>

definition index_evidence :: "evidence \<Rightarrow> knowledge_state \<Rightarrow> knowledge_state" where
  "index_evidence e st =
     st\<lparr>evidence_by_subject := index (evidence_by_subject st) (e_subject e) (e_id e),
        evidence_by_predicate := index (evidence_by_predicate st) (e_predicate e) (e_id e)\<rparr>"

definition put_evidence :: "evidence \<Rightarrow> knowledge_state \<Rightarrow> unit kb_res \<times> knowledge_state" where
  "put_evidence e st =
     (let st1 = st\<lparr>ks_evidence := (ks_evidence st)(e_id e \<mapsto> e)\<rparr>
      in case bump_subject_revision st1 (e_subject e) of
           None \<Rightarrow> (Panic, st1)
         | Some st2 \<Rightarrow> (Ok (), index_evidence e st2))"

definition write_evidence :: "evidence \<Rightarrow> knowledge_state \<Rightarrow> unit kb_res \<times> knowledge_state" where
  "write_evidence e st = put_evidence e (index_derivation e st)"

definition insert_evidence ::
  "evidence \<Rightarrow> knowledge_state \<Rightarrow> knowledge_write kb_res \<times> knowledge_state" where
  "insert_evidence e st =
     (case ks_evidence st (e_id e) of
        Some existing \<Rightarrow>
          if existing = e then (Ok Unchanged, st)
          else (Err (identity_conflict EvidenceRecord (e_id e)), st)
      | None \<Rightarrow>
          (case (if derivation (e_origin e) \<noteq> None
                 then validate_batch_derivations (ks_evidence st) [(e_id e, e)] else Ok ()) of
             Err x \<Rightarrow> (Err x, st)
           | Panic \<Rightarrow> (Panic, st)
           | Ok _ \<Rightarrow>
               (case write_evidence e st of
                  (Ok _, st') \<Rightarrow> (Ok Inserted, st')
                | (Err x, st') \<Rightarrow> (Err x, st')
                | (Panic, st') \<Rightarrow> (Panic, st'))))"

text \<open>First loop of the batch: identity conflicts, and the distinct pending records.\<close>

fun collect_pending ::
  "(evidence_id \<rightharpoonup> evidence) \<Rightarrow> evidence list \<Rightarrow> pending \<Rightarrow> pending kb_res" where
  "collect_pending stored [] pending = Ok pending"
| "collect_pending stored (e # es) pending =
     (if (\<exists>x \<in> set_option (stored (e_id e)). x \<noteq> e) \<or>
         (\<exists>x \<in> set_option (map_of pending (e_id e)). x \<noteq> e)
      then Err (identity_conflict EvidenceRecord (e_id e))
      else collect_pending stored es
        (if map_of pending (e_id e) = None then pending @ [(e_id e, e)] else pending))"

fun write_evidence_all ::
  "evidence list \<Rightarrow> knowledge_state \<Rightarrow> knowledge_write list kb_res \<times> knowledge_state" where
  "write_evidence_all [] st = (Ok [], st)"
| "write_evidence_all (e # es) st =
     (if ks_evidence st (e_id e) \<noteq> None
      then (case write_evidence_all es st of (r, st') \<Rightarrow> (and_then r (\<lambda>ws. Ok (Unchanged # ws)), st'))
      else (case write_evidence e st of
              (Ok _, st1) \<Rightarrow>
                (case write_evidence_all es st1 of
                   (r, st') \<Rightarrow> (and_then r (\<lambda>ws. Ok (Inserted # ws)), st'))
            | (Err x, st1) \<Rightarrow> (Err x, st1)
            | (Panic, st1) \<Rightarrow> (Panic, st1)))"

text \<open>\<open>iter\<close> is the order in which the pending hash map is traversed.\<close>

definition insert_evidence_batch ::
  "(pending \<Rightarrow> pending) \<Rightarrow> evidence list \<Rightarrow> knowledge_state \<Rightarrow>
   knowledge_write list kb_res \<times> knowledge_state" where
  "insert_evidence_batch iter es st =
     (case and_then (collect_pending (ks_evidence st) es [])
             (\<lambda>pending. validate_batch_derivations (ks_evidence st) (iter pending)) of
        Err x \<Rightarrow> (Err x, st)
      | Panic \<Rightarrow> (Panic, st)
      | Ok _ \<Rightarrow> write_evidence_all es st)"

section \<open>Facts\<close>

definition upsert_fact :: "fact \<Rightarrow> knowledge_state \<Rightarrow> knowledge_write kb_res \<times> knowledge_state" where
  "upsert_fact f st =
     (let st1 = st\<lparr>ks_facts := (ks_facts st)(f_id f \<mapsto> f)\<rparr>
      in case ks_facts st (f_id f) of
           Some existing \<Rightarrow>
             if existing = f then (Ok Unchanged, st)
             else if f_subject existing \<noteq> f_subject f \<or> f_predicate existing \<noteq> f_predicate f
               \<or> f_value existing \<noteq> f_value f
             then (Err (identity_conflict FactRecord (f_id f)), st)
             else (case bump_subject_revision st1 (f_subject f) of
                     None \<Rightarrow> (Panic, st1)
                   | Some st2 \<Rightarrow> (Ok Updated, st2))
         | None \<Rightarrow>
             (case bump_subject_revision st1 (f_subject f) of
                None \<Rightarrow> (Panic, st1)
              | Some st2 \<Rightarrow>
                  (Ok Inserted,
                   st2\<lparr>facts_by_subject := index (facts_by_subject st2) (f_subject f) (f_id f),
                       facts_by_predicate := index (facts_by_predicate st2) (f_predicate f) (f_id f)\<rparr>)))"

section \<open>Snapshots\<close>

record knowledge_snapshot =
  sn_authority :: knowledge_authority
  sn_subject :: entity_id
  sn_subject_revision :: u64
  sn_ontology_revision :: u64
  sn_ontology :: ontology
  sn_evidence :: "evidence list"
  sn_facts :: "fact list"
  sn_hypotheses :: "hypothesis list"

definition snapshot_for_subject :: "knowledge_base \<Rightarrow> entity_id \<Rightarrow> knowledge_snapshot" where
  "snapshot_for_subject kb s =
     (let st = kb_state kb in
      \<lparr>sn_authority = kb_authority kb, sn_subject = s,
       sn_subject_revision = subject_revision st s, sn_ontology_revision = ks_ontology_revision st,
       sn_ontology = ks_ontology st,
       sn_evidence = collect_indexed (evidence_by_subject st s) (ks_evidence st),
       sn_facts = collect_indexed (facts_by_subject st s) (ks_facts st),
       sn_hypotheses = collect_indexed (hypotheses_by_subject st s) (ks_hypotheses st)\<rparr>)"

definition with_evidence_correlation ::
  "knowledge_snapshot \<Rightarrow> string \<Rightarrow> knowledge_snapshot" where
  "with_evidence_correlation sn cid =
     sn\<lparr>sn_evidence := filter (\<lambda>e. es_correlation_id (e_source e) = Some cid) (sn_evidence sn)\<rparr>"

fun set_first_state ::
  "u64 \<Rightarrow> string \<Rightarrow> hypothesis_state \<Rightarrow> hypothesis list \<Rightarrow> hypothesis list option" where
  "set_first_state now i s [] = None"
| "set_first_state now i s (h # hs) =
     (if h_id h = i then Some (set_state now h s # hs)
      else map_option ((#) h) (set_first_state now i s hs))"

definition with_projected_hypothesis_state ::
  "u64 \<Rightarrow> knowledge_snapshot \<Rightarrow> string \<Rightarrow> hypothesis_state \<Rightarrow> knowledge_snapshot option" where
  "with_projected_hypothesis_state now sn i s =
     map_option (\<lambda>hs. sn\<lparr>sn_hypotheses := hs\<rparr>) (set_first_state now i s (sn_hypotheses sn))"

definition validate_snapshot_revisions ::
  "knowledge_base \<Rightarrow> entity_id \<Rightarrow> u64 \<Rightarrow> u64 \<Rightarrow> unit kb_res" where
  "validate_snapshot_revisions kb s rs ro = validate_revisions (kb_state kb) s rs ro"

definition validate_snapshot_authority ::
  "knowledge_base \<Rightarrow> knowledge_authority \<Rightarrow> entity_id \<Rightarrow> unit kb_res" where
  "validate_snapshot_authority kb authority s =
     (if kb_authority kb = authority then Ok () else Err (SnapshotAuthorityMismatch s))"

definition commit_if_snapshot_current ::
  "knowledge_base \<Rightarrow> knowledge_snapshot \<Rightarrow> (unit \<Rightarrow> 'a) \<Rightarrow> 'a kb_res" where
  "commit_if_snapshot_current kb sn commit =
     and_then (validate_snapshot_authority kb (sn_authority sn) (sn_subject sn)) (\<lambda>_.
     and_then (validate_revisions (kb_state kb) (sn_subject sn) (sn_subject_revision sn)
         (sn_ontology_revision sn)) (\<lambda>_. Ok (commit ())))"

section \<open>Hypotheses\<close>

definition same_hypothesis_claim :: "hypothesis \<Rightarrow> hypothesis \<Rightarrow> bool" where
  "same_hypothesis_claim l r \<longleftrightarrow>
     h_subject l = h_subject r \<and> h_predicate l = h_predicate r \<and> h_value l = h_value r"

definition is_terminal_hypothesis_state :: "hypothesis_state \<Rightarrow> bool" where
  "is_terminal_hypothesis_state s \<longleftrightarrow> s = Confirmed \<or> s = Rejected"

fun check_hypotheses ::
  "(string \<rightharpoonup> hypothesis) \<Rightarrow> hypothesis list \<Rightarrow> (string \<rightharpoonup> hypothesis) \<Rightarrow> unit kb_res" where
  "check_hypotheses stored [] pending = Ok ()"
| "check_hypotheses stored (h # hs) pending =
     (if (\<exists>x \<in> set_option (stored (h_id h)). \<not> same_hypothesis_claim x h) \<or>
         (\<exists>x \<in> set_option (pending (h_id h)). \<not> same_evaluation_as x h)
      then Err (identity_conflict HypothesisRecord (h_id h))
      else check_hypotheses stored hs
        (if pending (h_id h) = None then pending(h_id h \<mapsto> h) else pending))"

definition preserve_terminal ::
  "bool \<Rightarrow> u64 \<Rightarrow> (string \<rightharpoonup> hypothesis) \<Rightarrow> hypothesis \<Rightarrow> hypothesis" where
  "preserve_terminal preserve now stored h =
     (if preserve then
        (case stored (h_id h) of
           Some existing \<Rightarrow>
             if is_terminal_hypothesis_state (h_state existing)
             then set_state now h (h_state existing) else h
         | None \<Rightarrow> h)
      else h)"

definition write_hypothesis ::
  "bool \<Rightarrow> u64 \<Rightarrow> hypothesis \<Rightarrow> knowledge_state \<Rightarrow> knowledge_write kb_res \<times> knowledge_state" where
  "write_hypothesis preserve now h0 st =
     (let h = preserve_terminal preserve now (ks_hypotheses st) h0;
          st1 = st\<lparr>ks_hypotheses := (ks_hypotheses st)(h_id h \<mapsto> h)\<rparr>
      in case ks_hypotheses st (h_id h) of
           Some existing \<Rightarrow>
             if same_evaluation_as existing h then (Ok Unchanged, st)
             else (case bump_subject_revision st1 (h_subject h) of
                     None \<Rightarrow> (Panic, st1)
                   | Some st2 \<Rightarrow> (Ok Updated, st2))
         | None \<Rightarrow>
             (case bump_subject_revision st1 (h_subject h) of
                None \<Rightarrow> (Panic, st1)
              | Some st2 \<Rightarrow>
                  (Ok Inserted,
                   st2\<lparr>hypotheses_by_subject := index (hypotheses_by_subject st2) (h_subject h) (h_id h),
                       hypotheses_by_predicate :=
                         index (hypotheses_by_predicate st2) (h_predicate h) (h_id h)\<rparr>)))"

text \<open>\<open>clock n\<close> is the wall clock when the item at position \<open>n\<close> is written.\<close>

fun write_hypotheses ::
  "bool \<Rightarrow> (nat \<Rightarrow> u64) \<Rightarrow> nat \<Rightarrow> hypothesis list \<Rightarrow> knowledge_state \<Rightarrow>
   knowledge_write list kb_res \<times> knowledge_state" where
  "write_hypotheses preserve clock n [] st = (Ok [], st)"
| "write_hypotheses preserve clock n (h # hs) st =
     (case write_hypothesis preserve (clock n) h st of
        (Ok w, st1) \<Rightarrow>
          (case write_hypotheses preserve clock (n + 1) hs st1 of
             (r, st2) \<Rightarrow> (and_then r (\<lambda>ws. Ok (w # ws)), st2))
      | (Err x, st1) \<Rightarrow> (Err x, st1)
      | (Panic, st1) \<Rightarrow> (Panic, st1))"

definition upsert_hypothesis_batch_with_policy ::
  "(nat \<Rightarrow> u64) \<Rightarrow> knowledge_base \<Rightarrow> hypothesis list \<Rightarrow> bool \<Rightarrow> knowledge_snapshot option \<Rightarrow>
   knowledge_write list kb_res \<times> knowledge_state" where
  "upsert_hypothesis_batch_with_policy clock kb hs preserve expected =
     (let st = kb_state kb in
      case and_then
          (case expected of
             None \<Rightarrow> Ok ()
           | Some sn \<Rightarrow>
               and_then (validate_snapshot_authority kb (sn_authority sn) (sn_subject sn)) (\<lambda>_.
                 validate_revisions st (sn_subject sn) (sn_subject_revision sn)
                   (sn_ontology_revision sn)))
          (\<lambda>_. check_hypotheses (ks_hypotheses st) hs Map.empty) of
        Err x \<Rightarrow> (Err x, st)
      | Panic \<Rightarrow> (Panic, st)
      | Ok _ \<Rightarrow> write_hypotheses preserve clock 0 hs st)"

definition upsert_hypothesis_batch ::
  "(nat \<Rightarrow> u64) \<Rightarrow> knowledge_base \<Rightarrow> hypothesis list \<Rightarrow> knowledge_write list kb_res \<times> knowledge_state" where
  "upsert_hypothesis_batch clock kb hs =
     upsert_hypothesis_batch_with_policy clock kb hs False None"

definition upsert_hypothesis ::
  "(nat \<Rightarrow> u64) \<Rightarrow> knowledge_base \<Rightarrow> hypothesis \<Rightarrow> knowledge_write kb_res \<times> knowledge_state" where
  "upsert_hypothesis clock kb h =
     (case upsert_hypothesis_batch clock kb [h] of
        (r, st) \<Rightarrow> (and_then r (\<lambda>ws. case ws of [] \<Rightarrow> Panic | w # _ \<Rightarrow> Ok w), st))"

definition upsert_reasoning_hypothesis_batch ::
  "(nat \<Rightarrow> u64) \<Rightarrow> knowledge_base \<Rightarrow> knowledge_snapshot \<Rightarrow> hypothesis list \<Rightarrow>
   knowledge_write list kb_res \<times> knowledge_state" where
  "upsert_reasoning_hypothesis_batch clock kb sn hs =
     (case find (\<lambda>h. h_subject h \<noteq> sn_subject sn) hs of
        Some h \<Rightarrow> (Err (ReasoningSubjectMismatch (h_id h) (sn_subject sn) (h_subject h)), kb_state kb)
      | None \<Rightarrow> upsert_hypothesis_batch_with_policy clock kb hs True (Some sn))"

definition transition_hypothesis_state ::
  "u64 \<Rightarrow> string \<Rightarrow> entity_id \<Rightarrow> hypothesis_state \<Rightarrow> (u64 \<times> u64) option \<Rightarrow> knowledge_state \<Rightarrow>
   hypothesis_state_transition kb_res \<times> knowledge_state" where
  "transition_hypothesis_state now i expected_subject new_state expected_revisions st =
     (case ks_hypotheses st i of
        None \<Rightarrow> (Ok TransitionMissing, st)
      | Some h \<Rightarrow>
          if h_subject h \<noteq> expected_subject then (Ok (TransitionSubjectMismatch (h_subject h)), st)
          else if h_state h = new_state then (Ok (Written Unchanged), st)
          else if is_terminal_hypothesis_state (h_state h) \<and> is_terminal_hypothesis_state new_state
          then (Ok (TerminalConflict (h_state h) new_state), st)
          else
            (case (case expected_revisions of
                     None \<Rightarrow> Ok ()
                   | Some (rs, ro) \<Rightarrow> validate_revisions st expected_subject rs ro) of
               Err x \<Rightarrow> (Ok (TransitionStaleSnapshot x), st)
             | Panic \<Rightarrow> (Panic, st)
             | Ok _ \<Rightarrow>
                 (let st1 = st\<lparr>ks_hypotheses := (ks_hypotheses st)(i \<mapsto> set_state now h new_state)\<rparr>
                  in case bump_subject_revision st1 expected_subject of
                       None \<Rightarrow> (Panic, st1)
                     | Some st2 \<Rightarrow> (Ok (Written Updated), st2))))"

section \<open>Graph entities and relations\<close>

definition MAX_KNOWLEDGE_RELATION_ID_BYTES :: nat where "MAX_KNOWLEDGE_RELATION_ID_BYTES = 512"
definition MAX_KNOWLEDGE_RELATION_ENTITY_ID_BYTES :: nat where
  "MAX_KNOWLEDGE_RELATION_ENTITY_ID_BYTES = 2048"
definition MAX_KNOWLEDGE_RELATION_KIND_BYTES :: nat where "MAX_KNOWLEDGE_RELATION_KIND_BYTES = 256"
definition MAX_KNOWLEDGE_RELATION_EVIDENCE_IDS :: nat where "MAX_KNOWLEDGE_RELATION_EVIDENCE_IDS = 32"
definition MAX_KNOWLEDGE_RELATION_EVIDENCE_ID_BYTES :: nat where
  "MAX_KNOWLEDGE_RELATION_EVIDENCE_ID_BYTES = 512"

definition validate_relation_limit :: "string \<Rightarrow> nat \<Rightarrow> nat \<Rightarrow> unit kb_res" where
  "validate_relation_limit field actual maximum =
     (if actual > maximum then Err (RelationLimitExceeded field actual maximum) else Ok ())"

fun validate_evidence_id_limits :: "evidence_id list \<Rightarrow> unit kb_res" where
  "validate_evidence_id_limits [] = Ok ()"
| "validate_evidence_id_limits (i # is) =
     and_then (validate_relation_limit ''evidence_id'' (length i)
         MAX_KNOWLEDGE_RELATION_EVIDENCE_ID_BYTES)
       (\<lambda>_. validate_evidence_id_limits is)"

definition validate_relation_bounds :: "knowledge_relation \<Rightarrow> unit kb_res" where
  "validate_relation_bounds r =
     and_then (validate_relation_limit ''id'' (length (kr_id r)) MAX_KNOWLEDGE_RELATION_ID_BYTES) (\<lambda>_.
     and_then (validate_relation_limit ''from'' (length (kr_from r))
         MAX_KNOWLEDGE_RELATION_ENTITY_ID_BYTES) (\<lambda>_.
     and_then (validate_relation_limit ''to'' (length (kr_to r))
         MAX_KNOWLEDGE_RELATION_ENTITY_ID_BYTES) (\<lambda>_.
     and_then
       (case kr_kind r of
          CustomRelation kind \<Rightarrow>
            validate_relation_limit ''kind'' (length kind) MAX_KNOWLEDGE_RELATION_KIND_BYTES
        | _ \<Rightarrow> Ok ()) (\<lambda>_.
     and_then (validate_relation_limit ''evidence_ids'' (length (kr_evidence_ids r))
         MAX_KNOWLEDGE_RELATION_EVIDENCE_IDS) (\<lambda>_.
     validate_evidence_id_limits (kr_evidence_ids r))))))"

definition same_graph_identity :: "knowledge_relation \<Rightarrow> knowledge_relation \<Rightarrow> bool" where
  "same_graph_identity a b \<longleftrightarrow> kr_from a = kr_from b \<and> kr_to a = kr_to b \<and> kr_kind a = kr_kind b"

definition relation_write_kind ::
  "knowledge_state \<Rightarrow> knowledge_relation \<Rightarrow> knowledge_write kb_res" where
  "relation_write_kind st r =
     (case ks_relations st (kr_id r) of
        Some existing \<Rightarrow>
          if existing = r then Ok Unchanged
          else if same_graph_identity existing r then Ok Updated
          else Err (identity_conflict RelationRecord (kr_id r))
      | None \<Rightarrow> Ok Inserted)"

definition put_relation ::
  "knowledge_write \<Rightarrow> knowledge_relation \<Rightarrow> knowledge_state \<Rightarrow> knowledge_state" where
  "put_relation w r st =
     (if w = Unchanged then st
      else
        (let st1 = st\<lparr>ks_relations := (ks_relations st)(kr_id r \<mapsto> r)\<rparr>
         in if w = Inserted
            then st1\<lparr>relations_from_index := index (relations_from_index st1) (kr_from r) (kr_id r),
                     relations_to_index := index (relations_to_index st1) (kr_to r) (kr_id r)\<rparr>
            else st1))"

definition insert_evidence_with_relation ::
  "evidence \<Rightarrow> knowledge_relation \<Rightarrow> knowledge_state \<Rightarrow>
   (knowledge_write \<times> knowledge_write) kb_res \<times> knowledge_state" where
  "insert_evidence_with_relation e r st =
     (case and_then (validate_relation_bounds r) (\<lambda>_.
           if length (kr_evidence_ids r) \<noteq> 1 \<or> e_id e \<notin> set (kr_evidence_ids r)
           then Err (RelationEvidenceMismatch (kr_id r) (e_id e))
           else if kr_from r \<noteq> e_subject e
           then Err (RelationSubjectMismatch (kr_id r) (e_subject e) (kr_from r))
           else
             and_then
               (case ks_evidence st (e_id e) of
                  Some existing \<Rightarrow>
                    if existing = e then Ok Unchanged
                    else Err (identity_conflict EvidenceRecord (e_id e))
                | None \<Rightarrow> Ok Inserted) (\<lambda>ew.
             and_then (relation_write_kind st r) (\<lambda>rw. Ok (ew, rw)))) of
        Err x \<Rightarrow> (Err x, st)
      | Panic \<Rightarrow> (Panic, st)
      | Ok (ew, rw) \<Rightarrow>
          (case (if ew = Inserted then put_evidence e st else (Ok (), st)) of
             (Ok _, st1) \<Rightarrow> (Ok (ew, rw), put_relation rw r st1)
           | (Err x, st1) \<Rightarrow> (Err x, st1)
           | (Panic, st1) \<Rightarrow> (Panic, st1)))"

definition insert_entity ::
  "knowledge_entity \<Rightarrow> knowledge_state \<Rightarrow> knowledge_write kb_res \<times> knowledge_state" where
  "insert_entity en st =
     (case ks_entities st (ke_id en) of
        Some existing \<Rightarrow>
          if existing = en then (Ok Unchanged, st)
          else (Err (identity_conflict EntityRecord (ke_id en)), st)
      | None \<Rightarrow> (Ok Inserted, st\<lparr>ks_entities := (ks_entities st)(ke_id en \<mapsto> en)\<rparr>))"

definition upsert_relation ::
  "knowledge_relation \<Rightarrow> knowledge_state \<Rightarrow> knowledge_write kb_res \<times> knowledge_state" where
  "upsert_relation r st =
     (case and_then (validate_relation_bounds r) (\<lambda>_. relation_write_kind st r) of
        Err x \<Rightarrow> (Err x, st)
      | Panic \<Rightarrow> (Panic, st)
      | Ok w \<Rightarrow> (Ok w, put_relation w r st))"

section \<open>Reads\<close>

definition evidence_for_subject :: "knowledge_state \<Rightarrow> entity_id \<Rightarrow> evidence list" where
  "evidence_for_subject st s = collect_indexed (evidence_by_subject st s) (ks_evidence st)"

definition evidence_for_predicate :: "knowledge_state \<Rightarrow> knowledge_predicate \<Rightarrow> evidence list" where
  "evidence_for_predicate st p = collect_indexed (evidence_by_predicate st p) (ks_evidence st)"

definition facts_for_subject :: "knowledge_state \<Rightarrow> entity_id \<Rightarrow> fact list" where
  "facts_for_subject st s = collect_indexed (facts_by_subject st s) (ks_facts st)"

definition facts_for_predicate :: "knowledge_state \<Rightarrow> knowledge_predicate \<Rightarrow> fact list" where
  "facts_for_predicate st p = collect_indexed (facts_by_predicate st p) (ks_facts st)"

definition hypotheses_for_subject :: "knowledge_state \<Rightarrow> entity_id \<Rightarrow> hypothesis list" where
  "hypotheses_for_subject st s = collect_indexed (hypotheses_by_subject st s) (ks_hypotheses st)"

definition hypotheses_for_predicate :: "knowledge_state \<Rightarrow> knowledge_predicate \<Rightarrow> hypothesis list" where
  "hypotheses_for_predicate st p = collect_indexed (hypotheses_by_predicate st p) (ks_hypotheses st)"

definition derivation_children_of :: "knowledge_state \<Rightarrow> evidence_id \<Rightarrow> evidence_id list" where
  "derivation_children_of st p = index_ids (derivation_children st) p"

definition relations_from :: "knowledge_state \<Rightarrow> entity_id \<Rightarrow> knowledge_relation list" where
  "relations_from st s = collect_indexed (relations_from_index st s) (ks_relations st)"

definition relations_to :: "knowledge_state \<Rightarrow> entity_id \<Rightarrow> knowledge_relation list" where
  "relations_to st s = collect_indexed (relations_to_index st s) (ks_relations st)"

definition relations_to_page_with_more ::
  "knowledge_state \<Rightarrow> entity_id \<Rightarrow> relation_id option \<Rightarrow> nat \<Rightarrow> knowledge_relation list \<times> bool" where
  "relations_to_page_with_more st s after limit =
     (if limit = 0 then ([], False)
      else case relations_to_index st s of
          None \<Rightarrow> ([], False)
        | Some ids \<Rightarrow>
            (let rest = filter (\<lambda>i. case after of None \<Rightarrow> True | Some c \<Rightarrow> c < i) ids
             in (List.map_filter (ks_relations st) (take limit rest), drop limit rest \<noteq> [])))"

definition relations_to_page ::
  "knowledge_state \<Rightarrow> entity_id \<Rightarrow> relation_id option \<Rightarrow> nat \<Rightarrow> knowledge_relation list" where
  "relations_to_page st s after limit = fst (relations_to_page_with_more st s after limit)"

end
