(* ===== verification/Expressions.thy ===== *)
theory Expressions
  imports Knowledge
begin

text \<open>
  Rule conditions (\<open>src/crates/termivar-scanner/src/rules/expression.rs\<close> and the error type of
  \<open>rules.rs\<close>): the expression tree, its constructors and wire validation, and the evaluation that
  returns an explainable trace. The label of a trace node is kept as the data its text is formatted
  from. The properties relate the trace to a reference semantics of truth and of support.
\<close>

section \<open>Errors\<close>

datatype rule_engine_error =
    RuleEmptyValue string
  | EmptyExpression string
  | EmptyCalibrations
  | InvalidAggregationLimit
  | VerifierOnlyState hypothesis_state
  | RuleIdentityConflict string
  | MissingCalibratedEvidence string
  | AmbiguousEvidenceCalibration string evidence_id
  | RuleOntology ontology_error
  | RuleReasoning reasoning_error
  | RuleKnowledge knowledge_base_error
  | StaleSnapshotRetriesExhausted u8

type_synonym 'a rule_res = "('a, rule_engine_error) res"

definition rule_non_empty :: "string \<Rightarrow> string \<Rightarrow> string rule_res" where
  "rule_non_empty v field = (if blank v then Err (RuleEmptyValue field) else Ok v)"

section \<open>Expressions\<close>

datatype 'a required_nullable =
  RequiredNullable (rn_value: "'a option") (rn_present: bool)

definition rn_from :: "'a option \<Rightarrow> 'a required_nullable" where
  "rn_from v = RequiredNullable v True"

definition rn_default :: "'a required_nullable" where
  "rn_default = RequiredNullable None False"

datatype knowledge_layer = EvidenceLayer | FactLayer | HypothesisLayer

datatype expression =
    All "expression list"
  | Any "expression list"
  | Not expression
  | Claim knowledge_layer knowledge_predicate "evidence_value required_nullable"
  | TextContains knowledge_layer knowledge_predicate string bool
  | TextListContainsExact knowledge_layer knowledge_predicate string
  | OntologyRelation concept_id relation_type_id concept_id

definition expression_all :: "expression list \<Rightarrow> expression rule_res" where
  "expression_all es = (if es = [] then Err (EmptyExpression ''all'') else Ok (All es))"

definition expression_any :: "expression list \<Rightarrow> expression rule_res" where
  "expression_any es = (if es = [] then Err (EmptyExpression ''any'') else Ok (Any es))"

definition expression_negate :: "expression \<Rightarrow> expression" where
  "expression_negate e = Not e"

definition expression_equals ::
  "knowledge_layer \<Rightarrow> knowledge_predicate \<Rightarrow> evidence_value \<Rightarrow> expression" where
  "expression_equals layer p v = Claim layer p (rn_from (Some v))"

definition expression_exists :: "knowledge_layer \<Rightarrow> knowledge_predicate \<Rightarrow> expression" where
  "expression_exists layer p = Claim layer p (rn_from None)"

definition expression_text_contains ::
  "knowledge_layer \<Rightarrow> knowledge_predicate \<Rightarrow> string \<Rightarrow> expression rule_res" where
  "expression_text_contains layer p needle =
     and_then (rule_non_empty needle ''text-match needle'') (\<lambda>n. Ok (TextContains layer p n False))"

definition expression_text_contains_ci ::
  "knowledge_layer \<Rightarrow> knowledge_predicate \<Rightarrow> string \<Rightarrow> expression rule_res" where
  "expression_text_contains_ci layer p needle =
     and_then (rule_non_empty needle ''text-match needle'') (\<lambda>n. Ok (TextContains layer p n True))"

definition expression_text_list_contains_exact ::
  "knowledge_layer \<Rightarrow> knowledge_predicate \<Rightarrow> string \<Rightarrow> expression rule_res" where
  "expression_text_list_contains_exact layer p v =
     and_then (rule_non_empty v ''text-list exact value'') (\<lambda>n. Ok (TextListContainsExact layer p n))"

definition expression_ontology_relation ::
  "concept_id \<Rightarrow> relation_type_id \<Rightarrow> concept_id \<Rightarrow> expression" where
  "expression_ontology_relation a r b = OntologyRelation a r b"

fun uses_only_evidence :: "expression \<Rightarrow> bool" where
  "uses_only_evidence (All es) = list_all uses_only_evidence es"
| "uses_only_evidence (Any es) = list_all uses_only_evidence es"
| "uses_only_evidence (Not e) = uses_only_evidence e"
| "uses_only_evidence (Claim layer _ _) = (layer = EvidenceLayer)"
| "uses_only_evidence (TextContains layer _ _ _) = (layer = EvidenceLayer)"
| "uses_only_evidence (TextListContainsExact layer _ _) = (layer = EvidenceLayer)"
| "uses_only_evidence (OntologyRelation _ _ _) = False"

text \<open>
  Deserialisation of a node: the children have been decoded first, each by this same function; a
  value field that the document lacks is the default \<open>RequiredNullable\<close>.
\<close>

datatype expression_wire_error =
    WireEmptyExpression string
  | WireMissingClaimValue
  | WireEmptyValue string

lemma collect_res_cong [fundef_cong]:
  "xs = ys \<Longrightarrow> (\<And>x. x \<in> set ys \<Longrightarrow> f x = g x) \<Longrightarrow> collect_res f xs = collect_res g ys"
  by (induction xs arbitrary: ys) auto

fun expression_from_wire :: "expression \<Rightarrow> (expression, expression_wire_error) res" where
  "expression_from_wire (All es) =
     and_then (collect_res expression_from_wire es) (\<lambda>cs.
       if cs = [] then Err (WireEmptyExpression ''all'') else Ok (All cs))"
| "expression_from_wire (Any es) =
     and_then (collect_res expression_from_wire es) (\<lambda>cs.
       if cs = [] then Err (WireEmptyExpression ''any'') else Ok (Any cs))"
| "expression_from_wire (Not e) = and_then (expression_from_wire e) (\<lambda>c. Ok (Not c))"
| "expression_from_wire (Claim layer p v) =
     (if rn_present v then Ok (Claim layer p v) else Err WireMissingClaimValue)"
| "expression_from_wire (TextContains layer p needle ci) =
     (if blank needle then Err (WireEmptyValue ''text-match needle'')
      else Ok (TextContains layer p needle ci))"
| "expression_from_wire (TextListContainsExact layer p v) =
     (if blank v then Err (WireEmptyValue ''text-list exact value'')
      else Ok (TextListContainsExact layer p v))"
| "expression_from_wire (OntologyRelation a r b) = Ok (OntologyRelation a r b)"

section \<open>Evaluation\<close>

fun evidence_value_texts :: "evidence_value \<Rightarrow> string list" where
  "evidence_value_texts (Text t) = [t]"
| "evidence_value_texts (TextList ts) = ts"
| "evidence_value_texts _ = []"

definition text_contains :: "string \<Rightarrow> string \<Rightarrow> bool \<Rightarrow> bool" where
  "text_contains v needle ci =
     (if ci then contains (to_ascii_lowercase v) (to_ascii_lowercase needle) else contains v needle)"

fun text_list_contains_exact :: "evidence_value \<Rightarrow> string \<Rightarrow> bool" where
  "text_list_contains_exact (TextList ts) target = list_ex (\<lambda>t. t = target) ts"
| "text_list_contains_exact _ target = False"

datatype trace_label =
    LabelAll | LabelAny | LabelNot
  | LabelExists knowledge_layer string
  | LabelEquals knowledge_layer string evidence_value
  | LabelContains knowledge_layer string bool string
  | LabelListContainsExact knowledge_layer string string
  | LabelOntology concept_id relation_type_id concept_id

datatype expression_trace =
  ExpressionTrace (tr_label: trace_label) (tr_matched: bool) (tr_evidence_ids: "evidence_id list")
    (tr_children: "expression_trace list")

text \<open>
  The records of a layer that satisfy a value test, as the source's three leaf evaluations compute
  them: whether one matches, and the evidence the matches rest on.
\<close>

definition match_layer ::
  "knowledge_layer \<Rightarrow> knowledge_predicate \<Rightarrow> (evidence_value \<Rightarrow> bool) \<Rightarrow> knowledge_snapshot \<Rightarrow>
   bool \<times> evidence_id list" where
  "match_layer layer p test sn =
     (case layer of
        EvidenceLayer \<Rightarrow>
          (let ms = filter (\<lambda>e. e_predicate e = p \<and> test (e_value e)) (sn_evidence sn)
           in (ms \<noteq> [], bset_of_list (map e_id ms)))
      | FactLayer \<Rightarrow>
          (let ms = filter (\<lambda>f. f_predicate f = p \<and> test (f_value f)) (sn_facts sn)
           in (ms \<noteq> [], bset_of_list (concat (map f_evidence_ids ms))))
      | HypothesisLayer \<Rightarrow>
          (let ms = filter (\<lambda>h. h_predicate h = p \<and> test (h_value h)) (sn_hypotheses sn)
           in (ms \<noteq> [],
               bset_of_list (concat (map (\<lambda>h. map be_evidence_id (bb_evidence (h_belief h))) ms)))))"

definition evaluate_claim ::
  "knowledge_layer \<Rightarrow> knowledge_predicate \<Rightarrow> evidence_value option \<Rightarrow> knowledge_snapshot \<Rightarrow>
   expression_trace" where
  "evaluate_claim layer p v sn =
     (let (matched, ids) = match_layer layer p (\<lambda>x. case v of None \<Rightarrow> True | Some w \<Rightarrow> x = w) sn
      in ExpressionTrace
           (case v of None \<Rightarrow> LabelExists layer (dotted p) | Some w \<Rightarrow> LabelEquals layer (dotted p) w)
           matched ids [])"

definition evaluate_text_contains ::
  "knowledge_layer \<Rightarrow> knowledge_predicate \<Rightarrow> string \<Rightarrow> bool \<Rightarrow> knowledge_snapshot \<Rightarrow> expression_trace" where
  "evaluate_text_contains layer p needle ci sn =
     (let (matched, ids) =
            match_layer layer p (\<lambda>x. list_ex (\<lambda>t. text_contains t needle ci) (evidence_value_texts x)) sn
      in ExpressionTrace (LabelContains layer (dotted p) ci needle) matched ids [])"

definition evaluate_text_list_contains_exact ::
  "knowledge_layer \<Rightarrow> knowledge_predicate \<Rightarrow> string \<Rightarrow> knowledge_snapshot \<Rightarrow> expression_trace" where
  "evaluate_text_list_contains_exact layer p v sn =
     (let (matched, ids) = match_layer layer p (\<lambda>x. text_list_contains_exact x v) sn
      in ExpressionTrace (LabelListContainsExact layer (dotted p) v) matched ids [])"

definition collect_trace_evidence :: "expression_trace list \<Rightarrow> evidence_id list" where
  "collect_trace_evidence cs = bset_of_list (concat (map tr_evidence_ids cs))"

fun evaluate_node :: "knowledge_snapshot \<Rightarrow> expression \<Rightarrow> expression_trace rule_res" where
  "evaluate_node sn (All es) =
     and_then (collect_res (evaluate_node sn) es) (\<lambda>children.
       (let matched = list_all tr_matched children
        in Ok (ExpressionTrace LabelAll matched
                (if matched then collect_trace_evidence children else []) children)))"
| "evaluate_node sn (Any es) =
     and_then (collect_res (evaluate_node sn) es) (\<lambda>children.
       Ok (ExpressionTrace LabelAny (list_ex tr_matched children)
             (bset_of_list (concat (map tr_evidence_ids (filter tr_matched children)))) children))"
| "evaluate_node sn (Not e) =
     and_then (evaluate_node sn e) (\<lambda>child.
       Ok (ExpressionTrace LabelNot (\<not> tr_matched child) [] [child]))"
| "evaluate_node sn (Claim layer p v) = Ok (evaluate_claim layer p (rn_value v) sn)"
| "evaluate_node sn (TextContains layer p needle ci) = Ok (evaluate_text_contains layer p needle ci sn)"
| "evaluate_node sn (TextListContainsExact layer p v) =
     Ok (evaluate_text_list_contains_exact layer p v sn)"
| "evaluate_node sn (OntologyRelation a r b) =
     and_then (map_err RuleOntology (is_related (sn_ontology sn) a r b)) (\<lambda>matched.
       Ok (ExpressionTrace (LabelOntology a r b) matched [] []))"

section \<open>Reference semantics\<close>

text \<open>The records of a layer, each with its claim and the evidence it rests on.\<close>

fun layer_records ::
  "knowledge_layer \<Rightarrow> knowledge_snapshot \<Rightarrow>
   (knowledge_predicate \<times> evidence_value \<times> evidence_id set) set" where
  "layer_records EvidenceLayer sn = (\<lambda>e. (e_predicate e, e_value e, {e_id e})) ` set (sn_evidence sn)"
| "layer_records FactLayer sn = (\<lambda>f. (f_predicate f, f_value f, set (f_evidence_ids f))) ` set (sn_facts sn)"
| "layer_records HypothesisLayer sn =
     (\<lambda>h. (h_predicate h, h_value h, be_evidence_id ` set (bb_evidence (h_belief h)))) `
       set (sn_hypotheses sn)"

definition matching_ids ::
  "knowledge_layer \<Rightarrow> knowledge_predicate \<Rightarrow> (evidence_value \<Rightarrow> bool) \<Rightarrow> knowledge_snapshot \<Rightarrow>
   evidence_id set set" where
  "matching_ids layer p test sn = {ids. \<exists>v. (p, v, ids) \<in> layer_records layer sn \<and> test v}"

definition occurs_in :: "string \<Rightarrow> string \<Rightarrow> bool" where
  "occurs_in needle t \<longleftrightarrow> (\<exists>a b. t = a @ needle @ b)"

fun value_test :: "expression \<Rightarrow> evidence_value \<Rightarrow> bool" where
  "value_test (Claim _ _ v) x = (rn_value v = None \<or> rn_value v = Some x)"
| "value_test (TextContains _ _ needle ci) x =
     (\<exists>t \<in> set (evidence_value_texts x).
        if ci then occurs_in (to_ascii_lowercase needle) (to_ascii_lowercase t) else occurs_in needle t)"
| "value_test (TextListContainsExact _ _ v) x = (\<exists>ts. x = TextList ts \<and> v \<in> set ts)"
| "value_test _ x = False"

fun holds :: "knowledge_snapshot \<Rightarrow> expression \<Rightarrow> bool" where
  "holds sn (All es) = (\<forall>e \<in> set es. holds sn e)"
| "holds sn (Any es) = (\<exists>e \<in> set es. holds sn e)"
| "holds sn (Not e) = (\<not> holds sn e)"
| "holds sn (Claim layer p v) = (matching_ids layer p (value_test (Claim layer p v)) sn \<noteq> {})"
| "holds sn (TextContains layer p n ci) =
     (matching_ids layer p (value_test (TextContains layer p n ci)) sn \<noteq> {})"
| "holds sn (TextListContainsExact layer p v) =
     (matching_ids layer p (value_test (TextListContainsExact layer p v)) sn \<noteq> {})"
| "holds sn (OntologyRelation a r b) = (is_related (sn_ontology sn) a r b = Ok True)"

fun support :: "knowledge_snapshot \<Rightarrow> expression \<Rightarrow> evidence_id set" where
  "support sn (All es) = (if \<forall>e \<in> set es. holds sn e then (\<Union>e \<in> set es. support sn e) else {})"
| "support sn (Any es) = (\<Union>e \<in> {e \<in> set es. holds sn e}. support sn e)"
| "support sn (Not e) = {}"
| "support sn (Claim layer p v) = \<Union> (matching_ids layer p (value_test (Claim layer p v)) sn)"
| "support sn (TextContains layer p n ci) =
     \<Union> (matching_ids layer p (value_test (TextContains layer p n ci)) sn)"
| "support sn (TextListContainsExact layer p v) =
     \<Union> (matching_ids layer p (value_test (TextListContainsExact layer p v)) sn)"
| "support sn (OntologyRelation a r b) = {}"

fun ontology_atoms :: "expression \<Rightarrow> (concept_id \<times> relation_type_id \<times> concept_id) set" where
  "ontology_atoms (All es) = (\<Union>e \<in> set es. ontology_atoms e)"
| "ontology_atoms (Any es) = (\<Union>e \<in> set es. ontology_atoms e)"
| "ontology_atoms (Not e) = ontology_atoms e"
| "ontology_atoms (OntologyRelation a r b) = {(a, r, b)}"
| "ontology_atoms _ = {}"

section \<open>Evaluation agrees with the semantics\<close>

lemma matching_image:
  "{ids. \<exists>v. (p, v, ids) \<in> (\<lambda>x. (pr x, val x, f x)) ` A \<and> test v} = f ` {x \<in> A. pr x = p \<and> test (val x)}"
  by force

lemma matching_ids_layers:
  "matching_ids EvidenceLayer p test sn =
     (\<lambda>e. {e_id e}) ` set (filter (\<lambda>e. e_predicate e = p \<and> test (e_value e)) (sn_evidence sn))"
  "matching_ids FactLayer p test sn =
     (\<lambda>f. set (f_evidence_ids f)) ` set (filter (\<lambda>f. f_predicate f = p \<and> test (f_value f)) (sn_facts sn))"
  "matching_ids HypothesisLayer p test sn =
     (\<lambda>h. be_evidence_id ` set (bb_evidence (h_belief h))) `
       set (filter (\<lambda>h. h_predicate h = p \<and> test (h_value h)) (sn_hypotheses sn))"
  unfolding matching_ids_def layer_records.simps set_filter by (rule matching_image)+

lemma match_layer_spec:
  shows "fst (match_layer layer p test sn) \<longleftrightarrow> matching_ids layer p test sn \<noteq> {}"
    and "set (snd (match_layer layer p test sn)) = \<Union> (matching_ids layer p test sn)"
    and "bset_ok (snd (match_layer layer p test sn))"
proof -
  show "fst (match_layer layer p test sn) \<longleftrightarrow> matching_ids layer p test sn \<noteq> {}"
    by (cases layer) (auto simp: match_layer_def matching_ids_layers Let_def filter_empty_conv)
  show "set (snd (match_layer layer p test sn)) = \<Union> (matching_ids layer p test sn)"
    by (cases layer) (auto simp: match_layer_def matching_ids_layers Let_def)
  show "bset_ok (snd (match_layer layer p test sn))"
    by (cases layer) (simp_all add: match_layer_def Let_def)
qed

definition trace_ok :: "knowledge_snapshot \<Rightarrow> expression \<Rightarrow> expression_trace \<Rightarrow> bool" where
  "trace_ok sn e t \<longleftrightarrow>
     tr_matched t = holds sn e \<and> set (tr_evidence_ids t) = support sn e \<and> bset_ok (tr_evidence_ids t)"

lemma text_contains_iff:
  "text_contains t needle ci \<longleftrightarrow>
     (if ci then occurs_in (to_ascii_lowercase needle) (to_ascii_lowercase t) else occurs_in needle t)"
  by (simp add: text_contains_def contains_iff occurs_in_def)

lemma text_list_contains_iff:
  "text_list_contains_exact x v \<longleftrightarrow> (\<exists>ts. x = TextList ts \<and> v \<in> set ts)"
  by (cases x) (auto simp: list_ex_iff)

lemma trace_ok_leaves:
  "trace_ok sn (Claim layer p v) (evaluate_claim layer p (rn_value v) sn)"
  "trace_ok sn (TextContains layer p n ci) (evaluate_text_contains layer p n ci sn)"
  "trace_ok sn (TextListContainsExact layer p w) (evaluate_text_list_contains_exact layer p w sn)"
proof -
  have "(\<lambda>x. case rn_value v of None \<Rightarrow> True | Some w \<Rightarrow> x = w) = value_test (Claim layer p v)"
    by (auto simp: fun_eq_iff split: option.split)
  then show "trace_ok sn (Claim layer p v) (evaluate_claim layer p (rn_value v) sn)"
    using match_layer_spec [of layer p "value_test (Claim layer p v)" sn]
    by (cases "match_layer layer p (value_test (Claim layer p v)) sn") (simp add: trace_ok_def evaluate_claim_def)
  have "(\<lambda>x. list_ex (\<lambda>t. text_contains t n ci) (evidence_value_texts x)) =
      value_test (TextContains layer p n ci)"
    by (auto simp: fun_eq_iff list_ex_iff text_contains_iff)
  then show "trace_ok sn (TextContains layer p n ci) (evaluate_text_contains layer p n ci sn)"
    using match_layer_spec [of layer p "value_test (TextContains layer p n ci)" sn]
    by (cases "match_layer layer p (value_test (TextContains layer p n ci)) sn") (simp add: trace_ok_def evaluate_text_contains_def)
  have "(\<lambda>x. text_list_contains_exact x w) = value_test (TextListContainsExact layer p w)"
    by (simp add: fun_eq_iff text_list_contains_iff)
  then show "trace_ok sn (TextListContainsExact layer p w) (evaluate_text_list_contains_exact layer p w sn)"
    using match_layer_spec [of layer p "value_test (TextListContainsExact layer p w)" sn]
    by (cases "match_layer layer p (value_test (TextListContainsExact layer p w)) sn") (simp add: trace_ok_def evaluate_text_list_contains_exact_def)
qed

lemma trace_ok_children:
  assumes "list_all2 (trace_ok sn) es ts"
  shows "list_all tr_matched ts \<longleftrightarrow> (\<forall>e \<in> set es. holds sn e)"
    and "list_ex tr_matched ts \<longleftrightarrow> (\<exists>e \<in> set es. holds sn e)"
    and "(\<Union>t \<in> set ts. set (tr_evidence_ids t)) = (\<Union>e \<in> set es. support sn e)"
    and "(\<Union>t \<in> set (filter tr_matched ts). set (tr_evidence_ids t)) =
      (\<Union>e \<in> {e \<in> set es. holds sn e}. support sn e)"
  using assms by (induction rule: list_all2_induct) (auto simp: trace_ok_def)

lemma evaluate_node_trace_ok: "evaluate_node sn e = Ok t \<Longrightarrow> trace_ok sn e t"
proof (induction sn e arbitrary: t rule: evaluate_node.induct)
  case (1 sn es)
  then obtain ts where ts: "collect_res (evaluate_node sn) es = Ok ts"
    and t: "t = ExpressionTrace LabelAll (list_all tr_matched ts)
      (if list_all tr_matched ts then collect_trace_evidence ts else []) ts"
    by (auto simp: res_simps Let_def)
  have "list_all2 (trace_ok sn) es ts"
    using ts "1.IH" by (auto simp: collect_res_Ok_iff list_all2_conv_all_nth)
  from trace_ok_children [OF this] show ?case
    by (simp add: trace_ok_def t collect_trace_evidence_def) (simp add: UNION_eq)
next
  case (2 sn es)
  then obtain ts where ts: "collect_res (evaluate_node sn) es = Ok ts"
    and t: "t = ExpressionTrace LabelAny (list_ex tr_matched ts)
      (bset_of_list (concat (map tr_evidence_ids (filter tr_matched ts)))) ts"
    by (auto simp: res_simps)
  have "list_all2 (trace_ok sn) es ts"
    using ts "2.IH" by (auto simp: collect_res_Ok_iff list_all2_conv_all_nth)
  from trace_ok_children [OF this] show ?case by (simp add: trace_ok_def t)
next
  case (3 sn e)
  then show ?case by (auto simp: res_simps trace_ok_def)
next
  case (7 sn a r b)
  then show ?case by (auto simp: res_simps trace_ok_def)
qed (simp_all add: trace_ok_leaves)

lemma is_related_not_Panic: "is_related o1 a r b \<noteq> Panic"
  by (auto simp: is_related_unknown split: option.splits)

lemma collect_res_defined:
  "\<forall>x \<in> set xs. f x \<noteq> Panic \<Longrightarrow>
   collect_res f xs \<noteq> Panic \<and> (is_ok (collect_res f xs) \<longleftrightarrow> (\<forall>x \<in> set xs. is_ok (f x)))"
proof (induction xs)
  case (Cons x xs)
  then show ?case by (cases "f x"; cases "collect_res f xs") auto
qed simp

lemma evaluate_node_defined:
  "evaluate_node sn e \<noteq> Panic \<and>
   (is_ok (evaluate_node sn e) \<longleftrightarrow>
      (\<forall>(a, r, b) \<in> ontology_atoms e. is_ok (is_related (sn_ontology sn) a r b)))"
proof (induction sn e rule: evaluate_node.induct)
  case (1 sn es)
  then have "\<forall>e \<in> set es. evaluate_node sn e \<noteq> Panic" by blast
  from collect_res_defined [OF this] 1 show ?case
    by (cases "collect_res (evaluate_node sn) es") (auto simp: Let_def)
next
  case (2 sn es)
  then have "\<forall>e \<in> set es. evaluate_node sn e \<noteq> Panic" by blast
  from collect_res_defined [OF this] 2 show ?case
    by (cases "collect_res (evaluate_node sn) es") auto
next
  case (3 sn e)
  then show ?case by (cases "evaluate_node sn e") auto
next
  case (7 sn a r b)
  then show ?case
    using is_related_not_Panic [of "sn_ontology sn" a r b]
    by (cases "is_related (sn_ontology sn) a r b") auto
qed simp_all

section \<open>Properties\<close>

text \<open>
  C29. The evaluation of a condition is its semantics: the root matches exactly when the condition
  holds of the snapshot, its evidence is exactly the ordered set of observations the match rests
  on, negated branches contribute none, and evaluation fails, never with a panic, exactly when the
  ontology does not know a name that the condition uses.
\<close>

theorem evaluate_node_exact:
  "evaluate_node sn e \<noteq> Panic \<and>
   (is_ok (evaluate_node sn e) \<longleftrightarrow>
      (\<forall>(a, r, b) \<in> ontology_atoms e. is_ok (is_related (sn_ontology sn) a r b))) \<and>
   (\<forall>t. evaluate_node sn e = Ok t \<longrightarrow>
      tr_matched t = holds sn e \<and> set (tr_evidence_ids t) = support sn e \<and> bset_ok (tr_evidence_ids t))"
  using evaluate_node_defined [of sn e] evaluate_node_trace_ok [of sn e] by (simp add: trace_ok_def)

definition sample_snapshot :: knowledge_snapshot where
  "sample_snapshot =
     \<lparr>sn_authority = 0, sn_subject = ''s'', sn_subject_revision = 1, sn_ontology_revision = 0,
      sn_ontology = ontology_new, sn_evidence = [sample_evidence ''a'' Direct], sn_facts = [],
      sn_hypotheses = []\<rparr>"

definition sample_condition :: expression where
  "sample_condition =
     All [expression_equals EvidenceLayer \<lparr>kp_namespace = ''n'', kp_name = ''p''\<rparr> (Boolean True),
          Not (expression_exists FactLayer \<lparr>kp_namespace = ''n'', kp_name = ''p''\<rparr>)]"

theorem evaluate_node_exact_witness:
  "holds sample_snapshot sample_condition \<and> support sample_snapshot sample_condition = {''a''}"
proof -
  obtain t where t: "evaluate_node sample_snapshot sample_condition = Ok t"
    and m: "tr_matched t" and i: "tr_evidence_ids t = [''a'']"
  proof
    show "evaluate_node sample_snapshot sample_condition =
        Ok (case evaluate_node sample_snapshot sample_condition of Ok t \<Rightarrow> t)" by code_simp
    show "tr_matched (case evaluate_node sample_snapshot sample_condition of Ok t \<Rightarrow> t)" by code_simp
    show "tr_evidence_ids (case evaluate_node sample_snapshot sample_condition of Ok t \<Rightarrow> t) = [''a'']"
      by code_simp
  qed
  then show ?thesis using evaluate_node_exact [of sample_snapshot sample_condition] by auto
qed

inductive expression_built :: "expression \<Rightarrow> bool" where
  "list_all expression_built es \<Longrightarrow> expression_all es = Ok e \<Longrightarrow> expression_built e"
| "list_all expression_built es \<Longrightarrow> expression_any es = Ok e \<Longrightarrow> expression_built e"
| "expression_built e \<Longrightarrow> expression_built (expression_negate e)"
| "expression_built (expression_equals layer p v)"
| "expression_built (expression_exists layer p)"
| "expression_text_contains layer p n = Ok e \<Longrightarrow> expression_built e"
| "expression_text_contains_ci layer p n = Ok e \<Longrightarrow> expression_built e"
| "expression_text_list_contains_exact layer p n = Ok e \<Longrightarrow> expression_built e"
| "expression_built (expression_ontology_relation a r b)"

lemma from_wire_Ok: "expression_from_wire e = Ok e' \<Longrightarrow> e' = e \<and> expression_built e"
proof (induction e arbitrary: e' rule: expression_from_wire.induct)
  case (1 es)
  then obtain cs where cs: "collect_res expression_from_wire es = Ok cs" "cs \<noteq> []" "e' = All cs"
    by (auto simp: res_simps split: if_splits)
  then have "cs = es \<and> list_all expression_built es"
    using "1.IH" by (auto simp: collect_res_Ok_iff list_all2_conv_all_nth list_all_length intro: nth_equalityI)
  with cs show ?case using expression_built.intros(1) [of es "All es"] by (simp add: expression_all_def)
next
  case (2 es)
  then obtain cs where cs: "collect_res expression_from_wire es = Ok cs" "cs \<noteq> []" "e' = Any cs"
    by (auto simp: res_simps split: if_splits)
  then have "cs = es \<and> list_all expression_built es"
    using "2.IH" by (auto simp: collect_res_Ok_iff list_all2_conv_all_nth list_all_length intro: nth_equalityI)
  with cs show ?case using expression_built.intros(2) [of es "Any es"] by (simp add: expression_any_def)
next
  case (3 e)
  then show ?case using expression_built.intros(3) by (auto simp: res_simps expression_negate_def)
next
  case (4 layer p v)
  then obtain w where "v = RequiredNullable w True" by (cases v) (auto split: if_splits)
  with 4 show ?case
    using expression_built.intros(4) [of layer p] expression_built.intros(5) [of layer p]
    by (cases w) (auto simp: expression_equals_def expression_exists_def rn_from_def)
next
  case (5 layer p n ci)
  then show ?case
    using expression_built.intros(6) [of layer p n] expression_built.intros(7) [of layer p n]
    by (cases ci) (auto simp: expression_text_contains_def expression_text_contains_ci_def
        rule_non_empty_def split: if_splits)
next
  case (6 layer p v)
  then show ?case using expression_built.intros(8) [of layer p v]
    by (auto simp: expression_text_list_contains_exact_def rule_non_empty_def split: if_splits)
next
  case (7 a r b)
  then show ?case using expression_built.intros(9) [of a r b]
    by (simp add: expression_ontology_relation_def)
qed

lemma collect_res_id: "list_all (\<lambda>x. f x = Ok x) xs \<Longrightarrow> collect_res f xs = Ok xs"
  by (induction xs) auto

lemma built_from_wire: "expression_built e \<Longrightarrow> expression_from_wire e = Ok e"
proof (induction rule: expression_built.induct)
  case (1 es e)
  then have "list_all (\<lambda>x. expression_from_wire x = Ok x) es" by (auto simp: list_all_iff)
  from collect_res_id [OF this] 1 show ?case by (auto simp: expression_all_def split: if_splits)
next
  case (2 es e)
  then have "list_all (\<lambda>x. expression_from_wire x = Ok x) es" by (auto simp: list_all_iff)
  from collect_res_id [OF this] 2 show ?case by (auto simp: expression_any_def split: if_splits)
qed (auto simp: expression_negate_def expression_equals_def expression_exists_def rn_from_def
    expression_text_contains_def expression_text_contains_ci_def expression_text_list_contains_exact_def
    expression_ontology_relation_def rule_non_empty_def split: if_splits)

text \<open>
  Decoding a condition accepts exactly the expressions the constructors can build and returns
  them unchanged: no document, at any depth, yields an empty group, a blank text matcher or a claim
  whose value field was left out.
\<close>

theorem expression_from_wire_exact:
  "expression_from_wire e = Ok e' \<longleftrightarrow> e' = e \<and> expression_built e"
  using from_wire_Ok [of e e'] built_from_wire [of e] by blast

end
