(* ===== verification/Knowledge_Laws.thy ===== *)
theory Knowledge_Laws
  imports Knowledge Machine
begin

text \<open>
  The laws of the knowledge base: every write keeps the secondary indexes equal to what the primary
  records say and only moves knowledge forward, so that an unchanged revision certifies an
  unchanged view of a subject. Both are proved for the write steps and extended to runs by the
  \<open>forward_machine\<close> contract.
\<close>

section \<open>Indexes\<close>

definition index_of ::
  "('k \<rightharpoonup> 'i::linorder list) \<Rightarrow> ('i \<rightharpoonup> 'v) \<Rightarrow> ('v \<Rightarrow> 'k) \<Rightarrow> bool" where
  "index_of idx recs proj \<longleftrightarrow>
     (\<forall>k. bset_ok (index_ids idx k) \<and>
        (\<forall>i. i \<in> set (index_ids idx k) \<longleftrightarrow> (\<exists>v. recs i = Some v \<and> proj v = k)))"

definition keyed :: "('i \<rightharpoonup> 'v) \<Rightarrow> ('v \<Rightarrow> 'i) \<Rightarrow> bool" where
  "keyed recs ident \<longleftrightarrow> (\<forall>i v. recs i = Some v \<longrightarrow> ident v = i)"

lemma index_of_empty: "index_of Map.empty Map.empty proj"
  by (simp add: index_of_def index_ids_def)

lemma index_of_insert:
  assumes "index_of idx recs proj" and "recs i = None"
  shows "index_of (index idx (proj v) i) (recs(i \<mapsto> v)) proj"
  using assms by (auto simp: index_of_def bset_ok_insert)

lemma index_of_update:
  assumes "index_of idx recs proj" and "recs i = Some u" and "proj v = proj u"
  shows "index_of idx (recs(i \<mapsto> v)) proj"
  using assms by (auto simp: index_of_def)

lemma keyed_insert: "keyed recs ident \<Longrightarrow> ident v = i \<Longrightarrow> keyed (recs(i \<mapsto> v)) ident"
  by (simp add: keyed_def)

text \<open>The records of one key, and how an index read yields exactly them in identity order.\<close>

definition restrict_by :: "('i \<rightharpoonup> 'v) \<Rightarrow> ('v \<Rightarrow> 'k) \<Rightarrow> 'k \<Rightarrow> ('i \<rightharpoonup> 'v)" where
  "restrict_by recs proj k i = (case recs i of None \<Rightarrow> None | Some v \<Rightarrow> if proj v = k then Some v else None)"

lemma restrict_by_Some: "restrict_by recs proj k i = Some v \<longleftrightarrow> recs i = Some v \<and> proj v = k"
  by (auto simp: restrict_by_def split: option.splits)

lemma collect_index_of:
  assumes "index_of idx recs proj"
  shows "set (collect_indexed (idx k) recs) = {v. \<exists>i. recs i = Some v \<and> proj v = k}"
  using assms by (auto simp: collect_indexed_eq set_map_filter index_of_def)

lemma map_filter_total: "\<forall>i \<in> set is. \<exists>v. f i = Some v \<Longrightarrow> List.map_filter f is = map (the \<circ> f) is"
  by (induction "is") (auto simp: List.map_filter_simps)

lemma map_filter_eqI: "\<forall>i \<in> set is. f i = g i \<Longrightarrow> List.map_filter f is = List.map_filter g is"
  by (induction "is") (auto simp: List.map_filter_simps split: option.split)

lemma collect_index_ids:
  assumes "index_of idx recs proj" and "keyed recs ident"
  shows "map ident (collect_indexed (idx k) recs) = index_ids idx k"
proof -
  have "\<forall>i \<in> set (index_ids idx k). \<exists>v. recs i = Some v" using assms(1) by (auto simp: index_of_def)
  then have "collect_indexed (idx k) recs = map (the \<circ> recs) (index_ids idx k)"
    by (simp add: collect_indexed_eq map_filter_total)
  moreover have "ident (the (recs i)) = i" if "i \<in> set (index_ids idx k)" for i
    using that assms by (force simp: index_of_def keyed_def)
  ultimately show ?thesis by (simp add: map_idI)
qed

lemma collect_index_cong:
  assumes "index_of idx recs proj" and "index_of idx' recs' proj"
    and "restrict_by recs proj k = restrict_by recs' proj k"
  shows "collect_indexed (idx k) recs = collect_indexed (idx' k) recs'"
proof -
  have iff: "recs i = Some v \<and> proj v = k \<longleftrightarrow> recs' i = Some v \<and> proj v = k" for i v
    using fun_cong [OF assms(3), of i] by (metis restrict_by_Some)
  have "set (index_ids idx k) = set (index_ids idx' k)"
    using assms(1,2) iff by (auto simp: index_of_def)
  then have ids: "index_ids idx k = index_ids idx' k"
    using assms(1,2) by (auto simp: index_of_def intro: strict_sorted_equal)
  have "recs i = recs' i" if "i \<in> set (index_ids idx k)" for i
  proof -
    from that assms(1) obtain v where "recs i = Some v" "proj v = k" by (auto simp: index_of_def)
    with iff [of i v] show ?thesis by simp
  qed
  then have "List.map_filter recs (index_ids idx k) = List.map_filter recs' (index_ids idx k)"
    by (intro map_filter_eqI) auto
  then show ?thesis by (simp add: collect_indexed_eq ids)
qed

section \<open>Invariant\<close>

definition knowledge_wf :: "knowledge_state \<Rightarrow> bool" where
  "knowledge_wf st \<longleftrightarrow>
     keyed (ks_evidence st) e_id \<and> keyed (ks_facts st) f_id \<and> keyed (ks_hypotheses st) h_id \<and>
     keyed (ks_entities st) ke_id \<and> keyed (ks_relations st) kr_id \<and>
     index_of (evidence_by_subject st) (ks_evidence st) e_subject \<and>
     index_of (evidence_by_predicate st) (ks_evidence st) e_predicate \<and>
     index_of (facts_by_subject st) (ks_facts st) f_subject \<and>
     index_of (facts_by_predicate st) (ks_facts st) f_predicate \<and>
     index_of (hypotheses_by_subject st) (ks_hypotheses st) h_subject \<and>
     index_of (hypotheses_by_predicate st) (ks_hypotheses st) h_predicate \<and>
     index_of (relations_from_index st) (ks_relations st) kr_from \<and>
     index_of (relations_to_index st) (ks_relations st) kr_to"

lemma knowledge_wf_default: "knowledge_wf knowledge_state_default"
  by (simp add: knowledge_wf_def knowledge_state_default_def index_of_empty keyed_def)

text \<open>
  The forward order: revisions never decrease, an equal revision certifies equal records of the
  subject and an equal ontology, evidence and entities are permanent, and the claim of a fact or
  hypothesis and the graph identity of a relation never change.
\<close>

definition claims_kept :: "('i \<rightharpoonup> 'v) \<Rightarrow> ('i \<rightharpoonup> 'v) \<Rightarrow> ('v \<Rightarrow> 'c) \<Rightarrow> bool" where
  "claims_kept m m' claim \<longleftrightarrow> (\<forall>i v. m i = Some v \<longrightarrow> (\<exists>v'. m' i = Some v' \<and> claim v' = claim v))"

definition subject_view ::
  "knowledge_state \<Rightarrow> entity_id \<Rightarrow>
   (evidence_id \<rightharpoonup> evidence) \<times> (string \<rightharpoonup> fact) \<times> (string \<rightharpoonup> hypothesis)" where
  "subject_view st s =
     (restrict_by (ks_evidence st) e_subject s, restrict_by (ks_facts st) f_subject s,
      restrict_by (ks_hypotheses st) h_subject s)"

abbreviation fact_claim :: "fact \<Rightarrow> entity_id \<times> knowledge_predicate \<times> evidence_value" where
  "fact_claim f \<equiv> (f_subject f, f_predicate f, f_value f)"

abbreviation hypothesis_claim :: "hypothesis \<Rightarrow> entity_id \<times> knowledge_predicate \<times> evidence_value" where
  "hypothesis_claim h \<equiv> (h_subject h, h_predicate h, h_value h)"

abbreviation graph_identity :: "knowledge_relation \<Rightarrow> entity_id \<times> entity_id \<times> relation_kind" where
  "graph_identity r \<equiv> (kr_from r, kr_to r, kr_kind r)"

definition knowledge_le :: "knowledge_state \<Rightarrow> knowledge_state \<Rightarrow> bool" where
  "knowledge_le st st' \<longleftrightarrow>
     (\<forall>s. subject_revision st s \<le> subject_revision st' s \<and>
        (subject_revision st' s = subject_revision st s \<longrightarrow> subject_view st' s = subject_view st s)) \<and>
     ks_ontology_revision st \<le> ks_ontology_revision st' \<and>
     (ks_ontology_revision st' = ks_ontology_revision st \<longrightarrow> ks_ontology st' = ks_ontology st) \<and>
     ks_evidence st \<subseteq>\<^sub>m ks_evidence st' \<and> ks_entities st \<subseteq>\<^sub>m ks_entities st' \<and>
     claims_kept (ks_facts st) (ks_facts st') fact_claim \<and>
     claims_kept (ks_hypotheses st) (ks_hypotheses st') hypothesis_claim \<and>
     claims_kept (ks_relations st) (ks_relations st') graph_identity"

lemma claims_kept_refl [simp]: "claims_kept m m claim"
  by (simp add: claims_kept_def)

lemma claims_kept_trans: "claims_kept m m' c \<Longrightarrow> claims_kept m' m'' c \<Longrightarrow> claims_kept m m'' c"
  unfolding claims_kept_def by metis

lemma claims_kept_insert: "m i = None \<Longrightarrow> claims_kept m (m(i \<mapsto> v)) claim"
  by (auto simp: claims_kept_def)

lemma claims_kept_update: "m i = Some u \<Longrightarrow> claim v = claim u \<Longrightarrow> claims_kept m (m(i \<mapsto> v)) claim"
  by (auto simp: claims_kept_def)

lemma knowledge_le_refl [simp]: "knowledge_le st st"
  by (simp add: knowledge_le_def)

lemma knowledge_le_trans:
  assumes "knowledge_le a b" and "knowledge_le b c"
  shows "knowledge_le a c"
proof -
  have "subject_revision a s \<le> subject_revision c s \<and>
      (subject_revision c s = subject_revision a s \<longrightarrow> subject_view c s = subject_view a s)" for s
    using assms unfolding knowledge_le_def by (metis order_trans order_antisym)
  moreover have "ks_ontology_revision a \<le> ks_ontology_revision c \<and>
      (ks_ontology_revision c = ks_ontology_revision a \<longrightarrow> ks_ontology c = ks_ontology a)"
    using assms unfolding knowledge_le_def by (metis order_trans order_antisym)
  moreover have "ks_evidence a \<subseteq>\<^sub>m ks_evidence c" "ks_entities a \<subseteq>\<^sub>m ks_entities c"
    using assms unfolding knowledge_le_def by (blast intro: map_le_trans)+
  moreover have "claims_kept (ks_facts a) (ks_facts c) fact_claim"
    "claims_kept (ks_hypotheses a) (ks_hypotheses c) hypothesis_claim"
    "claims_kept (ks_relations a) (ks_relations c) graph_identity"
    using assms unfolding knowledge_le_def by (blast intro: claims_kept_trans)+
  ultimately show ?thesis unfolding knowledge_le_def by blast
qed

text \<open>A write is good when it keeps the invariant and moves forward.\<close>

definition good :: "knowledge_state \<Rightarrow> knowledge_state \<Rightarrow> bool" where
  "good st st' \<longleftrightarrow> (knowledge_wf st \<longrightarrow> knowledge_wf st' \<and> knowledge_le st st')"

lemma good_refl [simp]: "good st st"
  by (simp add: good_def)

lemma good_trans: "good a b \<Longrightarrow> good b c \<Longrightarrow> good a c"
  by (auto simp: good_def intro: knowledge_le_trans)

section \<open>Single writes\<close>

lemma bump_subject_SomeE:
  assumes "bump_subject_revision st s = Some st'"
  obtains r where "st' = st\<lparr>subject_revisions := (subject_revisions st)(s \<mapsto> r)\<rparr>"
    and "subject_revision st s < r"
  using assms
  by (auto simp: bump_subject_revision_def checked_add_Some_iff word_less_nat_alt split: option.splits)

lemma bump_ontology_SomeE:
  assumes "bump_ontology_revision st = Some st'"
  obtains r where "st' = st\<lparr>ks_ontology_revision := r\<rparr>" and "ks_ontology_revision st < r"
  using assms
  by (auto simp: bump_ontology_revision_def checked_add_Some_iff word_less_nat_alt split: option.splits)

lemma restrict_by_insert:
  "m i = None \<Longrightarrow> proj v \<noteq> k \<Longrightarrow> restrict_by (m(i \<mapsto> v)) proj k = restrict_by m proj k"
  by (auto simp: restrict_by_def fun_eq_iff)

lemma restrict_by_update:
  "m i = Some u \<Longrightarrow> proj u = proj v \<Longrightarrow> proj v \<noteq> k \<Longrightarrow>
   restrict_by (m(i \<mapsto> v)) proj k = restrict_by m proj k"
  by (auto simp: restrict_by_def fun_eq_iff)

lemmas view_simps = subject_revision_def subject_view_def restrict_by_insert restrict_by_update

lemma knowledge_le_subjectI:
  assumes "subject_revision st s < subject_revision st' s"
    and "\<And>t. t \<noteq> s \<Longrightarrow> subject_revision st' t = subject_revision st t \<and> subject_view st' t = subject_view st t"
    and "ks_ontology_revision st' = ks_ontology_revision st" and "ks_ontology st' = ks_ontology st"
    and "ks_evidence st \<subseteq>\<^sub>m ks_evidence st'" and "ks_entities st' = ks_entities st"
    and "claims_kept (ks_facts st) (ks_facts st') fact_claim"
    and "claims_kept (ks_hypotheses st) (ks_hypotheses st') hypothesis_claim"
    and "claims_kept (ks_relations st) (ks_relations st') graph_identity"
  shows "knowledge_le st st'"
proof -
  have "subject_revision st t \<le> subject_revision st' t \<and>
      (subject_revision st' t = subject_revision st t \<longrightarrow> subject_view st' t = subject_view st t)" for t
    using assms(1,2) by (cases "t = s") auto
  with assms(3-) show ?thesis by (simp add: knowledge_le_def)
qed

lemma good_put_evidence:
  assumes fresh: "ks_evidence st (e_id e) = None" and put: "put_evidence e st = (Ok u, st')"
  shows "good st st'"
  unfolding good_def
proof
  assume wf: "knowledge_wf st"
  let ?ev = "(ks_evidence st)(e_id e \<mapsto> e)"
  obtain r where st': "st' = index_evidence e (st\<lparr>ks_evidence := ?ev,
      subject_revisions := (subject_revisions st)(e_subject e \<mapsto> r)\<rparr>)"
    and r: "subject_revision st (e_subject e) < r"
    using put by (auto simp: put_evidence_def Let_def subject_revision_def split: option.splits
        elim!: bump_subject_SomeE)
  have "knowledge_wf st'"
    using wf fresh unfolding st'
    by (auto simp: knowledge_wf_def index_evidence_def keyed_insert intro: index_of_insert)
  moreover have "knowledge_le st st'"
    by (rule knowledge_le_subjectI [where s = "e_subject e"])
      (use r fresh in \<open>auto simp: st' index_evidence_def view_simps map_le_def\<close>)
  ultimately show "knowledge_wf st' \<and> knowledge_le st st'" ..
qed

lemma good_index_derivation: "good st (index_derivation e st)"
  by (auto simp: good_def index_derivation_def knowledge_wf_def knowledge_le_def subject_revision_def
      subject_view_def split: option.splits)

lemma index_derivation_evidence [simp]:
  "ks_evidence (index_derivation e st) = ks_evidence st"
  by (simp add: index_derivation_def split: option.split)

lemma good_write_evidence:
  assumes "ks_evidence st (e_id e) = None" and "write_evidence e st = (Ok u, st')"
  shows "good st st'"
  using assms good_put_evidence [of "index_derivation e st" e u st'] good_index_derivation [of st e]
  by (auto simp: write_evidence_def intro: good_trans)

lemma good_upsert_fact:
  assumes "upsert_fact f st = (r, st')" and "r \<noteq> Panic"
  shows "good st st'"
  unfolding good_def
proof
  assume wf: "knowledge_wf st"
  consider (same) "st' = st"
    | (update) u q where "ks_facts st (f_id f) = Some u" "fact_claim u = fact_claim f"
      "st' = st\<lparr>ks_facts := (ks_facts st)(f_id f \<mapsto> f),
        subject_revisions := (subject_revisions st)(f_subject f \<mapsto> q)\<rparr>"
      "subject_revision st (f_subject f) < q"
    | (insert) q where "ks_facts st (f_id f) = None"
      "st' = st\<lparr>ks_facts := (ks_facts st)(f_id f \<mapsto> f),
        subject_revisions := (subject_revisions st)(f_subject f \<mapsto> q),
        facts_by_subject := index (facts_by_subject st) (f_subject f) (f_id f),
        facts_by_predicate := index (facts_by_predicate st) (f_predicate f) (f_id f)\<rparr>"
      "subject_revision st (f_subject f) < q"
    using assms by (auto simp: upsert_fact_def Let_def subject_revision_def split: option.splits
        if_splits elim!: bump_subject_SomeE)
  then show "knowledge_wf st' \<and> knowledge_le st st'"
  proof cases
    case same
    with wf show ?thesis by simp
  next
    case update
    then have "knowledge_wf st'"
      using wf by (auto simp: knowledge_wf_def keyed_insert intro: index_of_update)
    moreover have "knowledge_le st st'"
      by (rule knowledge_le_subjectI [where s = "f_subject f"])
        (use update in \<open>auto simp: view_simps claims_kept_update\<close>)
    ultimately show ?thesis ..
  next
    case insert
    then have "knowledge_wf st'"
      using wf by (auto simp: knowledge_wf_def keyed_insert intro: index_of_insert)
    moreover have "knowledge_le st st'"
      by (rule knowledge_le_subjectI [where s = "f_subject f"])
        (use insert in \<open>auto simp: view_simps claims_kept_insert\<close>)
    ultimately show ?thesis ..
  qed
qed

lemma preserve_terminal_claim [simp]:
  "h_id (preserve_terminal p t m h) = h_id h"
  "h_subject (preserve_terminal p t m h) = h_subject h"
  "h_predicate (preserve_terminal p t m h) = h_predicate h"
  "h_value (preserve_terminal p t m h) = h_value h"
  by (simp_all add: preserve_terminal_def split: option.split)

lemma good_put_hypothesis:
  assumes "h_id h = i" and "subject_revision st (h_subject h) < q"
  shows "ks_hypotheses st i = Some u \<Longrightarrow> hypothesis_claim u = hypothesis_claim h \<Longrightarrow>
      good st (st\<lparr>ks_hypotheses := (ks_hypotheses st)(i \<mapsto> h),
        subject_revisions := (subject_revisions st)(h_subject h \<mapsto> q)\<rparr>)"
    and "ks_hypotheses st i = None \<Longrightarrow>
      good st (st\<lparr>ks_hypotheses := (ks_hypotheses st)(i \<mapsto> h),
        subject_revisions := (subject_revisions st)(h_subject h \<mapsto> q),
        hypotheses_by_subject := index (hypotheses_by_subject st) (h_subject h) i,
        hypotheses_by_predicate := index (hypotheses_by_predicate st) (h_predicate h) i\<rparr>)"
proof -
  assume old: "ks_hypotheses st i = Some u" "hypothesis_claim u = hypothesis_claim h"
  let ?st = "st\<lparr>ks_hypotheses := (ks_hypotheses st)(i \<mapsto> h),
        subject_revisions := (subject_revisions st)(h_subject h \<mapsto> q)\<rparr>"
  have "knowledge_wf st \<Longrightarrow> knowledge_wf ?st"
    using old assms by (auto simp: knowledge_wf_def keyed_insert intro: index_of_update)
  moreover have "knowledge_le st ?st"
    by (rule knowledge_le_subjectI [where s = "h_subject h"])
      (use old assms in \<open>auto simp: view_simps claims_kept_update\<close>)
  ultimately show "good st ?st" by (simp add: good_def)
next
  assume new: "ks_hypotheses st i = None"
  let ?st = "st\<lparr>ks_hypotheses := (ks_hypotheses st)(i \<mapsto> h),
        subject_revisions := (subject_revisions st)(h_subject h \<mapsto> q),
        hypotheses_by_subject := index (hypotheses_by_subject st) (h_subject h) i,
        hypotheses_by_predicate := index (hypotheses_by_predicate st) (h_predicate h) i\<rparr>"
  have "knowledge_wf st \<Longrightarrow> knowledge_wf ?st"
    using new assms by (auto simp: knowledge_wf_def keyed_insert intro: index_of_insert)
  moreover have "knowledge_le st ?st"
    by (rule knowledge_le_subjectI [where s = "h_subject h"])
      (use new assms in \<open>auto simp: view_simps claims_kept_insert\<close>)
  ultimately show "good st ?st" by (simp add: good_def)
qed

lemma good_write_hypothesis:
  assumes "write_hypothesis p t h st = (Ok w, st')"
    and "\<And>x. ks_hypotheses st (h_id h) = Some x \<Longrightarrow> same_hypothesis_claim x h"
  shows "good st st'"
    and "st' = st \<and> ks_hypotheses st (h_id h) \<noteq> None \<or>
      (\<exists>k. ks_hypotheses st' = (ks_hypotheses st)(h_id h \<mapsto> k) \<and> hypothesis_claim k = hypothesis_claim h)"
proof -
  let ?h = "preserve_terminal p t (ks_hypotheses st) h"
  show "good st st'"
  proof (cases "ks_hypotheses st (h_id h)")
    case (Some x)
    then show ?thesis
      using assms good_put_hypothesis(1) [of ?h "h_id h" st _ x]
      by (auto simp: write_hypothesis_def Let_def same_hypothesis_claim_def subject_revision_def
          split: option.splits if_splits elim!: bump_subject_SomeE)
  next
    case None
    then show ?thesis
      using assms(1) good_put_hypothesis(2) [of ?h "h_id h" st]
      by (auto simp: write_hypothesis_def Let_def subject_revision_def
          split: option.splits elim!: bump_subject_SomeE)
  qed
  show "st' = st \<and> ks_hypotheses st (h_id h) \<noteq> None \<or>
      (\<exists>k. ks_hypotheses st' = (ks_hypotheses st)(h_id h \<mapsto> k) \<and> hypothesis_claim k = hypothesis_claim h)"
    using assms(1)
    by (auto simp: write_hypothesis_def Let_def split: option.splits if_splits
        elim!: bump_subject_SomeE)
qed

lemma write_hypothesis_not_Err: "write_hypothesis p t h st \<noteq> (Err x, st')"
  by (auto simp: write_hypothesis_def Let_def split: option.splits if_splits)

lemma good_transition:
  assumes "transition_hypothesis_state now i s new revs st = (r, st')" and "r \<noteq> Panic"
    and wf: "knowledge_wf st"
  shows "good st st'"
proof (cases "st' = st")
  case False
  then obtain h q where "ks_hypotheses st i = Some h" "h_subject h = s"
    "st' = st\<lparr>ks_hypotheses := (ks_hypotheses st)(i \<mapsto> set_state now h new),
        subject_revisions := (subject_revisions st)(s \<mapsto> q)\<rparr>" "subject_revision st s < q"
    using assms(1,2) by (auto simp: transition_hypothesis_state_def Let_def subject_revision_def
        split: option.splits if_splits res.splits prod.splits elim!: bump_subject_SomeE)
  moreover from this(1) wf have "h_id h = i" by (simp add: knowledge_wf_def keyed_def)
  ultimately show ?thesis
    using good_put_hypothesis(1) [of "set_state now h new" i st q h] by auto
qed simp

lemma good_put_relation:
  assumes "relation_write_kind st r = Ok w"
  shows "good st (put_relation w r st)"
  unfolding good_def
proof
  assume wf: "knowledge_wf st"
  consider (same) "w = Unchanged"
    | (update) u where "w = Updated" "ks_relations st (kr_id r) = Some u" "graph_identity u = graph_identity r"
    | (insert) "w = Inserted" "ks_relations st (kr_id r) = None"
    using assms by (auto simp: relation_write_kind_def same_graph_identity_def split: option.splits if_splits)
  then show "knowledge_wf (put_relation w r st) \<and> knowledge_le st (put_relation w r st)"
  proof cases
    case same
    with wf show ?thesis by (simp add: put_relation_def)
  next
    case update
    with wf have "knowledge_wf (put_relation w r st)"
      by (auto simp: put_relation_def knowledge_wf_def keyed_insert intro: index_of_update)
    with update show ?thesis
      by (auto simp: put_relation_def knowledge_le_def view_simps claims_kept_update)
  next
    case insert
    with wf have "knowledge_wf (put_relation w r st)"
      by (auto simp: put_relation_def knowledge_wf_def keyed_insert intro: index_of_insert)
    with insert show ?thesis
      by (auto simp: put_relation_def knowledge_le_def view_simps claims_kept_insert)
  qed
qed

lemma good_insert_entity: "good st (snd (insert_entity en st))"
  by (auto simp: insert_entity_def good_def knowledge_wf_def keyed_insert knowledge_le_def view_simps
      map_le_def split: option.split)

lemma good_ontology:
  assumes "ks_ontology_revision st < q"
  shows "good st (st\<lparr>ks_ontology := o2, ks_ontology_revision := q\<rparr>)"
  using assms by (auto simp: good_def knowledge_wf_def knowledge_le_def view_simps)

lemma good_after_ontology_write:
  assumes "after_ontology_write r st = (w, st')" and "w \<noteq> Panic"
    and "fst r \<noteq> Ok OntologyInserted \<Longrightarrow> snd r = ks_ontology st"
  shows "good st st'"
proof (cases "fst r = Ok OntologyInserted")
  case True
  then show ?thesis using assms(1,2) good_ontology [of st]
    by (auto simp: after_ontology_write_def Let_def split: option.splits elim!: bump_ontology_SomeE)
next
  case False
  then have "st' = st" using assms(1,3)
    by (auto simp: after_ontology_write_def Let_def split: res.splits ontology_write.splits)
  then show ?thesis by simp
qed

lemma unchanged_ontology:
  "fst (add_concept c o1) \<noteq> Ok OntologyInserted \<Longrightarrow> snd (add_concept c o1) = o1"
  "fst (add_relation_type rt o1) \<noteq> Ok OntologyInserted \<Longrightarrow> snd (add_relation_type rt o1) = o1"
  "fst (add_axiom a o1) \<noteq> Ok OntologyInserted \<Longrightarrow> snd (add_axiom a o1) = o1"
  by (auto simp: add_concept_def add_relation_type_def add_axiom_eq split: option.splits if_splits)

lemma install_all_unchanged:
  assumes "\<And>d o1. fst (add d o1) \<noteq> Ok OntologyInserted \<Longrightarrow> snd (add d o1) = o1"
  shows "install_all add ds o1 n = Ok (o2, m) \<Longrightarrow> n \<le> m \<and> (m = n \<longrightarrow> o2 = o1)"
proof (induction ds arbitrary: o1 n)
  case (Cons d ds)
  then obtain w o3 where "add d o1 = (Ok w, o3)"
    "install_all add ds o3 (if w = OntologyInserted then n + 1 else n) = Ok (o2, m)"
    by (auto split: prod.splits res.splits)
  with Cons.IH [of o3 "if w = OntologyInserted then n + 1 else n"] assms [of d o1] show ?case
    by (auto split: if_splits)
qed simp

lemma good_install:
  assumes "install_ontology_definitions cs axs st = (r, st')" and "r \<noteq> Panic"
  shows "good st st'"
proof -
  let ?c = "and_then (install_all add_concept cs (ks_ontology st) 0) (\<lambda>(o1, nc).
      and_then (install_all add_axiom axs o1 0) (\<lambda>(o2, na). Ok (o2, nc, na)))"
  show ?thesis
  proof (cases ?c)
    case (Ok v)
    then obtain o1 o2 nc na where v: "v = (o2, nc, na)"
      and "install_all add_concept cs (ks_ontology st) 0 = Ok (o1, nc)"
      and "install_all add_axiom axs o1 0 = Ok (o2, na)" by (auto simp: res_simps)
    then have "nc = 0 \<and> na = 0 \<Longrightarrow> o2 = ks_ontology st"
      using install_all_unchanged [where add = add_concept, OF unchanged_ontology(1)]
        install_all_unchanged [where add = add_axiom, OF unchanged_ontology(3)] by metis
    then show ?thesis using assms Ok v good_ontology [of st _ o2]
      by (auto simp: install_ontology_definitions_def Let_def split: option.splits if_splits
          elim!: bump_ontology_SomeE)
  qed (use assms in \<open>auto simp: install_ontology_definitions_def\<close>)
qed

section \<open>Transactions\<close>

lemma put_evidence_not_Err: "put_evidence e st \<noteq> (Err x, st')"
  by (auto simp: put_evidence_def Let_def split: option.splits)

lemma write_evidence_not_Err: "write_evidence e st \<noteq> (Err x, st')"
  by (simp add: write_evidence_def put_evidence_not_Err)

lemma good_insert_evidence:
  assumes "insert_evidence e st = (r, st')" and "r \<noteq> Panic"
  shows "good st st'"
  using assms good_write_evidence [of st e] write_evidence_not_Err [of e st]
  by (auto simp: insert_evidence_def split: option.splits if_splits res.splits prod.splits)

lemma good_write_evidence_all:
  "write_evidence_all es st = (Ok ws, st') \<Longrightarrow> good st st'"
proof (induction es arbitrary: st ws)
  case (Cons e es)
  show ?case
  proof (cases "ks_evidence st (e_id e)")
    case None
    with Cons.prems obtain u st1 ws' where "write_evidence e st = (Ok u, st1)"
      and "write_evidence_all es st1 = (Ok ws', st')"
      by (auto simp: res_simps split: prod.splits res.splits)
    with None show ?thesis using good_write_evidence Cons.IH good_trans by blast
  next
    case (Some x)
    with Cons.prems obtain ws' where "write_evidence_all es st = (Ok ws', st')"
      by (auto simp: res_simps split: prod.splits)
    with Cons.IH show ?thesis by blast
  qed
qed simp

lemma write_evidence_all_not_Err: "write_evidence_all es st \<noteq> (Err x, st')"
proof (induction es arbitrary: st st')
  case (Cons e es)
  then show ?case
    by (auto simp: res_simps write_evidence_not_Err split: prod.splits res.splits)
qed simp

lemma good_insert_evidence_batch:
  assumes "insert_evidence_batch iter es st = (r, st')" and "r \<noteq> Panic"
  shows "good st st'"
  using assms good_write_evidence_all [of es st _ st'] write_evidence_all_not_Err [of es st _ st']
  by (cases r) (auto simp: insert_evidence_batch_def split: res.splits)

lemma relation_write_kind_put_evidence:
  "put_evidence e st = (Ok u, st1) \<Longrightarrow> relation_write_kind st1 r = relation_write_kind st r"
  by (auto simp: put_evidence_def index_evidence_def Let_def relation_write_kind_def
      split: option.splits elim!: bump_subject_SomeE)

lemma good_insert_evidence_with_relation:
  assumes "insert_evidence_with_relation e r st = (x, st')" and "x \<noteq> Panic"
  shows "good st st'"
proof (cases "st' = st")
  case False
  with assms obtain rw st1 where rw: "relation_write_kind st r = Ok rw"
    and st1: "ks_evidence st (e_id e) = None \<and> put_evidence e st = (Ok (), st1) \<or> st1 = st"
    and st': "st' = put_relation rw r st1"
    by (auto simp: insert_evidence_with_relation_def res_simps put_evidence_not_Err
        split: res.splits prod.splits option.splits if_splits) blast
  have "good st st1" using st1 good_put_evidence by auto
  moreover have "relation_write_kind st1 r = Ok rw"
    using rw st1 relation_write_kind_put_evidence by auto
  then have "good st1 st'" using st' good_put_relation by simp
  ultimately show ?thesis by (rule good_trans)
qed simp

lemma good_upsert_relation: "good st (snd (upsert_relation r st))"
  by (auto simp: upsert_relation_def res_simps good_put_relation split: res.splits)

lemma check_hypotheses_Ok:
  "check_hypotheses stored hs pending = Ok () \<Longrightarrow>
   (\<forall>h \<in> set hs. \<forall>x. stored (h_id h) = Some x \<longrightarrow> same_hypothesis_claim x h) \<and>
   (\<forall>h \<in> set hs. \<forall>x. pending (h_id h) = Some x \<longrightarrow> same_hypothesis_claim x h) \<and>
   (\<forall>h \<in> set hs. \<forall>k \<in> set hs. h_id h = h_id k \<longrightarrow> same_hypothesis_claim h k)"
proof (induction hs arbitrary: pending)
  case (Cons h hs)
  let ?p = "if pending (h_id h) = None then pending(h_id h \<mapsto> h) else pending"
  from Cons.prems have stored: "\<And>x. stored (h_id h) = Some x \<Longrightarrow> same_hypothesis_claim x h"
    and pend: "\<And>x. pending (h_id h) = Some x \<Longrightarrow> same_evaluation_as x h"
    and rest: "check_hypotheses stored hs ?p = Ok ()" by (auto split: if_splits)
  note IH = Cons.IH [OF rest]
  have eval_claim: "same_evaluation_as a b \<Longrightarrow> same_hypothesis_claim a b" for a b
    by (simp add: same_evaluation_as_def same_hypothesis_claim_def)
  have claim_sym: "same_hypothesis_claim a b \<Longrightarrow> same_hypothesis_claim b a" for a b
    by (simp add: same_hypothesis_claim_def)
  have claim_trans: "same_hypothesis_claim a b \<Longrightarrow> same_hypothesis_claim b c \<Longrightarrow> same_hypothesis_claim a c"
    for a b c by (simp add: same_hypothesis_claim_def)
  have first: "same_hypothesis_claim h k" if "k \<in> set hs" "h_id k = h_id h" for k
  proof (cases "pending (h_id h)")
    case None
    with IH that show ?thesis by auto
  next
    case (Some x)
    with IH that have "same_hypothesis_claim x k" by auto
    moreover have "same_hypothesis_claim x h" using pend [OF Some] eval_claim by blast
    ultimately show ?thesis using claim_sym claim_trans by blast
  qed
  have pend': "same_hypothesis_claim x k" if "k \<in> set hs" "pending (h_id k) = Some x" for k x
  proof -
    have "?p (h_id k) = Some x" using that by auto
    with IH that(1) show ?thesis by blast
  qed
  have self: "same_hypothesis_claim h h" by (simp add: same_hypothesis_claim_def)
  show ?case
    using IH stored pend eval_claim first pend' self claim_sym by (auto 4 3)
qed simp

lemma good_write_hypotheses:
  assumes "write_hypotheses p clock n hs st = (Ok ws, st')"
    and "\<forall>h \<in> set hs. \<forall>x. ks_hypotheses st (h_id h) = Some x \<longrightarrow> same_hypothesis_claim x h"
    and "\<forall>h \<in> set hs. \<forall>k \<in> set hs. h_id h = h_id k \<longrightarrow> same_hypothesis_claim h k"
  shows "good st st'"
  using assms
proof (induction hs arbitrary: st ws n)
  case (Cons h hs)
  then obtain w st1 ws' where w: "write_hypothesis p (clock n) h st = (Ok w, st1)"
    and ws': "write_hypotheses p clock (n + 1) hs st1 = (Ok ws', st')"
    by (auto simp: res_simps split: prod.splits res.splits)
  have claim: "\<And>x. ks_hypotheses st (h_id h) = Some x \<Longrightarrow> same_hypothesis_claim x h"
    using Cons.prems(2) by simp
  note step = good_write_hypothesis [OF w claim]
  have "\<forall>k \<in> set hs. \<forall>x. ks_hypotheses st1 (h_id k) = Some x \<longrightarrow> same_hypothesis_claim x k"
  proof (intro ballI allI impI)
    fix k x
    assume k: "k \<in> set hs" "ks_hypotheses st1 (h_id k) = Some x"
    show "same_hypothesis_claim x k"
    proof (cases "ks_hypotheses st1 (h_id k) = ks_hypotheses st (h_id k)")
      case True
      with k Cons.prems(2) show ?thesis by auto
    next
      case False
      with step(2) have "h_id k = h_id h" and "hypothesis_claim x = hypothesis_claim h"
        using k(2) by (auto split: if_splits)
      moreover have "same_hypothesis_claim h k" using Cons.prems(3) k(1) calculation(1) by simp
      ultimately show ?thesis by (simp add: same_hypothesis_claim_def)
    qed
  qed
  then have "good st1 st'" using Cons.IH [OF ws'] Cons.prems(3) by simp
  with step(1) show ?case by (rule good_trans)
qed simp

lemma write_hypotheses_not_Err: "write_hypotheses p clock n hs st \<noteq> (Err x, st')"
proof (induction hs arbitrary: n st)
  case (Cons h hs)
  then show ?case by (auto simp: res_simps write_hypothesis_not_Err split: prod.splits res.splits)
qed simp

lemma good_upsert_batch:
  assumes "upsert_hypothesis_batch_with_policy clock kb hs p expected = (r, st')" and "r \<noteq> Panic"
  shows "good (kb_state kb) st'"
proof (cases "st' = kb_state kb")
  case False
  with assms obtain ws where
    "check_hypotheses (ks_hypotheses (kb_state kb)) hs Map.empty = Ok ()"
    "write_hypotheses p clock 0 hs (kb_state kb) = (Ok ws, st')"
    by (cases r) (auto simp: upsert_hypothesis_batch_with_policy_def Let_def res_simps
        write_hypotheses_not_Err split: res.splits)
  then show ?thesis using check_hypotheses_Ok [of "ks_hypotheses (kb_state kb)" hs Map.empty]
      good_write_hypotheses [of p clock 0 hs "kb_state kb" ws st'] by simp
qed simp

section \<open>Runs\<close>

text \<open>
  One public write, with every argument the callers may choose. \<open>iter\<close> is the traversal order of
  a hash map. A write that panics, which takes a revision counter at its maximum, is not a step.
\<close>

inductive knowledge_step :: "knowledge_state \<Rightarrow> knowledge_state \<Rightarrow> bool" where
  step_concept: "register_concept c st = (r, st') \<Longrightarrow> r \<noteq> Panic \<Longrightarrow> knowledge_step st st'"
| step_relation_type: "register_relation_type t st = (r, st') \<Longrightarrow> r \<noteq> Panic \<Longrightarrow> knowledge_step st st'"
| step_axiom: "register_axiom a st = (r, st') \<Longrightarrow> r \<noteq> Panic \<Longrightarrow> knowledge_step st st'"
| step_install:
    "install_ontology_definitions cs axs st = (r, st') \<Longrightarrow> r \<noteq> Panic \<Longrightarrow> knowledge_step st st'"
| step_evidence: "insert_evidence e st = (r, st') \<Longrightarrow> r \<noteq> Panic \<Longrightarrow> knowledge_step st st'"
| step_evidence_batch:
    "insert_evidence_batch iter es st = (r, st') \<Longrightarrow> r \<noteq> Panic \<Longrightarrow> knowledge_step st st'"
| step_fact: "upsert_fact f st = (r, st') \<Longrightarrow> r \<noteq> Panic \<Longrightarrow> knowledge_step st st'"
| step_hypotheses:
    "upsert_hypothesis_batch_with_policy clock \<lparr>kb_authority = auth, kb_state = st\<rparr> hs p sn = (r, st') \<Longrightarrow>
     r \<noteq> Panic \<Longrightarrow> knowledge_step st st'"
| step_transition:
    "transition_hypothesis_state now i s new revs st = (r, st') \<Longrightarrow> r \<noteq> Panic \<Longrightarrow>
     knowledge_step st st'"
| step_evidence_relation:
    "insert_evidence_with_relation e rel st = (r, st') \<Longrightarrow> r \<noteq> Panic \<Longrightarrow> knowledge_step st st'"
| step_entity: "insert_entity en st = (r, st') \<Longrightarrow> knowledge_step st st'"
| step_relation: "upsert_relation rel st = (r, st') \<Longrightarrow> knowledge_step st st'"

lemma knowledge_step_good:
  assumes "knowledge_step st st'" and wf: "knowledge_wf st"
  shows "good st st'"
  using assms
proof induction
  case (step_concept c st r st')
  then show ?case
    unfolding register_concept_def by (blast intro: good_after_ontology_write unchanged_ontology)
next
  case (step_relation_type t st r st')
  then show ?case
    unfolding register_relation_type_def by (blast intro: good_after_ontology_write unchanged_ontology)
next
  case (step_axiom a st r st')
  then show ?case
    unfolding register_axiom_def by (blast intro: good_after_ontology_write unchanged_ontology)
next
  case (step_hypotheses clock auth st hs p sn r st')
  then show ?case using good_upsert_batch [of clock "\<lparr>kb_authority = auth, kb_state = st\<rparr>"] by simp
next
  case (step_entity en st r st')
  then show ?case using good_insert_entity [of st en] by simp
next
  case (step_relation rel st r st')
  then show ?case using good_upsert_relation [of st rel] by simp
qed (blast intro: good_install good_insert_evidence good_insert_evidence_batch good_upsert_fact
    good_transition good_insert_evidence_with_relation)+

interpretation knowledge_machine: forward_machine knowledge_step knowledge_wf knowledge_le
  by unfold_locales
    (use knowledge_step_good in \<open>auto simp: good_def intro: knowledge_le_trans\<close>)

interpretation entity_registry: registry ks_entities ke_id insert_entity Inserted Unchanged
    "\<lambda>en. identity_conflict EntityRecord (ke_id en)"
  by unfold_locales (auto simp: insert_entity_def)

end
