(* ===== verification/Knowledge_Properties.thy ===== *)
theory Knowledge_Properties
  imports Knowledge_Laws
begin

text \<open>
  What the knowledge base promises its clients: exact ordered reads, permanence of claims,
  revisions that certify a snapshot, linearisable reasoning commits, atomic evidence batches that
  keep the lineage acyclic, and complete pagination.
\<close>

section \<open>Reads and permanence\<close>

definition exact_read :: "'v list \<Rightarrow> ('i::linorder \<rightharpoonup> 'v) \<Rightarrow> ('v \<Rightarrow> 'i) \<Rightarrow> ('v \<Rightarrow> bool) \<Rightarrow> bool" where
  "exact_read vs recs ident P \<longleftrightarrow>
     set vs = {v. (\<exists>i. recs i = Some v) \<and> P v} \<and> bset_ok (map ident vs)"

lemma exact_readI:
  assumes "index_of idx recs proj" and "keyed recs ident"
  shows "exact_read (collect_indexed (idx k) recs) recs ident (\<lambda>v. proj v = k)"
  using assms collect_index_of [OF assms(1), of k] collect_index_ids [OF assms, of k]
  by (auto simp: exact_read_def index_of_def)

abbreviation knowledge_reachable :: "knowledge_state \<Rightarrow> bool" where
  "knowledge_reachable st \<equiv> knowledge_step\<^sup>*\<^sup>* knowledge_state_default st"

lemma reachable_wf: "knowledge_reachable st \<Longrightarrow> knowledge_wf st"
  by (rule knowledge_machine.run_inv [OF _ knowledge_wf_default])

text \<open>Other writers act by steps of the knowledge base.\<close>

definition honest :: "(nat \<Rightarrow> knowledge_state \<Rightarrow> knowledge_state) \<Rightarrow> bool" where
  "honest gap \<longleftrightarrow> (\<forall>n st. knowledge_step\<^sup>*\<^sup>* st (gap n st))"

lemma honestD: "honest gap \<Longrightarrow> knowledge_step\<^sup>*\<^sup>* st (gap n st)"
  by (simp add: honest_def)

lemma honest_idle [simp]: "honest (\<lambda>_ st. st)"
  by (simp add: honest_def)

text \<open>
  C23. After any sequence of writes every indexed read is exact: it returns the stored records of
  the requested subject, predicate or endpoint, all of them and nothing else, each once and in the
  order of their identities.
\<close>

theorem knowledge_reads_exact:
  assumes "knowledge_reachable st"
  shows "exact_read (evidence_for_subject st s) (ks_evidence st) e_id (\<lambda>e. e_subject e = s)
    \<and> exact_read (evidence_for_predicate st p) (ks_evidence st) e_id (\<lambda>e. e_predicate e = p)
    \<and> exact_read (facts_for_subject st s) (ks_facts st) f_id (\<lambda>f. f_subject f = s)
    \<and> exact_read (facts_for_predicate st p) (ks_facts st) f_id (\<lambda>f. f_predicate f = p)
    \<and> exact_read (hypotheses_for_subject st s) (ks_hypotheses st) h_id (\<lambda>h. h_subject h = s)
    \<and> exact_read (hypotheses_for_predicate st p) (ks_hypotheses st) h_id (\<lambda>h. h_predicate h = p)
    \<and> exact_read (relations_from st s) (ks_relations st) kr_id (\<lambda>r. kr_from r = s)
    \<and> exact_read (relations_to st s) (ks_relations st) kr_id (\<lambda>r. kr_to r = s)"
  using reachable_wf [OF assms]
  unfolding evidence_for_subject_def evidence_for_predicate_def facts_for_subject_def
    facts_for_predicate_def hypotheses_for_subject_def hypotheses_for_predicate_def
    relations_from_def relations_to_def knowledge_wf_def
  by (blast intro: exact_readI)

definition sample_store :: knowledge_state where
  "sample_store =
     snd (insert_evidence (sample_evidence ''b'' (derived_by [''a'']))
       (snd (insert_evidence (sample_evidence ''a'' Direct) knowledge_state_default)))"

lemma sample_store_reachable: "knowledge_reachable sample_store"
proof -
  let ?st = "snd (insert_evidence (sample_evidence ''a'' Direct) knowledge_state_default)"
  have "fst (insert_evidence (sample_evidence ''a'' Direct) knowledge_state_default) = Ok Inserted"
    and "fst (insert_evidence (sample_evidence ''b'' (derived_by [''a''])) ?st) = Ok Inserted"
    by code_simp+
  then have "knowledge_step knowledge_state_default ?st" "knowledge_step ?st sample_store"
    unfolding sample_store_def by (auto intro!: step_evidence [OF prod.collapse [symmetric]])
  then show ?thesis by simp
qed

theorem knowledge_reads_exact_witness:
  "evidence_for_subject sample_store ''s'' =
     [sample_evidence ''a'' Direct, sample_evidence ''b'' (derived_by [''a''])] \<and>
   exact_read (evidence_for_subject sample_store ''s'') (ks_evidence sample_store) e_id
     (\<lambda>e. e_subject e = ''s'')"
proof
  show "evidence_for_subject sample_store ''s'' =
     [sample_evidence ''a'' Direct, sample_evidence ''b'' (derived_by [''a''])]" by code_simp
qed (use knowledge_reads_exact [OF sample_store_reachable] in blast)

text \<open>
  Knowledge is permanent: along every further sequence of writes a stored observation or
  entity is never changed or removed, and a fact, hypothesis or relation keeps its claim or graph
  identity under its identifier.
\<close>

theorem knowledge_permanent:
  assumes "knowledge_reachable st" and "knowledge_step\<^sup>*\<^sup>* st st'"
  shows "ks_evidence st \<subseteq>\<^sub>m ks_evidence st' \<and> ks_entities st \<subseteq>\<^sub>m ks_entities st'
    \<and> (\<forall>i f. ks_facts st i = Some f \<longrightarrow> (\<exists>f'. ks_facts st' i = Some f' \<and> fact_claim f' = fact_claim f))
    \<and> (\<forall>i h. ks_hypotheses st i = Some h \<longrightarrow>
         (\<exists>h'. ks_hypotheses st' i = Some h' \<and> hypothesis_claim h' = hypothesis_claim h))
    \<and> (\<forall>i r. ks_relations st i = Some r \<longrightarrow>
         (\<exists>r'. ks_relations st' i = Some r' \<and> graph_identity r' = graph_identity r))"
  using knowledge_machine.run_le [OF assms(2) reachable_wf [OF assms(1)]]
  by (simp add: knowledge_le_def claims_kept_def)

section \<open>Revisions certify snapshots\<close>

lemma validate_revisions_Ok_iff:
  "validate_revisions st s rs ro = Ok () \<longleftrightarrow> subject_revision st s = rs \<and> ks_ontology_revision st = ro"
  by (simp add: validate_revisions_def)

lemma snapshot_eqI:
  assumes "knowledge_wf st" and "knowledge_wf st'" and "knowledge_le st st'"
    and "subject_revision st' s = subject_revision st s"
    and "ks_ontology_revision st' = ks_ontology_revision st"
  shows "snapshot_for_subject \<lparr>kb_authority = a, kb_state = st'\<rparr> s =
    snapshot_for_subject \<lparr>kb_authority = a, kb_state = st\<rparr> s"
proof -
  have view: "subject_view st' s = subject_view st s" and onto: "ks_ontology st' = ks_ontology st"
    using assms(3-5) by (auto simp: knowledge_le_def)
  have "collect_indexed (evidence_by_subject st' s) (ks_evidence st') =
      collect_indexed (evidence_by_subject st s) (ks_evidence st)"
    using assms(1,2) view
    by (intro collect_index_cong [where proj = e_subject]) (auto simp: knowledge_wf_def subject_view_def)
  moreover have "collect_indexed (facts_by_subject st' s) (ks_facts st') =
      collect_indexed (facts_by_subject st s) (ks_facts st)"
    using assms(1,2) view
    by (intro collect_index_cong [where proj = f_subject]) (auto simp: knowledge_wf_def subject_view_def)
  moreover have "collect_indexed (hypotheses_by_subject st' s) (ks_hypotheses st') =
      collect_indexed (hypotheses_by_subject st s) (ks_hypotheses st)"
    using assms(1,2) view
    by (intro collect_index_cong [where proj = h_subject]) (auto simp: knowledge_wf_def subject_view_def)
  ultimately show ?thesis
    using assms(4,5) onto by (simp add: snapshot_for_subject_def Let_def)
qed

text \<open>
  C24. Revisions certify snapshots: if, after any writes by anyone, the revision check of a
  snapshot still succeeds, then a fresh snapshot of the subject equals the old one, ontology,
  evidence, facts and hypotheses included. An external commit guarded by the check therefore acts
  on the knowledge it was computed from.
\<close>

theorem current_snapshot_is_fresh:
  assumes "knowledge_reachable st" and "knowledge_step\<^sup>*\<^sup>* st st'"
    and "sn = snapshot_for_subject \<lparr>kb_authority = a, kb_state = st\<rparr> s"
    and "commit_if_snapshot_current \<lparr>kb_authority = a, kb_state = st'\<rparr> sn commit = Ok x"
  shows "snapshot_for_subject \<lparr>kb_authority = a, kb_state = st'\<rparr> s = sn \<and> x = commit ()"
proof -
  have wf: "knowledge_wf st" by (rule reachable_wf [OF assms(1)])
  have "subject_revision st' s = subject_revision st s"
    and "ks_ontology_revision st' = ks_ontology_revision st" and x: "x = commit ()"
    using assms(4) by (auto simp: assms(3) commit_if_snapshot_current_def res_simps
        validate_revisions_Ok_iff snapshot_for_subject_def Let_def)
  then show ?thesis
    using snapshot_eqI [OF wf knowledge_machine.run_inv [OF assms(2) wf]
        knowledge_machine.run_le [OF assms(2) wf]] by (simp add: assms(3))
qed

definition sample_entity :: knowledge_entity where
  "sample_entity = \<lparr>ke_id = ''host'', ke_kind = Host, ke_label = ''h''\<rparr>"

definition sample_other :: knowledge_state where
  "sample_other = snd (insert_entity sample_entity sample_store)"

theorem current_snapshot_is_fresh_witness:
  "snapshot_for_subject \<lparr>kb_authority = 7, kb_state = sample_other\<rparr> ''s'' =
   snapshot_for_subject \<lparr>kb_authority = 7, kb_state = sample_store\<rparr> ''s''"
proof -
  let ?sn = "snapshot_for_subject \<lparr>kb_authority = 7, kb_state = sample_store\<rparr> ''s''"
  have run: "knowledge_step\<^sup>*\<^sup>* sample_store sample_other"
    unfolding sample_other_def by (rule r_into_rtranclp, rule step_entity [OF prod.collapse [symmetric]])
  have "commit_if_snapshot_current \<lparr>kb_authority = 7, kb_state = sample_other\<rparr> ?sn (\<lambda>_. 3 :: nat) = Ok 3"
    by code_simp
  from current_snapshot_is_fresh [OF sample_store_reachable run refl this] show ?thesis by blast
qed

section \<open>Evidence batches\<close>

definition hash_order :: "(pending \<Rightarrow> pending) \<Rightarrow> bool" where
  "hash_order iter \<longleftrightarrow>
     (\<forall>p. distinct (map fst p) \<longrightarrow> distinct (map fst (iter p)) \<and> set (iter p) = set p)"

lemma hash_order_map_of: "hash_order iter \<Longrightarrow> distinct (map fst p) \<Longrightarrow> map_of (iter p) = map_of p"
  unfolding hash_order_def by (metis map_of_inject_set)

lemma collect_pending_Ok:
  assumes "collect_pending stored es pending = Ok p" and "distinct (map fst pending)"
    and "\<And>i e. map_of pending i = Some e \<Longrightarrow> e_id e = i \<and> (stored i = None \<or> stored i = Some e)"
  shows "distinct (map fst p)"
    and "\<And>i e. map_of p i = Some e \<Longrightarrow> e_id e = i \<and> (stored i = None \<or> stored i = Some e)"
    and "\<And>i e. map_of p i = Some e \<longleftrightarrow> map_of pending i = Some e \<or> (e \<in> set es \<and> e_id e = i)"
proof -
  have "distinct (map fst p) \<and>
      (\<forall>i e. map_of p i = Some e \<longrightarrow> e_id e = i \<and> (stored i = None \<or> stored i = Some e)) \<and>
      (\<forall>i e. map_of p i = Some e \<longleftrightarrow> map_of pending i = Some e \<or> (e \<in> set es \<and> e_id e = i))"
    using assms
  proof (induction es arbitrary: pending)
    case (Cons e es)
    let ?p = "if map_of pending (e_id e) = None then pending @ [(e_id e, e)] else pending"
    from Cons.prems(1) have rest: "collect_pending stored es ?p = Ok p"
      and stored: "\<And>x. stored (e_id e) = Some x \<Longrightarrow> x = e"
      and pend: "\<And>x. map_of pending (e_id e) = Some x \<Longrightarrow> x = e"
      by (auto split: if_splits)
    have look: "map_of ?p i = Some x \<longleftrightarrow> map_of pending i = Some x \<or> (x = e \<and> i = e_id e)" for i x
      using pend by (cases "map_of pending i") (auto simp: map_add_def)
    have "distinct (map fst ?p)"
      using Cons.prems(2) by (auto simp: map_of_eq_None_iff)
    moreover have "e_id x = i \<and> (stored i = None \<or> stored i = Some x)" if "map_of ?p i = Some x" for i x
    proof (cases "map_of pending i = Some x")
      case True
      then show ?thesis by (rule Cons.prems(3))
    next
      case False
      with that look have "x = e" "i = e_id e" by auto
      then show ?thesis using stored by (cases "stored (e_id e)") auto
    qed
    ultimately have IH: "distinct (map fst p) \<and>
        (\<forall>i e. map_of p i = Some e \<longrightarrow> e_id e = i \<and> (stored i = None \<or> stored i = Some e)) \<and>
        (\<forall>i x. map_of p i = Some x \<longleftrightarrow> map_of ?p i = Some x \<or> (x \<in> set es \<and> e_id x = i))"
      by (rule Cons.IH [OF rest])
    then have third: "map_of p i = Some x \<longleftrightarrow> map_of ?p i = Some x \<or> (x \<in> set es \<and> e_id x = i)" for i x
      by blast
    have "map_of p i = Some x \<longleftrightarrow> map_of pending i = Some x \<or> (x \<in> set (e # es) \<and> e_id x = i)" for i x
      using third [of i x] look [of i x] by auto
    with IH show ?case by blast
  qed simp
  then show "distinct (map fst p)"
    and "\<And>i e. map_of p i = Some e \<Longrightarrow> e_id e = i \<and> (stored i = None \<or> stored i = Some e)"
    and "\<And>i e. map_of p i = Some e \<longleftrightarrow> map_of pending i = Some e \<or> (e \<in> set es \<and> e_id e = i)"
    by blast+
qed

lemma write_evidence_Ok_evidence:
  "write_evidence e st = (Ok u, st') \<Longrightarrow> ks_evidence st' = (ks_evidence st)(e_id e \<mapsto> e)"
  by (auto simp: write_evidence_def put_evidence_def index_evidence_def Let_def split: option.splits
      elim!: bump_subject_SomeE)

lemma write_evidence_all_evidence:
  assumes "write_evidence_all es st = (Ok ws, st')"
    and "\<And>e. e \<in> set es \<Longrightarrow> ks_evidence st (e_id e) = None \<or> ks_evidence st (e_id e) = Some e"
    and "\<And>e e'. e \<in> set es \<Longrightarrow> e' \<in> set es \<Longrightarrow> e_id e = e_id e' \<Longrightarrow> e = e'"
  shows "ks_evidence st' i = Some e \<longleftrightarrow> ks_evidence st i = Some e \<or> (e \<in> set es \<and> e_id e = i)"
  using assms
proof (induction es arbitrary: st ws)
  case (Cons x es)
  show ?case
  proof (cases "ks_evidence st (e_id x)")
    case None
    with Cons.prems(1) obtain u st1 ws' where w: "write_evidence x st = (Ok u, st1)"
      and r: "write_evidence_all es st1 = (Ok ws', st')"
      by (auto simp: res_simps split: prod.splits res.splits)
    have ev: "ks_evidence st1 = (ks_evidence st)(e_id x \<mapsto> x)" by (rule write_evidence_Ok_evidence [OF w])
    have "ks_evidence st1 (e_id y) = None \<or> ks_evidence st1 (e_id y) = Some y" if "y \<in> set es" for y
      using Cons.prems(2) [of y] Cons.prems(3) [of x y] that by (auto simp: ev)
    then have "ks_evidence st' i = Some e \<longleftrightarrow> ks_evidence st1 i = Some e \<or> (e \<in> set es \<and> e_id e = i)"
      using Cons.prems(3) by (intro Cons.IH [OF r]) auto
    then show ?thesis using None by (auto simp: ev)
  next
    case (Some y)
    then have y: "y = x" using Cons.prems(2) [of x] by simp
    from Some Cons.prems(1) obtain ws' where r: "write_evidence_all es st = (Ok ws', st')"
      by (auto simp: res_simps split: prod.splits)
    have "ks_evidence st' i = Some e \<longleftrightarrow> ks_evidence st i = Some e \<or> (e \<in> set es \<and> e_id e = i)"
      using Cons.prems(2,3) by (intro Cons.IH [OF r]) auto
    then show ?thesis using Some y by auto
  qed
qed simp

lemma write_evidence_all_receipts:
  assumes "write_evidence_all es st = (Ok ws, st')"
  shows "length ws = length es \<and> (\<forall>n < length es. ws ! n =
    (if ks_evidence st (e_id (es ! n)) = None \<and> e_id (es ! n) \<notin> e_id ` set (take n es)
     then Inserted else Unchanged))"
  using assms
proof (induction es arbitrary: st ws)
  case (Cons x es)
  show ?case
  proof (cases "ks_evidence st (e_id x)")
    case None
    with Cons.prems obtain u st1 ws' where w: "write_evidence x st = (Ok u, st1)"
      and r: "write_evidence_all es st1 = (Ok ws', st')" and ws: "ws = Inserted # ws'"
      by (auto simp: res_simps split: prod.splits res.splits)
    note IH = Cons.IH [OF r]
    show ?thesis
      using IH None unfolding ws write_evidence_Ok_evidence [OF w] by (auto simp: nth_Cons split: nat.split)
  next
    case (Some y)
    with Cons.prems obtain ws' where r: "write_evidence_all es st = (Ok ws', st')"
      and ws: "ws = Unchanged # ws'" by (auto simp: res_simps split: prod.splits)
    show ?thesis using Cons.IH [OF r] Some unfolding ws by (auto simp: nth_Cons split: nat.split)
  qed
qed simp

lemma insert_evidence_batch_OkE:
  assumes "insert_evidence_batch iter es st = (Ok ws, st')" and "hash_order iter"
  obtains p where "collect_pending (ks_evidence st) es [] = Ok p"
    and "validate_batch_derivations (ks_evidence st) (iter p) = Ok ()"
    and "write_evidence_all es st = (Ok ws, st')"
    and "map_of (iter p) = map_of p"
    and "\<And>i e. map_of p i = Some e \<longleftrightarrow> e \<in> set es \<and> e_id e = i"
    and "\<And>i e. map_of p i = Some e \<Longrightarrow> ks_evidence st i = None \<or> ks_evidence st i = Some e"
proof -
  from assms(1) obtain p where p: "collect_pending (ks_evidence st) es [] = Ok p"
    and v: "validate_batch_derivations (ks_evidence st) (iter p) = Ok ()"
    and w: "write_evidence_all es st = (Ok ws, st')"
    by (auto simp: insert_evidence_batch_def res_simps split: res.splits)
  note c = collect_pending_Ok [OF p]
  show thesis
  proof (rule that [OF p v w])
    show "map_of (iter p) = map_of p" by (rule hash_order_map_of [OF assms(2)]) (rule c(1); simp)
    show "map_of p i = Some e \<longleftrightarrow> e \<in> set es \<and> e_id e = i" for i e using c(3) [of i e] by simp
    show "ks_evidence st i = None \<or> ks_evidence st i = Some e" if "map_of p i = Some e" for i e
      using c(2) [OF _ _ that] by simp
  qed
qed

text \<open>A revision counter below its maximum is what a write needs.\<close>

lemma write_evidence_total:
  assumes "unat (subject_revision st (e_subject e)) + 1 < 2 ^ 64"
  shows "\<exists>st'. write_evidence e st = (Ok (), st') \<and>
    (\<forall>s. unat (subject_revision st' s) \<le> unat (subject_revision st s) + 1)"
proof -
  let ?st = "(index_derivation e st)\<lparr>ks_evidence := (ks_evidence st)(e_id e \<mapsto> e)\<rparr>"
  have rev: "subject_revision ?st s = subject_revision st s" for s
    by (simp add: subject_revision_def index_derivation_def split: option.split)
  from assms obtain r where r: "checked_add (subject_revision st (e_subject e)) 1 = Some r"
    by (cases "checked_add (subject_revision st (e_subject e)) 1") (auto simp: checked_add_None_iff)
  then have "unat r = unat (subject_revision st (e_subject e)) + 1" by (simp add: checked_add_Some_iff)
  then show ?thesis
    using r rev by (auto simp: write_evidence_def put_evidence_def Let_def bump_subject_revision_def
        index_evidence_def index_derivation_def subject_revision_def split: option.split)
qed

lemma write_evidence_all_total:
  assumes "\<forall>s. unat (subject_revision st s) + length es < 2 ^ 64"
  shows "fst (write_evidence_all es st) \<noteq> Panic"
  using assms
proof (induction es arbitrary: st)
  case (Cons e es)
  show ?case
  proof (cases "ks_evidence st (e_id e)")
    case None
    have "unat (subject_revision st (e_subject e)) + 1 < 2 ^ 64"
      using Cons.prems [rule_format, of "e_subject e"] by simp
    from write_evidence_total [OF this] obtain st1 where w: "write_evidence e st = (Ok (), st1)"
      and rev: "\<And>s. unat (subject_revision st1 s) \<le> unat (subject_revision st s) + 1" by blast
    have "\<forall>s. unat (subject_revision st1 s) + length es < 2 ^ 64"
    proof
      fix s
      show "unat (subject_revision st1 s) + length es < 2 ^ 64"
        using rev [of s] Cons.prems [rule_format, of s] by simp
    qed
    then show ?thesis using Cons.IH [of st1] w None
      by (cases "write_evidence_all es st1") (auto simp: res_simps)
  next
    case (Some y)
    have "\<forall>s. unat (subject_revision st s) + length es < 2 ^ 64"
    proof
      fix s
      show "unat (subject_revision st s) + length es < 2 ^ 64"
        using Cons.prems [rule_format, of s] by simp
    qed
    then show ?thesis using Cons.IH [of st] Some
      by (cases "write_evidence_all es st") (auto simp: res_simps)
  qed
qed simp

lemma collect_pending_no_panic: "collect_pending stored es p \<noteq> Panic"
  by (induction es arbitrary: p) auto

lemma insert_evidence_batch_stored:
  assumes "insert_evidence_batch iter es st = (Ok ws, st')" and "hash_order iter"
  shows "(\<forall>i e. ks_evidence st' i = Some e \<longleftrightarrow> ks_evidence st i = Some e \<or> e \<in> set es \<and> e_id e = i)
    \<and> length ws = length es
    \<and> (\<forall>n < length es. ws ! n =
         (if ks_evidence st (e_id (es ! n)) = None \<and> e_id (es ! n) \<notin> e_id ` set (take n es)
          then Inserted else Unchanged))"
proof -
  from assms obtain p where w: "write_evidence_all es st = (Ok ws, st')"
    and p: "\<And>i e. map_of p i = Some e \<longleftrightarrow> e \<in> set es \<and> e_id e = i"
    and agree: "\<And>i e. map_of p i = Some e \<Longrightarrow> ks_evidence st i = None \<or> ks_evidence st i = Some e"
    by (rule insert_evidence_batch_OkE) (rule that)
  have same: "e = e'" if "e \<in> set es" "e' \<in> set es" "e_id e = e_id e'" for e e'
    using p [of "e_id e" e] p [of "e_id e" e'] that by simp
  have "ks_evidence st' i = Some e \<longleftrightarrow> ks_evidence st i = Some e \<or> (e \<in> set es \<and> e_id e = i)" for i e
  proof (rule write_evidence_all_evidence [OF w])
    show "ks_evidence st (e_id x) = None \<or> ks_evidence st (e_id x) = Some x" if "x \<in> set es" for x
      using agree [of "e_id x" x] p [of "e_id x" x] that by simp
  qed (rule same)
  then show ?thesis using write_evidence_all_receipts [OF w] by simp
qed

text \<open>
  C25. A batch of observations is one transaction: with room in the revision counters it always
  returns; an error leaves the whole state untouched, and success stores exactly the old records
  and the batch, with one receipt per item in input order that says \<^emph>\<open>inserted\<close> precisely for the
  first occurrence of a new identity.
\<close>

theorem evidence_batch_atomic:
  assumes "hash_order iter" and "\<forall>s. unat (subject_revision st s) + length es < 2 ^ 64"
    and "insert_evidence_batch iter es st = (r, st')"
  shows "case r of
      Panic \<Rightarrow> False
    | Err x \<Rightarrow> st' = st
    | Ok ws \<Rightarrow>
        (\<forall>i e. ks_evidence st' i = Some e \<longleftrightarrow> ks_evidence st i = Some e \<or> e \<in> set es \<and> e_id e = i)
        \<and> length ws = length es
        \<and> (\<forall>n < length es. ws ! n =
             (if ks_evidence st (e_id (es ! n)) = None \<and> e_id (es ! n) \<notin> e_id ` set (take n es)
              then Inserted else Unchanged))"
proof (cases r)
  case Panic
  then show ?thesis
    using assms(3) write_evidence_all_total [OF assms(2)]
    by (auto simp: insert_evidence_batch_def res_simps collect_pending_no_panic validate_batch_no_panic
        split: res.splits)
next
  case (Err x)
  then show ?thesis using assms(3)
    by (auto simp: insert_evidence_batch_def write_evidence_all_not_Err split: res.splits)
next
  case (Ok ws)
  have run: "insert_evidence_batch iter es st = (Ok ws, st')" using assms(3) Ok by simp
  from insert_evidence_batch_stored [OF run assms(1)] show ?thesis by (simp add: Ok)
qed

definition sample_batch :: "evidence list" where
  "sample_batch =
     [sample_evidence ''b'' (derived_by [''a'']), sample_evidence ''a'' Direct, sample_evidence ''a'' Direct]"

theorem evidence_batch_atomic_witness:
  "case fst (insert_evidence_batch rev sample_batch knowledge_state_default) of
     Ok ws \<Rightarrow> ws ! 2 = Unchanged | _ \<Rightarrow> False"
proof -
  have "hash_order rev" by (auto simp: hash_order_def rev_map [symmetric])
  moreover have "\<forall>s. unat (subject_revision knowledge_state_default s) + length sample_batch < 2 ^ 64"
    by (simp add: subject_revision_def knowledge_state_default_def sample_batch_def)
  moreover have "is_ok (fst (insert_evidence_batch rev sample_batch knowledge_state_default))"
    by code_simp
  moreover have "length sample_batch = 3" "e_id (sample_batch ! 2) \<in> e_id ` set (take 2 sample_batch)"
    by (simp_all add: sample_batch_def sample_evidence_def)
  ultimately show ?thesis
    using evidence_batch_atomic [OF _ _ prod.collapse [symmetric], of rev knowledge_state_default sample_batch]
    by (auto split: res.splits)
qed

section \<open>Lineage\<close>

lemma validate_direct:
  assumes "derivation (e_origin e) = None"
  shows "validate_batch_derivations m [(i, e)] = Ok ()"
proof -
  have "e_parents e = []" using assms by (simp add: e_parents_def)
  then show ?thesis
    by (auto simp: validate_batch_Ok_iff parents_resolve_def batch_edges_def acyclic_def split: if_splits)
qed

lemma lineage_insert_evidence:
  assumes "lineage_ok (ks_evidence st)" and "insert_evidence e st = (r, st')" and "r \<noteq> Panic"
  shows "lineage_ok (ks_evidence st')"
proof (cases "st' = st")
  case False
  with assms(2,3) obtain u where fresh: "ks_evidence st (e_id e) = None"
    and w: "write_evidence e st = (Ok u, st')"
    and v: "derivation (e_origin e) \<noteq> None \<Longrightarrow>
      validate_batch_derivations (ks_evidence st) [(e_id e, e)] = Ok ()"
    by (auto simp: insert_evidence_def write_evidence_not_Err split: option.splits if_splits res.splits
        prod.splits)
  have "validate_batch_derivations (ks_evidence st) [(e_id e, e)] = Ok ()"
    using v validate_direct by (cases "derivation (e_origin e)") auto
  then have "lineage_ok (ks_evidence st ++ map_of [(e_id e, e)])"
    by (rule lineage_ok_merge [OF assms(1)]) (use fresh in \<open>auto split: if_splits\<close>)
  then show ?thesis using write_evidence_Ok_evidence [OF w] by simp
qed (use assms in simp)

lemma lineage_insert_evidence_batch:
  assumes "lineage_ok (ks_evidence st)" and "hash_order iter"
    and "insert_evidence_batch iter es st = (r, st')" and "r \<noteq> Panic"
  shows "lineage_ok (ks_evidence st')"
proof (cases r)
  case (Ok ws)
  have run: "insert_evidence_batch iter es st = (Ok ws, st')" using assms(3) Ok by simp
  from run assms(2) obtain p where v: "validate_batch_derivations (ks_evidence st) (iter p) = Ok ()"
    and w: "write_evidence_all es st = (Ok ws, st')" and iter: "map_of (iter p) = map_of p"
    and p: "\<And>i e. map_of p i = Some e \<longleftrightarrow> e \<in> set es \<and> e_id e = i"
    and agree: "\<And>i e. map_of p i = Some e \<Longrightarrow> ks_evidence st i = None \<or> ks_evidence st i = Some e"
    by (rule insert_evidence_batch_OkE) (rule that)
  have same: "e = e'" if "e \<in> set es" "e' \<in> set es" "e_id e = e_id e'" for e e'
    using p [of "e_id e" e] p [of "e_id e" e'] that by simp
  have ev: "ks_evidence st' i = Some e \<longleftrightarrow> ks_evidence st i = Some e \<or> (e \<in> set es \<and> e_id e = i)" for i e
  proof (rule write_evidence_all_evidence [OF w])
    show "ks_evidence st (e_id x) = None \<or> ks_evidence st (e_id x) = Some x" if "x \<in> set es" for x
      using agree [of "e_id x" x] p [of "e_id x" x] that by simp
  qed (rule same)
  have "ks_evidence st' = ks_evidence st ++ map_of (iter p)"
  proof
    fix i
    have "ks_evidence st' i = Some e \<longleftrightarrow> (ks_evidence st ++ map_of p) i = Some e" for e
      using ev [of i e] p [of i e] agree [of i] by (cases "map_of p i") (auto simp: map_add_def)
    then show "ks_evidence st' i = (ks_evidence st ++ map_of (iter p)) i"
      unfolding iter by (metis option.exhaust)
  qed
  moreover have "lineage_ok (ks_evidence st ++ map_of (iter p))"
    by (rule lineage_ok_merge [OF assms(1) v]) (use agree iter in auto)
  ultimately show ?thesis by simp
next
  case (Err x)
  then show ?thesis using assms(1,3)
    by (auto simp: insert_evidence_batch_def write_evidence_all_not_Err split: res.splits)
qed (use assms in simp)

text \<open>
  C26. Lineage stays sound: if every stored derived observation rests on stored parents of the same
  subject without cycles, then single and batch insertion of evidence keep it so, whatever they are
  given and whatever they answer.
\<close>

theorem evidence_writes_keep_lineage:
  assumes "lineage_ok (ks_evidence st)" and "hash_order iter"
  shows "(insert_evidence_batch iter es st = (r, st1) \<longrightarrow> r \<noteq> Panic \<longrightarrow> lineage_ok (ks_evidence st1))
    \<and> (insert_evidence e st = (q, st2) \<longrightarrow> q \<noteq> Panic \<longrightarrow> lineage_ok (ks_evidence st2))"
  using lineage_insert_evidence_batch [OF assms] lineage_insert_evidence [OF assms(1)] by blast

theorem evidence_writes_keep_lineage_witness:
  "lineage_ok (ks_evidence (snd (insert_evidence_batch rev sample_batch knowledge_state_default)))"
proof -
  have "lineage_ok (ks_evidence knowledge_state_default)"
    by (simp add: knowledge_state_default_def lineage_ok_empty)
  moreover have "hash_order rev" by (auto simp: hash_order_def rev_map [symmetric])
  moreover have "fst (insert_evidence_batch rev sample_batch knowledge_state_default) \<noteq> Panic" by code_simp
  ultimately show ?thesis
    using evidence_writes_keep_lineage [THEN conjunct1, rule_format, OF _ _ prod.collapse [symmetric]]
    by blast
qed

text \<open>
  The atomic evidence-and-relation write stores a derived observation without this validation and
  without its reverse edge: an observation that names itself as its parent is accepted.
\<close>

definition self_derived :: evidence where
  "self_derived = sample_evidence ''x'' (derived_by [''x''])"

definition sample_relation :: knowledge_relation where
  "sample_relation = knowledge_relation_with_id ''r'' ''s'' ''t'' Uses 5000 ''x''"

lemma relation_bundle_skips_lineage:
  "fst (insert_evidence_with_relation self_derived sample_relation knowledge_state_default) =
     Ok (Inserted, Inserted)"
  "derivation_children_of (snd (insert_evidence_with_relation self_derived sample_relation
     knowledge_state_default)) ''x'' = []"
  "fst (insert_evidence self_derived knowledge_state_default) = Err (SelfDerivation ''x'')"
  by code_simp+

section \<open>Reasoning commits and verdicts\<close>

lemma write_hypothesis_frame:
  assumes "write_hypothesis p t h st = (r, st')"
  shows "ks_evidence st' = ks_evidence st" "ks_facts st' = ks_facts st"
    "ks_ontology st' = ks_ontology st" "ks_ontology_revision st' = ks_ontology_revision st"
    "i \<noteq> h_id h \<Longrightarrow> ks_hypotheses st' i = ks_hypotheses st i"
  using assms
  by (auto simp: write_hypothesis_def Let_def split: option.splits if_splits elim!: bump_subject_SomeE)

lemma write_hypotheses_cases:
  assumes "write_hypotheses p clock n (h # hs) st = (r, st')"
  obtains (step) w st1 q where "write_hypothesis p (clock n) h st = (Ok w, st1)"
      "write_hypotheses p clock (n + 1) hs st1 = (q, st')" "r = and_then q (\<lambda>ws. Ok (w # ws))"
    | (panic) "write_hypothesis p (clock n) h st = (Panic, st')" "r = Panic"
  using assms by (auto simp: write_hypothesis_not_Err split: prod.splits res.splits)

lemma write_hypotheses_frame:
  assumes "write_hypotheses p clock n hs st = (r, st')"
  shows "ks_evidence st' = ks_evidence st \<and> ks_facts st' = ks_facts st \<and> ks_ontology st' = ks_ontology st
    \<and> ks_ontology_revision st' = ks_ontology_revision st
    \<and> (\<forall>i. i \<notin> h_id ` set hs \<longrightarrow> ks_hypotheses st' i = ks_hypotheses st i)
    \<and> (\<forall>ws. r = Ok ws \<longrightarrow> length ws = length hs)"
  using assms
proof (induction hs arbitrary: n st r)
  case (Cons h hs)
  from Cons.prems show ?case
  proof (cases rule: write_hypotheses_cases)
    case (step w st1 q)
    then show ?thesis using Cons.IH [OF step(2)] write_hypothesis_frame [OF step(1)]
      by (auto simp: res_simps)
  next
    case panic
    then show ?thesis using write_hypothesis_frame [OF panic(1)] by auto
  qed
qed auto

lemma write_hypothesis_terminal:
  assumes "write_hypothesis True t h st = (r, st')" and "ks_hypotheses st i = Some k"
    and "is_terminal_hypothesis_state (h_state k)"
  shows "\<exists>k'. ks_hypotheses st' i = Some k' \<and> h_state k' = h_state k"
proof (cases "i = h_id h")
  case True
  then show ?thesis using assms
    by (auto simp: write_hypothesis_def preserve_terminal_def Let_def split: option.splits if_splits
        elim!: bump_subject_SomeE)
next
  case False
  then show ?thesis using write_hypothesis_frame(5) [OF assms(1)] assms(2) by simp
qed

lemma write_hypotheses_terminal:
  assumes "write_hypotheses True clock n hs st = (r, st')" and "ks_hypotheses st i = Some k"
    and "is_terminal_hypothesis_state (h_state k)"
  shows "\<exists>k'. ks_hypotheses st' i = Some k' \<and> h_state k' = h_state k"
  using assms
proof (induction hs arbitrary: n st r k)
  case (Cons h hs)
  from Cons.prems(1) show ?case
  proof (cases rule: write_hypotheses_cases)
    case (step w st1 q)
    from write_hypothesis_terminal [OF step(1) Cons.prems(2,3)] obtain k1
      where "ks_hypotheses st1 i = Some k1" "h_state k1 = h_state k" by blast
    with Cons.IH [OF step(2), of k1] Cons.prems(3) show ?thesis by auto
  next
    case panic
    then show ?thesis using write_hypothesis_terminal [OF panic(1) Cons.prems(2,3)] by blast
  qed
qed auto

lemma reasoning_commit_facts:
  assumes "knowledge_reachable st" and "knowledge_step\<^sup>*\<^sup>* st st'"
    and sn: "sn = snapshot_for_subject \<lparr>kb_authority = a, kb_state = st\<rparr> s"
    and run: "upsert_reasoning_hypothesis_batch clock \<lparr>kb_authority = b, kb_state = st'\<rparr> sn hs = (r, st'')"
  shows "case r of
      Ok ws \<Rightarrow> b = a \<and> snapshot_for_subject \<lparr>kb_authority = b, kb_state = st'\<rparr> s = sn
        \<and> length ws = length hs \<and> (\<forall>h \<in> set hs. h_subject h = s)
        \<and> ks_evidence st'' = ks_evidence st' \<and> ks_facts st'' = ks_facts st' \<and> ks_ontology st'' = ks_ontology st'
        \<and> (\<forall>i h. ks_hypotheses st' i = Some h \<and> h_subject h \<noteq> s \<longrightarrow> ks_hypotheses st'' i = Some h)
    | Err x \<Rightarrow> st'' = st'
    | Panic \<Rightarrow> True"
proof (cases r)
  case (Err x)
  then show ?thesis using run
    by (auto simp: upsert_reasoning_hypothesis_batch_def upsert_hypothesis_batch_with_policy_def Let_def
        write_hypotheses_not_Err split: option.splits res.splits)
next
  case (Ok ws)
  have wf: "knowledge_wf st" by (rule reachable_wf [OF assms(1)])
  have subj: "\<forall>h \<in> set hs. h_subject h = s" and auth: "b = a"
    and revs: "subject_revision st' s = subject_revision st s"
      "ks_ontology_revision st' = ks_ontology_revision st"
    and check: "check_hypotheses (ks_hypotheses st') hs Map.empty = Ok ()"
    and w: "write_hypotheses True clock 0 hs st' = (Ok ws, st'')"
    using run Ok
    by (auto simp: upsert_reasoning_hypothesis_batch_def upsert_hypothesis_batch_with_policy_def Let_def
        res_simps validate_revisions_Ok_iff validate_snapshot_authority_def sn snapshot_for_subject_def
        find_None_iff split: option.splits res.splits if_splits)
  have "snapshot_for_subject \<lparr>kb_authority = b, kb_state = st'\<rparr> s = sn"
    using snapshot_eqI [OF wf knowledge_machine.run_inv [OF assms(2) wf]
        knowledge_machine.run_le [OF assms(2) wf] revs] by (simp add: sn auth)
  moreover have "ks_hypotheses st'' i = Some h" if "ks_hypotheses st' i = Some h" "h_subject h \<noteq> s" for i h
  proof -
    have "i \<notin> h_id ` set hs"
      using check_hypotheses_Ok [OF check] subj that by (auto simp: same_hypothesis_claim_def)
    then show ?thesis using write_hypotheses_frame [OF w] that(1) by simp
  qed
  ultimately show ?thesis using write_hypotheses_frame [OF w] subj auth by (simp add: Ok)
qed simp

text \<open>
  C27. Reasoning commits are linearisable: a batch computed from a snapshot is committed only by the
  base that made the snapshot, only if no write in between changed what the snapshot shows, only
  with conclusions about its subject, and it then touches neither evidence, facts and ontology nor
  the hypotheses of other subjects; a rejected batch changes nothing.
\<close>

theorem reasoning_commit_linearisable:
  assumes "knowledge_reachable st" and "knowledge_step\<^sup>*\<^sup>* st st'"
    and sn: "sn = snapshot_for_subject \<lparr>kb_authority = a, kb_state = st\<rparr> s"
    and run: "upsert_reasoning_hypothesis_batch clock \<lparr>kb_authority = b, kb_state = st'\<rparr> sn hs = (r, st'')"
  shows "case r of
      Ok ws \<Rightarrow> b = a \<and> snapshot_for_subject \<lparr>kb_authority = b, kb_state = st'\<rparr> s = sn
        \<and> length ws = length hs \<and> (\<forall>h \<in> set hs. h_subject h = s)
        \<and> ks_evidence st'' = ks_evidence st' \<and> ks_facts st'' = ks_facts st' \<and> ks_ontology st'' = ks_ontology st'
        \<and> (\<forall>i h. ks_hypotheses st' i = Some h \<and> h_subject h \<noteq> s \<longrightarrow> ks_hypotheses st'' i = Some h)
    | Err x \<Rightarrow> st'' = st'
    | Panic \<Rightarrow> True"
  by (rule reasoning_commit_facts [OF assms])

definition sample_hypothesis :: "hypothesis_state \<Rightarrow> hypothesis" where
  "sample_hypothesis state =
     \<lparr>h_id = ''h'', h_subject = ''s'', h_predicate = \<lparr>kp_namespace = ''n'', kp_name = ''q''\<rparr>,
      h_value = Boolean True, h_belief = belief_new 500000, h_strength = Weak, h_state = state,
      h_updated_at_ms = 0\<rparr>"

theorem reasoning_commit_linearisable_witness:
  "snapshot_for_subject \<lparr>kb_authority = 7, kb_state = sample_other\<rparr> ''s'' =
     snapshot_for_subject \<lparr>kb_authority = 7, kb_state = sample_store\<rparr> ''s''
   \<and> fst (upsert_reasoning_hypothesis_batch (\<lambda>_. 1) \<lparr>kb_authority = 7, kb_state = sample_other\<rparr>
        (snapshot_for_subject \<lparr>kb_authority = 7, kb_state = sample_store\<rparr> ''s'')
        [sample_hypothesis Supported]) = Ok [Inserted]"
proof -
  let ?sn = "snapshot_for_subject \<lparr>kb_authority = 7, kb_state = sample_store\<rparr> ''s''"
  let ?run = "upsert_reasoning_hypothesis_batch (\<lambda>_. 1) \<lparr>kb_authority = 7, kb_state = sample_other\<rparr> ?sn
    [sample_hypothesis Supported]"
  have step: "knowledge_step\<^sup>*\<^sup>* sample_store sample_other"
    unfolding sample_other_def by (rule r_into_rtranclp, rule step_entity [OF prod.collapse [symmetric]])
  have ok: "fst ?run = Ok [Inserted]" by code_simp
  then have "?run = (Ok [Inserted], snd ?run)" by (metis prod.collapse)
  from reasoning_commit_linearisable [OF sample_store_reachable step refl this] ok show ?thesis by simp
qed

text \<open>
  C28. Verdicts survive recalibration: whatever a reasoning batch contains and however it ends, a
  confirmed or rejected hypothesis keeps that state, and a direct transition to the opposite verdict
  is refused and changes nothing.
\<close>

theorem verdicts_kept:
  assumes "ks_hypotheses (kb_state kb) i = Some h" and "is_terminal_hypothesis_state (h_state h)"
  shows "(\<exists>h'. ks_hypotheses (snd (upsert_reasoning_hypothesis_batch clock kb sn hs)) i = Some h'
      \<and> h_state h' = h_state h) \<and>
    (is_terminal_hypothesis_state new \<longrightarrow> new \<noteq> h_state h \<longrightarrow>
      transition_hypothesis_state now i (h_subject h) new revs (kb_state kb) =
      (Ok (TerminalConflict (h_state h) new), kb_state kb))"
proof (intro conjI impI)
  obtain r st' where run: "upsert_reasoning_hypothesis_batch clock kb sn hs = (r, st')" by fastforce
  show "\<exists>h'. ks_hypotheses (snd (upsert_reasoning_hypothesis_batch clock kb sn hs)) i = Some h'
      \<and> h_state h' = h_state h"
  proof (cases "st' = kb_state kb")
    case True
    then show ?thesis using run assms(1) by auto
  next
    case False
    with run have "write_hypotheses True clock 0 hs (kb_state kb) = (r, st')"
      by (auto simp: upsert_reasoning_hypothesis_batch_def upsert_hypothesis_batch_with_policy_def Let_def
          split: option.splits res.splits)
    from write_hypotheses_terminal [OF this assms] show ?thesis using run by simp
  qed
next
  assume "is_terminal_hypothesis_state new" and "new \<noteq> h_state h"
  then show "transition_hypothesis_state now i (h_subject h) new revs (kb_state kb) =
      (Ok (TerminalConflict (h_state h) new), kb_state kb)"
    using assms by (auto simp: transition_hypothesis_state_def)
qed

definition sample_verdict :: knowledge_base where
  "sample_verdict =
     \<lparr>kb_authority = 7,
      kb_state = snd (upsert_hypothesis (\<lambda>_. 0) \<lparr>kb_authority = 7, kb_state = sample_store\<rparr>
        (sample_hypothesis Rejected))\<rparr>"

theorem verdicts_kept_witness:
  "transition_hypothesis_state 5 ''h'' ''s'' Confirmed None (kb_state sample_verdict) =
     (Ok (TerminalConflict Rejected Confirmed), kb_state sample_verdict)
   \<and> (\<exists>h'. ks_hypotheses (snd (upsert_reasoning_hypothesis_batch (\<lambda>_. 1) sample_verdict
        (snapshot_for_subject sample_verdict ''s'') [sample_hypothesis Supported])) ''h'' = Some h'
      \<and> h_state h' = Rejected)"
proof -
  have h: "ks_hypotheses (kb_state sample_verdict) ''h'' = Some (sample_hypothesis Rejected)" by code_simp
  have t: "is_terminal_hypothesis_state (h_state (sample_hypothesis Rejected))" by code_simp
  show ?thesis
    using verdicts_kept [OF h t, of "\<lambda>_. 1" _ _ Confirmed 5 None]
    by (simp add: sample_hypothesis_def is_terminal_hypothesis_state_def)
qed

section \<open>Pagination\<close>

lemma bset_le_last: "bset_ok xs \<Longrightarrow> x \<in> set xs \<Longrightarrow> x \<le> last xs"
  by (induction xs) (auto simp: less_imp_le)

lemma filter_after_take:
  assumes "bset_ok ys" and "0 < n" and "drop n ys \<noteq> []"
  shows "filter (\<lambda>i. last (take n ys) < i) ys = drop n ys"
proof -
  let ?a = "take n ys" and ?b = "drop n ys"
  have split: "ys = ?a @ ?b" by simp
  have sorted: "bset_ok ?a" "bset_ok ?b" "\<forall>x \<in> set ?a. \<forall>y \<in> set ?b. x < y"
    using assms(1) split by (metis sorted_wrt_append)+
  have ne: "?a \<noteq> []" using assms(2,3) by auto
  have "\<not> last ?a < x" if "x \<in> set ?a" for x
    using bset_le_last [OF sorted(1) that] by simp
  then have "filter (\<lambda>i. last ?a < i) ?a = []" by (simp add: filter_empty_conv)
  moreover have "filter (\<lambda>i. last ?a < i) ?b = ?b"
    using sorted(3) last_in_set [OF ne] by (intro filter_True) blast
  ultimately have "filter (\<lambda>i. last ?a < i) (?a @ ?b) = ?b" by (simp only: filter_append append_Nil)
  then show ?thesis by simp
qed

lemma filter_upward:
  assumes "\<And>x. l < x \<Longrightarrow> P x"
  shows "filter (\<lambda>i. l < i) (filter P xs) = filter (\<lambda>i. l < i) (xs :: 'a::linorder list)"
  using assms by (induction xs) auto

text \<open>
  Paging is complete: following a page by the relations after its last identifier gives the
  whole answer, in order and without repetition; a page holds at most the requested number; and
  the look-ahead flag is set exactly when relations remain.
\<close>

theorem relation_pages_complete:
  assumes "knowledge_reachable st" and "0 < limit"
    and "relations_to_page_with_more st s after limit = (page, has_more)"
  shows "length page \<le> limit
    \<and> filter (\<lambda>r. case after of None \<Rightarrow> True | Some c \<Rightarrow> c < kr_id r) (relations_to st s) =
        page @ (if has_more then filter (\<lambda>r. kr_id (last page) < kr_id r) (relations_to st s) else [])
    \<and> (has_more \<longrightarrow> filter (\<lambda>r. kr_id (last page) < kr_id r) (relations_to st s) \<noteq> [])"
proof -
  let ?ids = "index_ids (relations_to_index st) s" and ?f = "the \<circ> ks_relations st"
  let ?P = "\<lambda>i. case after of None \<Rightarrow> True | Some c \<Rightarrow> c < i"
  let ?rest = "filter ?P ?ids"
  have idx: "index_of (relations_to_index st) (ks_relations st) kr_to" and key: "keyed (ks_relations st) kr_id"
    using reachable_wf [OF assms(1)] by (auto simp: knowledge_wf_def)
  have total: "\<forall>i \<in> set ?ids. \<exists>r. ks_relations st i = Some r" using idx by (auto simp: index_of_def)
  then have ident: "kr_id (?f i) = i" if "i \<in> set ?ids" for i
    using that key by (force simp: keyed_def)
  have all: "relations_to st s = map ?f ?ids"
    using total by (simp add: relations_to_def collect_indexed_eq map_filter_total)
  have page: "page = map ?f (take limit ?rest)" and more: "has_more \<longleftrightarrow> drop limit ?rest \<noteq> []"
  proof -
    have "\<forall>i \<in> set (take limit ?rest). \<exists>r. ks_relations st i = Some r"
      using total by (auto dest: in_set_takeD)
    then show "page = map ?f (take limit ?rest)" "has_more \<longleftrightarrow> drop limit ?rest \<noteq> []"
      using assms(2,3) by (auto simp: relations_to_page_with_more_def index_ids_def map_filter_total Let_def
          split: option.splits)
  qed
  have sub: "filter (\<lambda>r. Q (kr_id r)) (relations_to st s) = map ?f (filter Q ?ids)" for Q
    unfolding all filter_map o_def using ident by (auto intro!: arg_cong [of _ _ "map _"] filter_cong)
  have sorted: "bset_ok ?rest" using idx by (simp add: index_of_def sorted_wrt_filter)
  have rest: "map ?f (drop limit ?rest) = filter (\<lambda>r. kr_id (last page) < kr_id r) (relations_to st s)"
    if more: "drop limit ?rest \<noteq> []"
  proof -
    have ne: "take limit ?rest \<noteq> []" using assms(2) more by auto
    let ?l = "last (take limit ?rest)"
    have l: "?l \<in> set ?rest" using last_in_set [OF ne] by (auto dest: in_set_takeD)
    then have up: "?P x" if "?l < x" for x using that by (auto split: option.splits intro: less_trans)
    have "filter (\<lambda>i. ?l < i) ?ids = filter (\<lambda>i. ?l < i) ?rest"
      by (rule filter_upward [symmetric]) (rule up)
    also have "\<dots> = drop limit ?rest" by (rule filter_after_take [OF sorted assms(2) more])
    finally have "filter (\<lambda>i. ?l < i) ?ids = drop limit ?rest" .
    moreover have "kr_id (last page) = ?l" using ne l ident by (simp add: page last_map)
    ultimately show ?thesis using sub [of "\<lambda>i. ?l < i"] by simp
  qed
  have whole: "filter (\<lambda>r. ?P (kr_id r)) (relations_to st s) = page @ map ?f (drop limit ?rest)"
    using sub [of ?P] map_append [of ?f "take limit ?rest" "drop limit ?rest"]
    by (simp only: page append_take_drop_id)
  have len: "length page \<le> limit" by (simp add: page)
  show ?thesis
  proof (cases "drop limit ?rest = []")
    case True
    with whole len more show ?thesis by simp
  next
    case False
    then have "map ?f (drop limit ?rest) \<noteq> []" by simp
    with False whole len more rest [OF False] show ?thesis by (simp only: if_True simp_thms)
  qed
qed

definition sample_graph :: knowledge_state where
  "sample_graph =
     snd (upsert_relation (knowledge_relation_with_id ''r2'' ''a'' ''t'' Uses 5000 ''e'')
       (snd (upsert_relation (knowledge_relation_with_id ''r1'' ''b'' ''t'' Uses 5000 ''e'')
         knowledge_state_default)))"

end
