(* ===== verification/Rules.thy ===== *)
theory Rules
  imports Expressions Knowledge_Properties
begin

text \<open>
  The rule engine (\<open>src/crates/termivar-scanner/src/rules/registry.rs\<close>, \<open>evaluation.rs\<close>,
  \<open>engine.rs\<close>): evidence selectors and calibrations with their wire compatibility guards, the
  materialisation of a hypothesis from the evidence of a matched condition, and the bounded
  optimistic loop that evaluates all rules on one snapshot and commits their conclusions.
\<close>

section \<open>Selectors, calibrations and rules\<close>

record evidence_selector =
  sel_predicate :: knowledge_predicate
  sel_value :: "evidence_value option"
  sel_text_ci :: "string option"
  sel_list_exact :: "string option"
  sel_guard :: bool

definition selector_equals :: "knowledge_predicate \<Rightarrow> evidence_value \<Rightarrow> evidence_selector" where
  "selector_equals p v =
     \<lparr>sel_predicate = p, sel_value = Some v, sel_text_ci = None, sel_list_exact = None, sel_guard = True\<rparr>"

definition selector_exists :: "knowledge_predicate \<Rightarrow> evidence_selector" where
  "selector_exists p =
     \<lparr>sel_predicate = p, sel_value = None, sel_text_ci = None, sel_list_exact = None, sel_guard = False\<rparr>"

definition selector_text_contains_ci ::
  "knowledge_predicate \<Rightarrow> string \<Rightarrow> evidence_selector rule_res" where
  "selector_text_contains_ci p needle =
     and_then (rule_non_empty needle ''evidence-selector text needle'') (\<lambda>n.
       Ok \<lparr>sel_predicate = p, sel_value = None, sel_text_ci = Some n, sel_list_exact = None,
           sel_guard = True\<rparr>)"

definition selector_text_list_contains_exact ::
  "knowledge_predicate \<Rightarrow> string \<Rightarrow> evidence_selector rule_res" where
  "selector_text_list_contains_exact p v =
     and_then (rule_non_empty v ''evidence-selector text-list exact value'') (\<lambda>n.
       Ok \<lparr>sel_predicate = p, sel_value = None, sel_text_ci = None, sel_list_exact = Some n,
           sel_guard = True\<rparr>)"

definition selector_matches :: "evidence_selector \<Rightarrow> evidence \<Rightarrow> bool" where
  "selector_matches sel e \<longleftrightarrow>
     e_predicate e = sel_predicate sel \<and>
     (case sel_value sel of None \<Rightarrow> True | Some v \<Rightarrow> e_value e = v) \<and>
     (case sel_text_ci sel of None \<Rightarrow> True
      | Some n \<Rightarrow> list_ex (\<lambda>t. text_contains t n True) (evidence_value_texts (e_value e))) \<and>
     (case sel_list_exact sel of None \<Rightarrow> True | Some v \<Rightarrow> text_list_contains_exact (e_value e) v)"

record wire_selector =
  ws_predicate :: knowledge_predicate
  ws_value :: "evidence_value required_nullable"
  ws_text_ci :: "string option"
  ws_list_exact :: "string option"
  ws_guard :: "bool option"

datatype selector_wire_error =
    WireSelectorValueMissing
  | WireSelectorCombined
  | WireSelectorGuard
  | WireSelectorEmpty string

definition one_if :: "'a option \<Rightarrow> nat" where
  "one_if x = (case x of None \<Rightarrow> 0 | Some _ \<Rightarrow> 1)"

definition selector_from_wire ::
  "wire_selector \<Rightarrow> (evidence_selector, selector_wire_error) res" where
  "selector_from_wire w =
     (if \<not> rn_present (ws_value w) then Err WireSelectorValueMissing
      else
        (let v = rn_value (ws_value w);
             matchers = one_if v + one_if (ws_text_ci w) + one_if (ws_list_exact w)
         in if matchers > 1 then Err WireSelectorCombined
            else if (case ws_guard w of None \<Rightarrow> False | Some g \<Rightarrow> \<not> g \<or> matchers \<noteq> 1)
            then Err WireSelectorGuard
            else if (case ws_text_ci w of None \<Rightarrow> False | Some n \<Rightarrow> blank n)
            then Err (WireSelectorEmpty ''evidence-selector text needle'')
            else if (case ws_list_exact w of None \<Rightarrow> False | Some n \<Rightarrow> blank n)
            then Err (WireSelectorEmpty ''evidence-selector text-list exact value'')
            else Ok \<lparr>sel_predicate = ws_predicate w, sel_value = v, sel_text_ci = ws_text_ci w,
                     sel_list_exact = ws_list_exact w, sel_guard = (matchers = 1)\<rparr>))"

text \<open>Serialisation writes the value field always and the other fields when they are not the default.\<close>

definition selector_to_wire :: "evidence_selector \<Rightarrow> wire_selector" where
  "selector_to_wire sel =
     \<lparr>ws_predicate = sel_predicate sel, ws_value = rn_from (sel_value sel),
      ws_text_ci = sel_text_ci sel, ws_list_exact = sel_list_exact sel,
      ws_guard = (if sel_guard sel then Some True else None)\<rparr>"

datatype evidence_aggregation = Independent | MaxContributions u32

definition max_contributions :: "u32 \<Rightarrow> evidence_aggregation rule_res" where
  "max_contributions n = (if n = 0 then Err InvalidAggregationLimit else Ok (MaxContributions n))"

fun aggregation_limit :: "evidence_aggregation \<Rightarrow> nat option" where
  "aggregation_limit Independent = None"
| "aggregation_limit (MaxContributions n) = Some (unat n)"

record evidence_calibration =
  cal_selector :: evidence_selector
  cal_likelihood_if_true :: probability
  cal_likelihood_if_false :: probability
  cal_rationale :: string
  cal_aggregation :: evidence_aggregation
  cal_guard :: bool

definition calibration_new ::
  "evidence_selector \<Rightarrow> probability \<Rightarrow> probability \<Rightarrow> string \<Rightarrow> evidence_calibration rule_res" where
  "calibration_new sel lt lf rationale =
     and_then (rule_non_empty rationale ''evidence calibration rationale'') (\<lambda>r.
       Ok \<lparr>cal_selector = sel, cal_likelihood_if_true = lt, cal_likelihood_if_false = lf,
           cal_rationale = r, cal_aggregation = Independent, cal_guard = False\<rparr>)"

definition with_aggregation ::
  "evidence_calibration \<Rightarrow> evidence_aggregation \<Rightarrow> evidence_calibration" where
  "with_aggregation c agg = c\<lparr>cal_aggregation := agg, cal_guard := (agg \<noteq> Independent)\<rparr>"

record wire_calibration =
  wc_selector :: evidence_selector
  wc_likelihood_if_true :: probability
  wc_likelihood_if_false :: probability
  wc_rationale :: string
  wc_aggregation :: "evidence_aggregation option"
  wc_guard :: "bool option"

datatype calibration_wire_error = WireCalibrationGuard | WireCalibration rule_engine_error

definition calibration_from_wire ::
  "wire_calibration \<Rightarrow> (evidence_calibration, calibration_wire_error) res" where
  "calibration_from_wire w =
     (let agg = (case wc_aggregation w of None \<Rightarrow> Independent | Some a \<Rightarrow> a)
      in if (case wc_guard w of None \<Rightarrow> False | Some g \<Rightarrow> \<not> g \<or> agg = Independent)
         then Err WireCalibrationGuard
         else map_err WireCalibration
           (and_then (calibration_new (wc_selector w) (wc_likelihood_if_true w)
               (wc_likelihood_if_false w) (wc_rationale w)) (\<lambda>c. Ok (with_aggregation c agg))))"

definition calibration_to_wire :: "evidence_calibration \<Rightarrow> wire_calibration" where
  "calibration_to_wire c =
     \<lparr>wc_selector = cal_selector c, wc_likelihood_if_true = cal_likelihood_if_true c,
      wc_likelihood_if_false = cal_likelihood_if_false c, wc_rationale = cal_rationale c,
      wc_aggregation = (if cal_aggregation c = Independent then None else Some (cal_aggregation c)),
      wc_guard = (if cal_guard c then Some True else None)\<rparr>"

record hypothesis_conclusion =
  hc_predicate :: knowledge_predicate
  hc_value :: evidence_value
  hc_prior :: probability
  hc_strength :: hypothesis_strength
  hc_state :: hypothesis_state
  hc_calibrations :: "evidence_calibration list"

definition conclusion_new ::
  "knowledge_predicate \<Rightarrow> evidence_value \<Rightarrow> probability \<Rightarrow> hypothesis_strength \<Rightarrow> hypothesis_state \<Rightarrow>
   evidence_calibration list \<Rightarrow> hypothesis_conclusion rule_res" where
  "conclusion_new p v prior strength state cals =
     (if cals = [] then Err EmptyCalibrations
      else if state = Confirmed \<or> state = Rejected then Err (VerifierOnlyState state)
      else Ok \<lparr>hc_predicate = p, hc_value = v, hc_prior = prior, hc_strength = strength,
               hc_state = state, hc_calibrations = cals\<rparr>)"

record reasoning_rule =
  rule_id :: string
  rule_condition :: expression
  rule_conclusion :: hypothesis_conclusion

definition reasoning_rule_new ::
  "string \<Rightarrow> expression \<Rightarrow> hypothesis_conclusion \<Rightarrow> reasoning_rule rule_res" where
  "reasoning_rule_new i c h =
     and_then (rule_non_empty i ''rule id'') (\<lambda>n.
       Ok \<lparr>rule_id = n, rule_condition = c, rule_conclusion = h\<rparr>)"

datatype rule_write = RuleInserted | RuleUnchanged

section \<open>Evaluation\<close>

definition hypothesis_id_for_rule :: "string \<Rightarrow> entity_id \<Rightarrow> string" where
  "hypothesis_id_for_rule r s = ''rule:'' @ decimal (length r) @ '':'' @ r @ '':'' @ s"

record rule_evaluation =
  re_rule_id :: string
  re_condition :: expression_trace
  re_hypothesis :: "hypothesis option"

record rule_application =
  ra_evaluation :: rule_evaluation
  ra_write :: "knowledge_write option"

text \<open>Reliability first, then observation time, both descending, then identity.\<close>

definition stronger_evidence :: "evidence \<Rightarrow> evidence \<Rightarrow> bool" where
  "stronger_evidence l r \<longleftrightarrow>
     (if e_reliability r \<noteq> e_reliability l then e_reliability r < e_reliability l
      else if e_observed_at_ms r \<noteq> e_observed_at_ms l then e_observed_at_ms r < e_observed_at_ms l
      else e_id l \<le> e_id r)"

definition calibration_matches ::
  "knowledge_snapshot \<Rightarrow> evidence_id list \<Rightarrow> evidence_calibration \<Rightarrow> evidence list" where
  "calibration_matches sn ids cal =
     (let ms = filter (\<lambda>e. e_id e \<in> set ids \<and> selector_matches (cal_selector cal) e) (sn_evidence sn)
      in case aggregation_limit (cal_aggregation cal) of
           None \<Rightarrow> ms
         | Some limit \<Rightarrow> take limit (sort_by stronger_evidence ms))"

fun bind_evidence ::
  "reasoning_rule \<Rightarrow> evidence_calibration \<Rightarrow> evidence list \<Rightarrow> (evidence_id, bayesian_evidence) bmap \<Rightarrow>
   (evidence_id, bayesian_evidence) bmap rule_res" where
  "bind_evidence rule cal [] obs = Ok obs"
| "bind_evidence rule cal (e # es) obs =
     and_then (map_err RuleReasoning
         (bayesian_evidence_new (e_id e) (cal_likelihood_if_true cal) (cal_likelihood_if_false cal)
           (cal_rationale cal))) (\<lambda>observation.
       case map_of obs (e_id e) of
         Some existing \<Rightarrow>
           if existing \<noteq> observation
           then Err (AmbiguousEvidenceCalibration (rule_id rule) (e_id e))
           else bind_evidence rule cal es obs
       | None \<Rightarrow> bind_evidence rule cal es (bmap_insert (e_id e) observation obs))"

fun bind_calibrations ::
  "reasoning_rule \<Rightarrow> knowledge_snapshot \<Rightarrow> evidence_id list \<Rightarrow> evidence_calibration list \<Rightarrow>
   (evidence_id, bayesian_evidence) bmap \<Rightarrow> (evidence_id, bayesian_evidence) bmap rule_res" where
  "bind_calibrations rule sn ids [] obs = Ok obs"
| "bind_calibrations rule sn ids (cal # cals) obs =
     and_then (bind_evidence rule cal (calibration_matches sn ids cal) obs)
       (\<lambda>obs'. bind_calibrations rule sn ids cals obs')"

fun observe_values ::
  "u64 \<Rightarrow> hypothesis \<Rightarrow> bayesian_evidence list \<Rightarrow> hypothesis rule_res" where
  "observe_values now h [] = Ok h"
| "observe_values now h (o1 # os) =
     (case hypothesis_observe now h o1 of
        (Ok _, h') \<Rightarrow> observe_values now h' os
      | (Err e, _) \<Rightarrow> Err (RuleReasoning e)
      | (Panic, _) \<Rightarrow> Panic)"

text \<open>\<open>now\<close> is the clock when the state is set, the only reading the result keeps.\<close>

definition materialize_hypothesis ::
  "u64 \<Rightarrow> reasoning_rule \<Rightarrow> knowledge_snapshot \<Rightarrow> expression_trace \<Rightarrow> hypothesis rule_res" where
  "materialize_hypothesis now rule sn condition =
     and_then (bind_calibrations rule sn (tr_evidence_ids condition)
         (hc_calibrations (rule_conclusion rule)) []) (\<lambda>obs.
       if obs = [] then Err (MissingCalibratedEvidence (rule_id rule))
       else
         and_then (map_err RuleReasoning
             (hypothesis_with_id now (hypothesis_id_for_rule (rule_id rule) (sn_subject sn))
               (sn_subject sn) (hc_predicate (rule_conclusion rule)) (hc_value (rule_conclusion rule))
               (hc_prior (rule_conclusion rule)))) (\<lambda>h.
         and_then (observe_values now h (map snd obs)) (\<lambda>h'.
           Ok (set_state now (set_strength now h' (hc_strength (rule_conclusion rule)))
                 (hc_state (rule_conclusion rule))))))"

definition evaluate_rule ::
  "u64 \<Rightarrow> knowledge_snapshot \<Rightarrow> reasoning_rule \<Rightarrow> rule_evaluation rule_res" where
  "evaluate_rule now sn rule =
     and_then (evaluate_node sn (rule_condition rule)) (\<lambda>condition.
     and_then
       (if tr_matched condition
        then and_then (materialize_hypothesis now rule sn condition) (\<lambda>h. Ok (Some h))
        else Ok None) (\<lambda>hyp.
     Ok \<lparr>re_rule_id = rule_id rule, re_condition = condition, re_hypothesis = hyp\<rparr>))"

section \<open>Engine\<close>

definition MAX_STALE_SNAPSHOT_RETRIES :: nat where "MAX_STALE_SNAPSHOT_RETRIES = 3"

definition MAX_REASONING_APPLY_ATTEMPTS :: nat where
  "MAX_REASONING_APPLY_ATTEMPTS = MAX_STALE_SNAPSHOT_RETRIES + 1"

type_synonym rule_engine = "(string, reasoning_rule) bmap"

definition rule_register :: "reasoning_rule \<Rightarrow> rule_engine \<Rightarrow> rule_write rule_res \<times> rule_engine" where
  "rule_register rule eng =
     (case map_of eng (rule_id rule) of
        Some existing \<Rightarrow>
          if existing = rule then (Ok RuleUnchanged, eng)
          else (Err (RuleIdentityConflict (rule_id rule)), eng)
      | None \<Rightarrow> (Ok RuleInserted, bmap_insert (rule_id rule) rule eng))"

definition evaluate_snapshot ::
  "u64 \<Rightarrow> rule_engine \<Rightarrow> knowledge_snapshot \<Rightarrow> rule_evaluation list rule_res" where
  "evaluate_snapshot now eng sn = collect_res (evaluate_rule now sn) (map snd eng)"

definition evaluate_engine ::
  "u64 \<Rightarrow> rule_engine \<Rightarrow> knowledge_base \<Rightarrow> entity_id \<Rightarrow> rule_evaluation list rule_res" where
  "evaluate_engine now eng kb s = evaluate_snapshot now eng (snapshot_for_subject kb s)"

fun align_writes :: "rule_evaluation list \<Rightarrow> knowledge_write list \<Rightarrow> rule_application list rule_res" where
  "align_writes [] ws = (if ws = [] then Ok [] else Panic)"
| "align_writes (ev # evs) ws =
     (case re_hypothesis ev of
        None \<Rightarrow>
          and_then (align_writes evs ws) (\<lambda>apps. Ok (\<lparr>ra_evaluation = ev, ra_write = None\<rparr> # apps))
      | Some _ \<Rightarrow>
          (case ws of
             [] \<Rightarrow> Panic
           | w # ws' \<Rightarrow>
               and_then (align_writes evs ws')
                 (\<lambda>apps. Ok (\<lparr>ra_evaluation = ev, ra_write = Some w\<rparr> # apps))))"

text \<open>
  One call of \<open>apply\<close>. \<open>env n\<close> is what other threads and the \<^verbatim>\<open>before_commit\<close> hook write between
  the snapshot and the commit of attempt \<open>n\<close>, \<open>gap n\<close> what other threads write before its snapshot.
\<close>

function apply_attempts ::
  "(nat \<Rightarrow> u64) \<Rightarrow> (nat \<Rightarrow> knowledge_state \<Rightarrow> knowledge_state) \<Rightarrow>
   (nat \<Rightarrow> knowledge_state \<Rightarrow> knowledge_state) \<Rightarrow> rule_engine \<Rightarrow> knowledge_authority \<Rightarrow> entity_id \<Rightarrow> nat \<Rightarrow>
   knowledge_state \<Rightarrow> rule_application list rule_res \<times> knowledge_state" where
  "apply_attempts clock gap env eng auth s attempt st =
     (if attempt > MAX_REASONING_APPLY_ATTEMPTS then (Panic, st)
      else
        (let st0 = gap attempt st;
             sn = snapshot_for_subject \<lparr>kb_authority = auth, kb_state = st0\<rparr> s
         in case evaluate_snapshot (clock attempt) eng sn of
              Err e \<Rightarrow> (Err e, st0)
            | Panic \<Rightarrow> (Panic, st0)
            | Ok evs \<Rightarrow>
                (let st1 = env attempt st0
                 in case upsert_reasoning_hypothesis_batch clock \<lparr>kb_authority = auth, kb_state = st1\<rparr> sn
                           (List.map_filter re_hypothesis evs) of
                      (Ok ws, st2) \<Rightarrow> (align_writes evs ws, st2)
                    | (Err (StaleSnapshot _ _ _ _ _), st2) \<Rightarrow>
                        if attempt < MAX_REASONING_APPLY_ATTEMPTS
                        then apply_attempts clock gap env eng auth s (attempt + 1) st2
                        else (Err (StaleSnapshotRetriesExhausted (word_of_nat attempt)), st2)
                    | (Err e, st2) \<Rightarrow> (Err (RuleKnowledge e), st2)
                    | (Panic, st2) \<Rightarrow> (Panic, st2))))"
  by pat_completeness auto
termination
  by (relation "measure (\<lambda>(clock, gap, env, eng, auth, s, attempt, st).
      Suc MAX_REASONING_APPLY_ATTEMPTS - attempt)") auto

definition rule_apply ::
  "(nat \<Rightarrow> u64) \<Rightarrow> (nat \<Rightarrow> knowledge_state \<Rightarrow> knowledge_state) \<Rightarrow>
   (nat \<Rightarrow> knowledge_state \<Rightarrow> knowledge_state) \<Rightarrow> rule_engine \<Rightarrow> knowledge_base \<Rightarrow> entity_id \<Rightarrow>
   rule_application list rule_res \<times> knowledge_state" where
  "rule_apply clock gap env eng kb s =
     apply_attempts clock gap env eng (kb_authority kb) s 1 (kb_state kb)"

end
