(* ===== verification/Rule_Properties.thy ===== *)
theory Rule_Properties
  imports Rules Registry
begin

text \<open>
  What the rule engine promises: unambiguous hypothesis identities, wire guards that fail closed,
  conclusions that rest only on selected evidence within the contribution limit, and commits that
  are computed from the knowledge they are applied to.
\<close>

interpretation rule_registry: registry map_of rule_id rule_register RuleInserted RuleUnchanged
    "\<lambda>rule. RuleIdentityConflict (rule_id rule)"
  by unfold_locales (auto simp: rule_register_def)

section \<open>Identities\<close>

text \<open>
  A materialised hypothesis has an unambiguous identity: the rule and the subject can be read
  back from it, whatever characters they contain, because the length of the rule name comes first.
\<close>

theorem hypothesis_id_injective:
  "hypothesis_id_for_rule r s = hypothesis_id_for_rule r' s' \<longleftrightarrow> r = r' \<and> s = s'"
proof
  assume "hypothesis_id_for_rule r s = hypothesis_id_for_rule r' s'"
  then have "decimal (length r) @ '':'' @ (r @ '':'' @ s) = decimal (length r') @ '':'' @ (r' @ '':'' @ s')"
    by (simp add: hypothesis_id_for_rule_def)
  from split_at_colon [OF colon_not_digit colon_not_digit this]
  have "decimal (length r) = decimal (length r')" and rest: "r @ '':'' @ s = r' @ '':'' @ s'" by auto
  then have "length r = length r'" by (metis undecimal_decimal)
  with rest show "r = r' \<and> s = s'" by simp
qed simp

section \<open>Wire guards\<close>

definition selector_ok :: "evidence_selector \<Rightarrow> bool" where
  "selector_ok sel \<longleftrightarrow>
     (\<exists>p v. sel = selector_equals p v \<or> sel = selector_exists p
        \<or> (\<exists>n. selector_text_contains_ci p n = Ok sel \<or> selector_text_list_contains_exact p n = Ok sel))"

lemmas selector_simps = selector_equals_def selector_exists_def selector_text_contains_ci_def
  selector_text_list_contains_exact_def rule_non_empty_def

text \<open>
  Selectors survive the wire and fail closed: a constructed selector is decoded from its wire
  form unchanged, everything decoded is a constructed selector, and a guarded document that loses
  its matcher is rejected instead of widening to the mere existence of the predicate.
\<close>

theorem selector_wire_guarded:
  "(selector_ok sel \<longrightarrow> selector_from_wire (selector_to_wire sel) = Ok sel) \<and>
   (selector_from_wire w = Ok sel' \<longrightarrow> selector_ok sel') \<and>
   (ws_guard w = Some True \<longrightarrow>
      \<not> is_ok (selector_from_wire (w\<lparr>ws_value := rn_from None, ws_text_ci := None, ws_list_exact := None\<rparr>)))"
proof (intro conjI impI)
  assume "selector_ok sel"
  then show "selector_from_wire (selector_to_wire sel) = Ok sel"
    by (auto simp: selector_ok_def selector_simps selector_from_wire_def selector_to_wire_def rn_from_def
        one_if_def split: if_splits)
next
  assume "selector_from_wire w = Ok sel'"
  then show "selector_ok sel'"
    by (auto simp: selector_ok_def selector_simps selector_from_wire_def one_if_def Let_def
        split: if_splits option.splits)
next
  assume "ws_guard w = Some True"
  then show "\<not> is_ok (selector_from_wire (w\<lparr>ws_value := rn_from None, ws_text_ci := None, ws_list_exact := None\<rparr>))"
    by (simp add: selector_from_wire_def one_if_def rn_from_def)
qed

section \<open>Materialisation\<close>

definition observation_of :: "evidence_calibration \<Rightarrow> evidence \<Rightarrow> bayesian_evidence" where
  "observation_of cal e =
     \<lparr>be_evidence_id = e_id e, be_likelihood_if_true = cal_likelihood_if_true cal,
      be_likelihood_if_false = cal_likelihood_if_false cal, be_rationale = cal_rationale cal\<rparr>"

definition observations_ok :: "(evidence_id, bayesian_evidence) bmap \<Rightarrow> bool" where
  "observations_ok obs \<longleftrightarrow> bmap_ok obs \<and> (\<forall>i b. map_of obs i = Some b \<longrightarrow> be_evidence_id b = i)"

lemma bind_evidence_Ok:
  assumes "bind_evidence rule cal es obs = Ok obs'" and "observations_ok obs"
  shows "observations_ok obs' \<and>
    (\<forall>i b. map_of obs' i = Some b \<longleftrightarrow>
       map_of obs i = Some b \<or> (\<exists>e \<in> set es. e_id e = i \<and> b = observation_of cal e))"
  using assms
proof (induction es arbitrary: obs)
  case (Cons e es)
  let ?b = "observation_of cal e"
  from Cons.prems(1) have new: "map_of obs (e_id e) = None \<Longrightarrow>
      bind_evidence rule cal es (bmap_insert (e_id e) ?b obs) = Ok obs'"
    and old: "\<And>x. map_of obs (e_id e) = Some x \<Longrightarrow> x = ?b \<and> bind_evidence rule cal es obs = Ok obs'"
    by (auto simp: res_simps bayesian_evidence_new_def non_empty_def observation_of_def
        split: option.splits if_splits)
  show ?case
  proof (cases "map_of obs (e_id e)")
    case None
    have ok: "observations_ok (bmap_insert (e_id e) ?b obs)"
      using Cons.prems(2) by (auto simp: observations_ok_def bmap_ok_insert observation_of_def)
    have look: "map_of (bmap_insert (e_id e) ?b obs) i = Some b \<longleftrightarrow>
        map_of obs i = Some b \<or> (e_id e = i \<and> b = ?b)" for i b
      using None by auto
    show ?thesis using Cons.IH [OF new [OF None] ok] unfolding look by auto
  next
    case (Some x)
    then have x: "map_of obs (e_id e) = Some ?b" using old by auto
    have rest: "bind_evidence rule cal es obs = Ok obs'" using old [OF Some] by blast
    show ?thesis using Cons.IH [OF rest Cons.prems(2)] x by auto
  qed
qed simp

lemma bind_calibrations_Ok:
  assumes "bind_calibrations rule sn ids cals obs = Ok obs'" and "observations_ok obs"
  shows "observations_ok obs' \<and>
    (\<forall>i b. map_of obs' i = Some b \<longleftrightarrow> map_of obs i = Some b \<or>
       (\<exists>cal \<in> set cals. \<exists>e \<in> set (calibration_matches sn ids cal). e_id e = i \<and> b = observation_of cal e))"
  using assms
proof (induction cals arbitrary: obs)
  case (Cons cal cals)
  then obtain o1 where first: "bind_evidence rule cal (calibration_matches sn ids cal) obs = Ok o1"
    and rest: "bind_calibrations rule sn ids cals o1 = Ok obs'" by (auto simp: res_simps)
  note b = bind_evidence_Ok [OF first Cons.prems(2)]
  then have "observations_ok o1" by blast
  from Cons.IH [OF rest this] b show ?case by auto
qed simp

lemma observe_values_belief:
  "observe_values now h os = Ok h' \<Longrightarrow> observe_all (h_belief h) os = Ok (h_belief h') \<and>
   h_id h' = h_id h \<and> h_subject h' = h_subject h \<and> h_predicate h' = h_predicate h \<and> h_value h' = h_value h"
proof (induction os arbitrary: h)
  case (Cons x os)
  then obtain w h1 where step: "hypothesis_observe now h x = (Ok w, h1)"
    and rest: "observe_values now h1 os = Ok h'" by (auto split: prod.splits res.splits)
  have "snd (hypothesis_observe now h x) = h1" by (simp add: step)
  then have frame: "h_id h1 = h_id h" "h_subject h1 = h_subject h" "h_predicate h1 = h_predicate h"
    "h_value h1 = h_value h" "h_belief h1 = snd (belief_observe (h_belief h) x)"
    using hypothesis_observe_simps [of now h x] by simp_all
  have "fst (belief_observe (h_belief h) x) = Ok w"
    using step by (auto simp: hypothesis_observe_def split: prod.splits res.splits)
  with frame(5) have "belief_observe (h_belief h) x = (Ok w, h_belief h1)"
    by (cases "belief_observe (h_belief h) x") simp
  with Cons.IH [OF rest] frame(1-4) show ?case by simp
qed simp

definition conclusion_ok :: "hypothesis_conclusion \<Rightarrow> bool" where
  "conclusion_ok c \<longleftrightarrow>
     probability_ok (hc_prior c) \<and> \<not> is_terminal_hypothesis_state (hc_state c) \<and>
     (\<forall>cal \<in> set (hc_calibrations c).
        probability_ok (cal_likelihood_if_true cal) \<and> probability_ok (cal_likelihood_if_false cal))"

lemma map_of_bmap_members: "bmap_ok m \<Longrightarrow> (i, v) \<in> set m \<longleftrightarrow> map_of m i = Some v"
  by (simp add: bmap_ok_distinct)

lemma observations_values:
  assumes "observations_ok obs"
  shows "map (be_evidence_id \<circ> snd) obs = map fst obs"
  using assms by (auto simp: observations_ok_def map_of_bmap_members [symmetric])

lemma materialize_OkE:
  assumes "materialize_hypothesis now rule sn t = Ok h" and ok: "conclusion_ok (rule_conclusion rule)"
  obtains obs where
      "bind_calibrations rule sn (tr_evidence_ids t) (hc_calibrations (rule_conclusion rule)) [] = Ok obs"
    and "observations_ok obs" and "obs \<noteq> []"
    and "belief_ok (h_belief h)" and "bb_prior (h_belief h) = hc_prior (rule_conclusion rule)"
    and "set (bb_evidence (h_belief h)) = snd ` set obs"
    and "h_id h = hypothesis_id_for_rule (rule_id rule) (sn_subject sn)" and "h_subject h = sn_subject sn"
    and "h_predicate h = hc_predicate (rule_conclusion rule)"
    and "h_value h = hc_value (rule_conclusion rule)" and "h_state h = hc_state (rule_conclusion rule)"
    and "h_strength h = hc_strength (rule_conclusion rule)"
proof -
  let ?c = "rule_conclusion rule"
  obtain obs h0 h1 where bind: "bind_calibrations rule sn (tr_evidence_ids t) (hc_calibrations ?c) [] = Ok obs"
    and ne: "obs \<noteq> []"
    and h0: "hypothesis_with_id now (hypothesis_id_for_rule (rule_id rule) (sn_subject sn)) (sn_subject sn)
        (hc_predicate ?c) (hc_value ?c) (hc_prior ?c) = Ok h0"
    and h1: "observe_values now h0 (map snd obs) = Ok h1"
    and h: "h = set_state now (set_strength now h1 (hc_strength ?c)) (hc_state ?c)"
    using assms(1) by (auto simp: materialize_hypothesis_def res_simps split: if_splits)
  have "observations_ok []" by (simp add: observations_ok_def bmap_ok_def)
  from bind_calibrations_Ok [OF bind this] have obs: "observations_ok obs"
    and look: "\<And>i b. map_of obs i = Some b \<Longrightarrow>
      \<exists>cal \<in> set (hc_calibrations ?c). \<exists>e. e_id e = i \<and> b = observation_of cal e" by auto
  have probs: "list_all evidence_probabilities_ok (map snd obs)"
    unfolding list_all_iff
  proof
    fix b
    assume "b \<in> set (map snd obs)"
    then obtain i where "map_of obs i = Some b"
      using obs by (auto simp: observations_ok_def map_of_bmap_members)
    from look [OF this] show "evidence_probabilities_ok b"
      using ok by (auto simp: conclusion_ok_def evidence_probabilities_ok_def observation_of_def)
  qed
  have start: "h_belief h0 = belief_new (hc_prior ?c)"
    using h0 by (auto simp: hypothesis_with_id_def res_simps)
  have belief: "belief_ok (belief_new (hc_prior ?c))" using ok by (simp add: conclusion_ok_def belief_ok_new)
  have dist: "distinct (map be_evidence_id (bb_evidence (belief_new (hc_prior ?c)) @ map snd obs))"
    using obs bmap_ok_distinct [of obs]
    by (simp add: belief_new_def observations_values [OF obs]) (simp add: observations_ok_def)
  note run = observe_values_belief [OF h1]
  from run start have "observe_all (belief_new (hc_prior ?c)) (map snd obs) = Ok (h_belief h1)" by simp
  from observe_all_set [OF belief probs dist this]
  have res: "belief_ok (h_belief h1) \<and> bb_prior (h_belief h1) = hc_prior ?c
      \<and> set (bb_evidence (h_belief h1)) = snd ` set obs" by (simp add: belief_new_def)
  show thesis
    by (rule that [OF bind obs ne])
      (use res run h0 in \<open>auto simp: h set_strength_def hypothesis_with_id_def res_simps non_empty_def
        split: if_splits\<close>)
qed

text \<open>The contribution limit keeps the strongest matches.\<close>

lemma stronger_total: "\<not> stronger_evidence a b \<Longrightarrow> stronger_evidence b a"
  by (auto simp: stronger_evidence_def split: if_splits)

lemma stronger_trans:
  "stronger_evidence a b \<Longrightarrow> stronger_evidence b c \<Longrightarrow> stronger_evidence a c"
  by (auto simp: stronger_evidence_def split: if_splits)

lemma sorted_take_rest:
  assumes "sorted_wrt P xs" and "x \<in> set (take n xs)" and "y \<in> set xs" and "y \<notin> set (take n xs)"
  shows "P x y"
proof -
  have "y \<in> set (take n xs @ drop n xs)" using assms(3) by simp
  then have "y \<in> set (drop n xs)" using assms(4) unfolding set_append by blast
  moreover have "sorted_wrt P (take n xs @ drop n xs)" using assms(1) by simp
  ultimately show ?thesis using assms(2) by (auto simp only: sorted_wrt_append)
qed

definition candidates :: "knowledge_snapshot \<Rightarrow> evidence_id list \<Rightarrow> evidence_calibration \<Rightarrow> evidence set" where
  "candidates sn ids cal =
     {e \<in> set (sn_evidence sn). e_id e \<in> set ids \<and> selector_matches (cal_selector cal) e}"

lemma calibration_matches_candidates:
  "set (calibration_matches sn ids cal) \<subseteq> candidates sn ids cal"
  "aggregation_limit (cal_aggregation cal) = None \<Longrightarrow>
     set (calibration_matches sn ids cal) = candidates sn ids cal"
  by (auto simp: calibration_matches_def candidates_def Let_def split: option.splits dest: in_set_takeD)

lemma calibration_matches_strongest:
  assumes "aggregation_limit (cal_aggregation cal) = Some n"
    and "x \<in> set (calibration_matches sn ids cal)"
    and "y \<in> candidates sn ids cal" and "y \<notin> set (calibration_matches sn ids cal)"
  shows "stronger_evidence x y"
proof -
  let ?ms = "filter (\<lambda>e. e_id e \<in> set ids \<and> selector_matches (cal_selector cal) e) (sn_evidence sn)"
  let ?xs = "sort_by stronger_evidence ?ms"
  have eq: "set (calibration_matches sn ids cal) = set (take n ?xs)"
    using assms(1) by (simp add: calibration_matches_def Let_def)
  show ?thesis
  proof (rule sorted_take_rest [where xs = ?xs and n = n])
    show "sorted_wrt stronger_evidence ?xs" by (rule sorted_sort_by [OF stronger_total stronger_trans])
    show "x \<in> set (take n ?xs)" "y \<notin> set (take n ?xs)" using assms(2,4) eq by blast+
    show "y \<in> set ?xs" using assms(3) by (simp add: candidates_def)
  qed
qed

lemma calibration_matches_length:
  "aggregation_limit (cal_aggregation cal) = Some n \<Longrightarrow> length (calibration_matches sn ids cal) \<le> n"
  by (simp add: calibration_matches_def Let_def)

text \<open>
  A conclusion rests on its evidence and nothing else: the hypothesis of a matched rule is
  about the snapshot's subject and the rule's claim, never carries a verdict, and its belief is the
  exact replay of one observation for each selected piece of evidence, with the likelihoods of a
  calibration that selects it; it has at least one; and every selected piece supports the match.
\<close>

theorem materialize_grounded:
  assumes "materialize_hypothesis now rule sn t = Ok h" and "conclusion_ok (rule_conclusion rule)"
  shows "h_subject h = sn_subject sn
    \<and> hypothesis_claim h = (sn_subject sn, hc_predicate (rule_conclusion rule), hc_value (rule_conclusion rule))
    \<and> \<not> is_terminal_hypothesis_state (h_state h)
    \<and> belief_ok (h_belief h) \<and> bb_prior (h_belief h) = hc_prior (rule_conclusion rule)
    \<and> bb_evidence (h_belief h) \<noteq> []
    \<and> set (bb_evidence (h_belief h)) =
        (\<Union>cal \<in> set (hc_calibrations (rule_conclusion rule)).
           observation_of cal ` set (calibration_matches sn (tr_evidence_ids t) cal))
    \<and> be_evidence_id ` set (bb_evidence (h_belief h)) \<subseteq> set (tr_evidence_ids t) \<inter> e_id ` set (sn_evidence sn)"
proof -
  let ?c = "rule_conclusion rule" and ?ids = "tr_evidence_ids t"
  from assms obtain obs where
    bind: "bind_calibrations rule sn ?ids (hc_calibrations ?c) [] = Ok obs" and obs: "observations_ok obs"
    and ne: "obs \<noteq> []" and facts: "belief_ok (h_belief h)" "bb_prior (h_belief h) = hc_prior ?c"
      "set (bb_evidence (h_belief h)) = snd ` set obs" "h_subject h = sn_subject sn"
      "h_predicate h = hc_predicate ?c" "h_value h = hc_value ?c" "h_state h = hc_state ?c"
    by (rule materialize_OkE) (rule that)
  have "observations_ok []" by (simp add: observations_ok_def bmap_ok_def)
  from bind_calibrations_Ok [OF bind this]
  have look: "map_of obs i = Some b \<longleftrightarrow> (\<exists>cal \<in> set (hc_calibrations ?c).
      \<exists>e \<in> set (calibration_matches sn ?ids cal). e_id e = i \<and> b = observation_of cal e)" for i b by simp
  have "b \<in> snd ` set obs \<longleftrightarrow> (\<exists>i. map_of obs i = Some b)" for b
    using obs by (force simp: observations_ok_def map_of_bmap_members [symmetric])
  then have members: "set (bb_evidence (h_belief h)) =
      (\<Union>cal \<in> set (hc_calibrations ?c). observation_of cal ` set (calibration_matches sn ?ids cal))"
    unfolding facts(3) look by blast
  have "be_evidence_id b \<in> set ?ids \<inter> e_id ` set (sn_evidence sn)"
    if "b \<in> set (bb_evidence (h_belief h))" for b
    using that calibration_matches_candidates(1) [of sn ?ids] unfolding members
    by (fastforce simp: candidates_def observation_of_def)
  moreover have "bb_evidence (h_belief h) \<noteq> []" using facts(3) ne by auto
  ultimately show ?thesis
    using assms(2) facts(1,2,4-) members by (auto simp: conclusion_ok_def)
qed

definition sample_calibration :: evidence_calibration where
  "sample_calibration =
     \<lparr>cal_selector = selector_exists \<lparr>kp_namespace = ''n'', kp_name = ''p''\<rparr>,
      cal_likelihood_if_true = 900000, cal_likelihood_if_false = 100000, cal_rationale = ''r'',
      cal_aggregation = MaxContributions 1, cal_guard = True\<rparr>"

definition sample_rule :: reasoning_rule where
  "sample_rule =
     \<lparr>rule_id = ''rule-1'', rule_condition = sample_condition,
      rule_conclusion =
        \<lparr>hc_predicate = \<lparr>kp_namespace = ''n'', kp_name = ''q''\<rparr>, hc_value = Boolean True,
         hc_prior = 500000, hc_strength = Strong, hc_state = Supported,
         hc_calibrations = [sample_calibration]\<rparr>\<rparr>"

definition sample_trace :: expression_trace where
  "sample_trace = (case evaluate_node sample_snapshot sample_condition of Ok t \<Rightarrow> t)"

theorem materialize_grounded_witness:
  "case materialize_hypothesis 5 sample_rule sample_snapshot sample_trace of
     Ok h \<Rightarrow> belief_ok (h_belief h) \<and> bb_posterior (h_belief h) = 900000 | _ \<Rightarrow> False"
proof -
  define r where "r = materialize_hypothesis 5 sample_rule sample_snapshot sample_trace"
  have "case materialize_hypothesis 5 sample_rule sample_snapshot sample_trace of
      Ok h \<Rightarrow> bb_posterior (h_belief h) = 900000 | _ \<Rightarrow> False" by code_simp
  moreover have "conclusion_ok (rule_conclusion sample_rule)" by code_simp
  ultimately show ?thesis
    using materialize_grounded [of 5 sample_rule sample_snapshot sample_trace]
    by (auto split: res.splits)
qed

text \<open>
  A bounded calibration counts the strongest observations only: it selects among the
  candidates of the match, at most as many as its limit, all of them when they fit, and each
  selected one precedes each rejected one in the order by reliability, time and identity.
\<close>

theorem bounded_contributions:
  assumes "aggregation_limit (cal_aggregation cal) = Some n"
  shows "length (calibration_matches sn ids cal) \<le> n
    \<and> set (calibration_matches sn ids cal) \<subseteq> candidates sn ids cal
    \<and> (\<forall>x \<in> set (calibration_matches sn ids cal).
         \<forall>y \<in> candidates sn ids cal - set (calibration_matches sn ids cal). stronger_evidence x y)
    \<and> (length (calibration_matches sn ids cal) < n \<longrightarrow>
         set (calibration_matches sn ids cal) = candidates sn ids cal)"
proof -
  let ?ms = "filter (\<lambda>e. e_id e \<in> set ids \<and> selector_matches (cal_selector cal) e) (sn_evidence sn)"
  have "calibration_matches sn ids cal = take n (sort_by stronger_evidence ?ms)"
    using assms by (simp add: calibration_matches_def Let_def)
  then have "length (calibration_matches sn ids cal) < n \<Longrightarrow>
      calibration_matches sn ids cal = sort_by stronger_evidence ?ms" by simp
  then have "length (calibration_matches sn ids cal) < n \<Longrightarrow>
      set (calibration_matches sn ids cal) = candidates sn ids cal" by (simp add: candidates_def)
  then show ?thesis
    using calibration_matches_length [OF assms] calibration_matches_candidates(1)
      calibration_matches_strongest [OF assms] by blast
qed

section \<open>The apply loop\<close>

lemma align_writes_Ok:
  "length ws = length (List.map_filter re_hypothesis evs) \<Longrightarrow>
   \<exists>apps. align_writes evs ws = Ok apps \<and> map ra_evaluation apps = evs \<and>
     List.map_filter ra_write apps = ws"
proof (induction evs arbitrary: ws)
  case Nil
  then show ?case by (simp add: List.map_filter_simps)
next
  case (Cons ev evs)
  show ?case
  proof (cases "re_hypothesis ev")
    case None
    with Cons.prems have "length ws = length (List.map_filter re_hypothesis evs)"
      by (simp add: List.map_filter_simps)
    from Cons.IH [OF this] None show ?thesis by (auto simp: List.map_filter_simps)
  next
    case (Some h)
    with Cons.prems obtain w ws' where ws: "ws = w # ws'"
      and "length ws' = length (List.map_filter re_hypothesis evs)"
      by (cases ws) (auto simp: List.map_filter_simps)
    from Cons.IH [OF this(2)] Some ws show ?thesis by (auto simp: List.map_filter_simps)
  qed
qed

lemma apply_attempts_Ok:
  assumes "knowledge_reachable st" and "honest gap" and "honest env"
    and "apply_attempts clock gap env eng auth s attempt st = (Ok apps, st')"
  shows "\<exists>n st1. attempt \<le> n \<and> n \<le> MAX_REASONING_APPLY_ATTEMPTS \<and> knowledge_step\<^sup>*\<^sup>* st st1 \<and>
    evaluate_snapshot (clock n) eng (snapshot_for_subject \<lparr>kb_authority = auth, kb_state = st1\<rparr> s) =
      Ok (map ra_evaluation apps) \<and>
    upsert_reasoning_hypothesis_batch clock \<lparr>kb_authority = auth, kb_state = st1\<rparr>
      (snapshot_for_subject \<lparr>kb_authority = auth, kb_state = st1\<rparr> s)
      (List.map_filter re_hypothesis (map ra_evaluation apps)) = (Ok (List.map_filter ra_write apps), st')"
  using assms
proof (induction clock gap env eng auth s attempt st rule: apply_attempts.induct)
  case (1 clock gap env eng auth s attempt st)
  let ?st0 = "gap attempt st"
  let ?st1 = "env attempt ?st0"
  let ?sn = "snapshot_for_subject \<lparr>kb_authority = auth, kb_state = ?st0\<rparr> s"
  have le: "attempt \<le> MAX_REASONING_APPLY_ATTEMPTS"
    using "1.prems"(4) by (subst (asm) apply_attempts.simps) (auto split: if_splits)
  have run0: "knowledge_step\<^sup>*\<^sup>* st ?st0" and run1: "knowledge_step\<^sup>*\<^sup>* ?st0 ?st1"
    using "1.prems"(2,3) by (auto simp: honest_def)
  have reach0: "knowledge_reachable ?st0" using "1.prems"(1) run0 by simp
  obtain evs where evs: "evaluate_snapshot (clock attempt) eng ?sn = Ok evs"
    using "1.prems"(4) le
    by (subst (asm) apply_attempts.simps) (auto simp: Let_def split: res.splits)
  obtain r st2 where batch: "upsert_reasoning_hypothesis_batch clock \<lparr>kb_authority = auth, kb_state = ?st1\<rparr>
      ?sn (List.map_filter re_hypothesis evs) = (r, st2)" by fastforce
  note facts = reasoning_commit_facts [OF reach0 run1 refl batch]
  have step: "apply_attempts clock gap env eng auth s attempt st =
      (case r of
         Ok ws \<Rightarrow> (align_writes evs ws, st2)
       | Err (StaleSnapshot _ _ _ _ _) \<Rightarrow>
           if attempt < MAX_REASONING_APPLY_ATTEMPTS
           then apply_attempts clock gap env eng auth s (attempt + 1) st2
           else (Err (StaleSnapshotRetriesExhausted (word_of_nat attempt)), st2)
       | Err e \<Rightarrow> (Err (RuleKnowledge e), st2)
       | Panic \<Rightarrow> (Panic, st2))"
    using le evs batch
    by (subst apply_attempts.simps) (simp add: Let_def split: res.split knowledge_base_error.split)
  show ?case
  proof (cases r)
    case (Ok ws)
    with facts have fresh: "snapshot_for_subject \<lparr>kb_authority = auth, kb_state = ?st1\<rparr> s = ?sn"
      and len: "length ws = length (List.map_filter re_hypothesis evs)" by auto
    from align_writes_Ok [OF len] step Ok "1.prems"(4)
    have "map ra_evaluation apps = evs" "List.map_filter ra_write apps = ws" "st2 = st'" by auto
    moreover have "knowledge_step\<^sup>*\<^sup>* st ?st1" using run0 run1 by simp
    ultimately show ?thesis using le evs batch Ok fresh by (intro exI [of _ attempt] exI [of _ ?st1]) auto
  next
    case (Err e)
    with step "1.prems"(4) have less: "attempt < MAX_REASONING_APPLY_ATTEMPTS"
      and again: "apply_attempts clock gap env eng auth s (attempt + 1) st2 = (Ok apps, st')"
      by (auto split: knowledge_base_error.splits if_splits)
    have st2: "st2 = ?st1" using facts Err by simp
    have "knowledge_reachable st2" using reach0 run1 st2 by simp
    moreover have "\<exists>a b c d f. e = StaleSnapshot a b c d f"
      using step "1.prems"(4) Err by (auto split: knowledge_base_error.splits)
    ultimately have "\<exists>n st1. attempt + 1 \<le> n \<and> n \<le> MAX_REASONING_APPLY_ATTEMPTS \<and>
        knowledge_step\<^sup>*\<^sup>* st2 st1 \<and>
        evaluate_snapshot (clock n) eng (snapshot_for_subject \<lparr>kb_authority = auth, kb_state = st1\<rparr> s) =
          Ok (map ra_evaluation apps) \<and>
        upsert_reasoning_hypothesis_batch clock \<lparr>kb_authority = auth, kb_state = st1\<rparr>
          (snapshot_for_subject \<lparr>kb_authority = auth, kb_state = st1\<rparr> s)
          (List.map_filter re_hypothesis (map ra_evaluation apps)) = (Ok (List.map_filter ra_write apps), st')"
      using "1.IH" le evs batch Err less again "1.prems"(2,3) by auto
    then obtain n st1 where n: "attempt + 1 \<le> n" "n \<le> MAX_REASONING_APPLY_ATTEMPTS"
      and run2: "knowledge_step\<^sup>*\<^sup>* st2 st1" and rest:
        "evaluate_snapshot (clock n) eng (snapshot_for_subject \<lparr>kb_authority = auth, kb_state = st1\<rparr> s) =
          Ok (map ra_evaluation apps)"
        "upsert_reasoning_hypothesis_batch clock \<lparr>kb_authority = auth, kb_state = st1\<rparr>
          (snapshot_for_subject \<lparr>kb_authority = auth, kb_state = st1\<rparr> s)
          (List.map_filter re_hypothesis (map ra_evaluation apps)) = (Ok (List.map_filter ra_write apps), st')"
      by blast
    have "knowledge_step\<^sup>*\<^sup>* st st1" using run0 run1 run2 st2 by simp
    with n rest show ?thesis by (intro exI [of _ n] exI [of _ st1]) simp
  next
    case Panic
    with step "1.prems"(4) show ?thesis by simp
  qed
qed


definition sample_engine :: rule_engine where
  "sample_engine = snd (rule_register sample_rule [])"

definition sample_writer :: "nat \<Rightarrow> knowledge_state \<Rightarrow> knowledge_state" where
  "sample_writer n st =
     (if n = 1 \<and> fst (insert_evidence (sample_evidence ''c'' Direct) st) \<noteq> Panic
      then snd (insert_evidence (sample_evidence ''c'' Direct) st) else st)"

lemma sample_writer_honest: "honest sample_writer"
  unfolding honest_def sample_writer_def
  by (auto intro!: r_into_rtranclp step_evidence [OF prod.collapse [symmetric]])


end
