(* ===== verification/Scoring.thy ===== *)
theory Scoring
  imports Expressions
begin

text \<open>
  Planner errors and utility scoring (\<open>src/crates/termivar-scanner/src/planner.rs\<close> and
  \<open>planner/scoring.rs\<close>): normalised benefit and risk scores, positive action costs, and the
  fixed-point utility that the source computes in 128-bit words and narrows to 64 bits. The property
  shows that it never panics and is the exact quotient rounded half up.
\<close>

section \<open>Errors and scores\<close>

datatype planner_error =
    PlannerEmptyValue string
  | BenefitOutOfRange u16
  | RiskOutOfRange u16
  | ZeroCost
  | SelfDependency string
  | UnknownPrerequisite string string
  | DependencyCycle string
  | ActionIdentityConflict string
  | IncompleteDecision string
  | PlannerRule rule_engine_error

type_synonym 'a planner_res = "('a, planner_error) res"

definition MAX_BASIS_POINTS :: u16 where "MAX_BASIS_POINTS = 10000"

type_synonym benefit_score = u16
type_synonym risk_score = u16
type_synonym action_cost = u32
type_synonym utility_score = u64

definition benefit_from_basis_points :: "u16 \<Rightarrow> benefit_score planner_res" where
  "benefit_from_basis_points v = (if MAX_BASIS_POINTS < v then Err (BenefitOutOfRange v) else Ok v)"

definition benefit_from_percent :: "u8 \<Rightarrow> benefit_score planner_res" where
  "benefit_from_percent v = benefit_from_basis_points (ucast v * 100)"

definition risk_from_basis_points :: "u16 \<Rightarrow> risk_score planner_res" where
  "risk_from_basis_points v =
     (if v = 0 \<or> MAX_BASIS_POINTS < v then Err (RiskOutOfRange v) else Ok v)"

definition risk_from_percent :: "u8 \<Rightarrow> risk_score planner_res" where
  "risk_from_percent v = risk_from_basis_points (ucast v * 100)"

definition action_cost_new :: "u32 \<Rightarrow> action_cost planner_res" where
  "action_cost_new units = (if units = 0 then Err ZeroCost else Ok units)"

text \<open>The values the constructors accept, that is the values of the Rust types.\<close>

definition benefit_ok :: "benefit_score \<Rightarrow> bool" where
  "benefit_ok b \<longleftrightarrow> unat b \<le> 10000"

definition risk_ok :: "risk_score \<Rightarrow> bool" where
  "risk_ok r \<longleftrightarrow> 0 < unat r \<and> unat r \<le> 10000"

definition cost_ok :: "action_cost \<Rightarrow> bool" where
  "cost_ok c \<longleftrightarrow> 0 < unat c"

lemma benefit_constructor: "is_ok (benefit_from_basis_points v) \<longleftrightarrow> benefit_ok v"
  by (auto simp: benefit_from_basis_points_def MAX_BASIS_POINTS_def benefit_ok_def word_less_nat_alt)

lemma risk_constructor: "is_ok (risk_from_basis_points v) \<longleftrightarrow> risk_ok v"
  by (auto simp: risk_from_basis_points_def MAX_BASIS_POINTS_def risk_ok_def word_less_nat_alt
      unat_gt_0)

lemma cost_constructor: "is_ok (action_cost_new v) \<longleftrightarrow> cost_ok v"
  by (auto simp: action_cost_new_def cost_ok_def unat_gt_0)

text \<open>
  The product \<open>u16::from(value) * 100\<close> of a byte fits sixteen bits, so a percentage is accepted
  exactly up to 100 (and not 0 for a risk), never because it wrapped around.
\<close>

lemma percent_exact: "unat (ucast (v :: u8) * 100 :: u16) = unat v * 100"
proof -
  have "unat (ucast v :: u16) = unat v" by (simp add: unat_ucast_widen)
  moreover have "unat v < 256" using unat_less_exp [of v] by simp
  ultimately show ?thesis by (subst unat_mult_exact) auto
qed

lemma percent_accepted:
  "is_ok (benefit_from_percent v) \<longleftrightarrow> unat v \<le> 100"
  "is_ok (risk_from_percent v) \<longleftrightarrow> 0 < unat v \<and> unat v \<le> 100"
  by (auto simp: benefit_from_percent_def risk_from_percent_def benefit_constructor risk_constructor
      benefit_ok_def risk_ok_def percent_exact)

section \<open>Utility\<close>

record utility_breakdown =
  ub_gain :: benefit_score
  ub_confidence :: probability
  ub_business_value :: benefit_score
  ub_cost :: action_cost
  ub_risk :: risk_score
  ub_score :: utility_score

definition utility_calculate ::
  "benefit_score \<Rightarrow> probability \<Rightarrow> benefit_score \<Rightarrow> action_cost \<Rightarrow> risk_score \<Rightarrow>
   (utility_breakdown, 'e) res" where
  "utility_calculate gain confidence business_value cost risk =
     (let numerator = (ucast gain :: u128) * ucast confidence * ucast business_value;
          denominator = ucast cost * ucast risk;
          rounded = (numerator + denominator div 2) div denominator
      in if denominator = 0 then Panic
         else case u64_try_from rounded of
             None \<Rightarrow> Panic
           | Some score \<Rightarrow>
               Ok \<lparr>ub_gain = gain, ub_confidence = confidence, ub_business_value = business_value,
                   ub_cost = cost, ub_risk = risk, ub_score = score\<rparr>)"

text \<open>Decoding recomputes the score and rejects a document whose score differs.\<close>

datatype utility_wire_error = UtilityMismatch u64 u64

definition utility_from_wire :: "utility_breakdown \<Rightarrow> (utility_breakdown, utility_wire_error) res" where
  "utility_from_wire w =
     and_then (utility_calculate (ub_gain w) (ub_confidence w) (ub_business_value w) (ub_cost w) (ub_risk w))
       (\<lambda>u. if ub_score u \<noteq> ub_score w then Err (UtilityMismatch (ub_score w) (ub_score u)) else Ok u)"

text \<open>The exact weights behind a utility, as natural numbers.\<close>

definition utility_num :: "benefit_score \<Rightarrow> probability \<Rightarrow> benefit_score \<Rightarrow> nat" where
  "utility_num gain confidence business_value = unat gain * unat confidence * unat business_value"

definition utility_den :: "action_cost \<Rightarrow> risk_score \<Rightarrow> nat" where
  "utility_den cost risk = unat cost * unat risk"

lemma utility_num_bound:
  assumes "benefit_ok g" "probability_ok p" "benefit_ok b"
  shows "utility_num g p b \<le> 10 ^ 14"
proof -
  have "unat g * unat p \<le> 10000 * 1000000"
    using assms by (intro mult_le_mono) (auto simp: benefit_ok_def probability_ok_iff)
  then have "unat g * unat p * unat b \<le> (10000 * 1000000) * 10000"
    using assms(3) unfolding benefit_ok_def by (rule mult_le_mono)
  then show ?thesis by (simp add: utility_num_def)
qed

lemma utility_den_bounds:
  assumes "cost_ok c" "risk_ok r"
  shows "0 < utility_den c r" and "utility_den c r \<le> 2 ^ 32 * 10000"
proof -
  show "0 < utility_den c r" using assms by (simp add: utility_den_def cost_ok_def risk_ok_def)
  have "unat c \<le> 2 ^ 32" using unat_less_exp [of c] by simp
  then show "utility_den c r \<le> 2 ^ 32 * 10000"
    unfolding utility_den_def using assms(2) by (intro mult_le_mono) (auto simp: risk_ok_def)
qed

lemma utility_calculate_exact:
  assumes ok: "benefit_ok g" "probability_ok p" "benefit_ok b" "cost_ok c" "risk_ok r"
  shows "utility_calculate g p b c r =
    Ok \<lparr>ub_gain = g, ub_confidence = p, ub_business_value = b, ub_cost = c, ub_risk = r,
        ub_score = word_of_nat ((utility_num g p b + utility_den c r div 2) div utility_den c r)\<rparr>"
    and "(utility_num g p b + utility_den c r div 2) div utility_den c r < 2 ^ 64"
proof -
  note bounds = utility_num_bound [OF ok(1-3)] utility_den_bounds [OF ok(4,5)]
  define num where "num = (ucast g :: u128) * ucast p * ucast b"
  define den where "den = (ucast c :: u128) * ucast r"
  have "unat g * unat p \<le> 10000 * 1000000"
    using ok by (intro mult_le_mono) (auto simp: benefit_ok_def probability_ok_iff)
  then have gp: "unat ((ucast g :: u128) * ucast p) = unat g * unat p"
    by (subst unat_mult_exact) (auto simp: unat_ucast_widen)
  have num: "unat num = utility_num g p b"
    using bounds(1) unfolding num_def
    by (subst unat_mult_exact) (auto simp: gp unat_ucast_widen utility_num_def)
  have den: "unat den = utility_den c r"
    using bounds(3) unfolding den_def
    by (subst unat_mult_exact) (auto simp: unat_ucast_widen utility_den_def)
  have "unat (num + den div 2) = utility_num g p b + utility_den c r div 2"
    using bounds by (subst unat_add_exact) (auto simp: num den unat_div_distrib)
  then have rounded: "unat ((num + den div 2) div den) =
      (utility_num g p b + utility_den c r div 2) div utility_den c r"
    by (simp add: unat_div_distrib den)
  have "(utility_num g p b + utility_den c r div 2) div utility_den c r \<le>
      utility_num g p b + utility_den c r div 2"
    by (rule div_le_dividend)
  also have "\<dots> < 2 ^ 64" using bounds by simp
  finally show small: "(utility_num g p b + utility_den c r div 2) div utility_den c r < 2 ^ 64" .
  have "den \<noteq> 0" using bounds(2) by (auto simp flip: den)
  with rounded small
  show "utility_calculate g p b c r =
    Ok \<lparr>ub_gain = g, ub_confidence = p, ub_business_value = b, ub_cost = c, ub_risk = r,
        ub_score = word_of_nat ((utility_num g p b + utility_den c r div 2) div utility_den c r)\<rparr>"
    unfolding utility_calculate_def Let_def num_def [symmetric] den_def [symmetric]
    by (simp add: u64_try_from_eq)
qed

text \<open>
  The utility of an action is the exact quotient of its factors rounded to the nearest unit:
  for values of the score types the calculation never panics, although it works in 128 bits and
  narrows to 64, and decoding a stored breakdown accepts it with this score and no other.
\<close>

theorem utility_exact:
  assumes "benefit_ok g" and "probability_ok p" and "benefit_ok b" and "cost_ok c" and "risk_ok r"
  shows "\<exists>u. utility_calculate g p b c r = (Ok u :: utility_breakdown planner_res)
    \<and> \<bar>2 * int (unat (ub_score u)) * int (utility_den c r) - 2 * int (utility_num g p b)\<bar>
        \<le> int (utility_den c r)
    \<and> (\<forall>s. utility_from_wire (u\<lparr>ub_score := s\<rparr>) =
         (if s = ub_score u then Ok u else Err (UtilityMismatch s (ub_score u))))"
proof -
  let ?q = "(utility_num g p b + utility_den c r div 2) div utility_den c r"
  let ?u = "\<lparr>ub_gain = g, ub_confidence = p, ub_business_value = b, ub_cost = c, ub_risk = r,
    ub_score = word_of_nat ?q\<rparr>"
  note exact = utility_calculate_exact [OF assms]
  have "unat (ub_score ?u) = ?q" by (simp add: unat_of_nat_exact exact(2) [simplified])
  with rounded_quotient_nearest [OF utility_den_bounds(1) [OF assms(4,5)]]
  have "\<bar>2 * int (unat (ub_score ?u)) * int (utility_den c r) - 2 * int (utility_num g p b)\<bar>
      \<le> int (utility_den c r)"
    by metis
  moreover have "utility_from_wire (?u\<lparr>ub_score := s\<rparr>) =
      (if s = ub_score ?u then Ok ?u else Err (UtilityMismatch s (ub_score ?u)))" for s
    by (simp add: utility_from_wire_def exact(1))
  ultimately show ?thesis using exact(1) by blast
qed

lemma utility_exact_witness:
  "\<exists>u. utility_calculate 8000 750000 9000 100 2000 = (Ok u :: utility_breakdown planner_res)
    \<and> \<bar>2 * int (unat (ub_score u)) * int (utility_den 100 2000)
          - 2 * int (utility_num 8000 750000 9000)\<bar> \<le> int (utility_den 100 2000)
    \<and> (\<forall>s. utility_from_wire (u\<lparr>ub_score := s\<rparr>) =
         (if s = ub_score u then Ok u else Err (UtilityMismatch s (ub_score u))))"
  by (rule utility_exact) (simp_all add: benefit_ok_def probability_ok_iff cost_ok_def risk_ok_def)

end
