(* ===== verification/Payload.thy ===== *)
theory Payload
  imports Prelude
begin

text \<open>
  Payload strategies (\<open>src/crates/termivar-scanner/src/payload_strategy.rs\<close>): versioned strategy
  references, byte envelopes, artifacts and the registry that resolves a reference and revalidates
  what the implementation returned. An implementation is a trait object of the host, so it is a
  function in the model and nothing is assumed of it; SHA-256 is a parameter. Sizes are compared as
  natural numbers: a \<^verbatim>\<open>u32\<close> limit always converts to \<^verbatim>\<open>usize\<close>.
\<close>

section \<open>References and limits\<close>

record payload_strategy_ref =
  psr_id :: string
  psr_revision :: u32

datatype payload_variant_role = Control | Candidate

datatype payload_strategy_error =
    EmptyStrategyId
  | StrategyIdTooLong nat nat
  | InvalidStrategyId
  | ZeroRevision
  | ArtifactLimitTooLarge u32 u32
  | SeedTooLarge nat u32
  | ArtifactTooLarge nat u32
  | StrategyIdentityConflict payload_strategy_ref
  | UnknownStrategy payload_strategy_ref
  | StrategyProvenanceMismatch
  | VariantRoleMismatch
  | DerivationFailed

type_synonym 'a payload_res = "('a, payload_strategy_error) res"

definition HARD_MAX_PAYLOAD_STRATEGY_ID_BYTES :: nat where "HARD_MAX_PAYLOAD_STRATEGY_ID_BYTES = 128"
definition HARD_MAX_PAYLOAD_ARTIFACT_BYTES :: u32 where "HARD_MAX_PAYLOAD_ARTIFACT_BYTES = 64 * 1024"
definition DEFAULT_MAX_PAYLOAD_ARTIFACT_BYTES :: u32 where
  "DEFAULT_MAX_PAYLOAD_ARTIFACT_BYTES = 4 * 1024"

definition slug_byte :: "char \<Rightarrow> bool" where
  "slug_byte c \<longleftrightarrow>
     48 \<le> byte c \<and> byte c \<le> 57 \<or> 65 \<le> byte c \<and> byte c \<le> 90 \<or> 97 \<le> byte c \<and> byte c \<le> 122
   \<or> c \<in> {CHR ''.'', CHR ''-'', CHR ''_'', CHR '':''}"

definition payload_strategy_ref_new :: "string \<Rightarrow> u32 \<Rightarrow> payload_strategy_ref payload_res" where
  "payload_strategy_ref_new i revision =
     (if blank i then Err EmptyStrategyId
      else if HARD_MAX_PAYLOAD_STRATEGY_ID_BYTES < length i
      then Err (StrategyIdTooLong (length i) HARD_MAX_PAYLOAD_STRATEGY_ID_BYTES)
      else if \<not> list_all slug_byte i then Err InvalidStrategyId
      else if revision = 0 then Err ZeroRevision
      else Ok \<lparr>psr_id = i, psr_revision = revision\<rparr>)"

record payload_strategy_limits =
  max_seed_bytes :: u32
  max_artifact_bytes :: u32

definition payload_limits_new :: "u32 \<Rightarrow> u32 \<Rightarrow> payload_strategy_limits payload_res" where
  "payload_limits_new seed artifact =
     (if HARD_MAX_PAYLOAD_ARTIFACT_BYTES < seed
      then Err (ArtifactLimitTooLarge seed HARD_MAX_PAYLOAD_ARTIFACT_BYTES)
      else if HARD_MAX_PAYLOAD_ARTIFACT_BYTES < artifact
      then Err (ArtifactLimitTooLarge artifact HARD_MAX_PAYLOAD_ARTIFACT_BYTES)
      else Ok \<lparr>max_seed_bytes = seed, max_artifact_bytes = artifact\<rparr>)"

definition payload_limits_default :: payload_strategy_limits where
  "payload_limits_default =
     \<lparr>max_seed_bytes = DEFAULT_MAX_PAYLOAD_ARTIFACT_BYTES,
      max_artifact_bytes = DEFAULT_MAX_PAYLOAD_ARTIFACT_BYTES\<rparr>"

text \<open>Absent wire fields take the default of the field.\<close>

definition payload_limits_from_wire ::
  "u32 option \<Rightarrow> u32 option \<Rightarrow> payload_strategy_limits payload_res" where
  "payload_limits_from_wire seed artifact =
     payload_limits_new
       (case seed of None \<Rightarrow> max_seed_bytes payload_limits_default | Some s \<Rightarrow> s)
       (case artifact of None \<Rightarrow> max_artifact_bytes payload_limits_default | Some a \<Rightarrow> a)"

section \<open>Seeds and artifacts\<close>

type_synonym payload_seed = "u8 list"

definition payload_seed_new :: "u8 list \<Rightarrow> payload_strategy_limits \<Rightarrow> payload_seed payload_res" where
  "payload_seed_new bytes limits =
     (if unat (max_seed_bytes limits) < length bytes
      then Err (SeedTooLarge (length bytes) (max_seed_bytes limits)) else Ok bytes)"

record payload_artifact =
  pa_strategy :: payload_strategy_ref
  pa_role :: payload_variant_role
  pa_bytes :: "u8 list"
  pa_digest :: "u8 list"

definition payload_artifact_new ::
  "(u8 list \<Rightarrow> u8 list) \<Rightarrow> payload_strategy_ref \<Rightarrow> payload_variant_role \<Rightarrow> u8 list \<Rightarrow>
   payload_strategy_limits \<Rightarrow> payload_artifact payload_res" where
  "payload_artifact_new sha256 strategy role bytes limits =
     (if unat (max_artifact_bytes limits) < length bytes
      then Err (ArtifactTooLarge (length bytes) (max_artifact_bytes limits))
      else Ok \<lparr>pa_strategy = strategy, pa_role = role, pa_bytes = bytes, pa_digest = sha256 bytes\<rparr>)"

record payload_artifact_receipt =
  par_strategy :: payload_strategy_ref
  par_role :: payload_variant_role
  par_byte_length :: u32
  par_sha256 :: string

definition hex_digit :: "nat \<Rightarrow> char" where
  "hex_digit n = (if n < 10 then char_of (48 + n) else char_of (87 + n))"

definition encode_digest :: "u8 list \<Rightarrow> string" where
  "encode_digest digest = concat (map (\<lambda>b. [hex_digit (unat b div 16), hex_digit (unat b mod 16)]) digest)"

definition payload_receipt :: "payload_artifact \<Rightarrow> payload_artifact_receipt" where
  "payload_receipt a =
     \<lparr>par_strategy = pa_strategy a, par_role = pa_role a,
      par_byte_length =
        (if length (pa_bytes a) < 2 ^ 32 then word_of_nat (length (pa_bytes a)) else - 1),
      par_sha256 = encode_digest (pa_digest a)\<rparr>"

section \<open>Registry\<close>

text \<open>A strategy implementation: its reference and its derivation.\<close>

record payload_strategy =
  ps_ref :: payload_strategy_ref
  ps_derive :: "payload_variant_role \<Rightarrow> payload_seed \<Rightarrow> payload_strategy_limits \<Rightarrow> payload_artifact payload_res"

type_synonym payload_registry = "payload_strategy_ref \<rightharpoonup> payload_strategy"

definition payload_register ::
  "payload_strategy \<Rightarrow> payload_registry \<Rightarrow> unit payload_res \<times> payload_registry" where
  "payload_register s reg =
     (if reg (ps_ref s) \<noteq> None then (Err (StrategyIdentityConflict (ps_ref s)), reg)
      else (Ok (), reg(ps_ref s \<mapsto> s)))"

definition registry_derive_one ::
  "payload_registry \<Rightarrow> payload_strategy_ref \<Rightarrow> payload_variant_role \<Rightarrow> payload_seed \<Rightarrow>
   payload_strategy_limits \<Rightarrow> payload_artifact payload_res" where
  "registry_derive_one reg reference role seed limits =
     (if unat (max_seed_bytes limits) < length seed
      then Err (SeedTooLarge (length seed) (max_seed_bytes limits))
      else case reg reference of
          None \<Rightarrow> Err (UnknownStrategy reference)
        | Some s \<Rightarrow>
            and_then (ps_derive s role seed limits) (\<lambda>artifact.
              if pa_strategy artifact \<noteq> reference then Err StrategyProvenanceMismatch
              else if pa_role artifact \<noteq> role then Err VariantRoleMismatch
              else if unat (max_artifact_bytes limits) < length (pa_bytes artifact)
              then Err (ArtifactTooLarge (length (pa_bytes artifact)) (max_artifact_bytes limits))
              else Ok artifact))"

section \<open>Properties\<close>

definition limits_ok :: "payload_strategy_limits \<Rightarrow> bool" where
  "limits_ok l \<longleftrightarrow> unat (max_seed_bytes l) \<le> 65536 \<and> unat (max_artifact_bytes l) \<le> 65536"

lemma payload_limits_new_ok: "payload_limits_new s a = Ok l \<Longrightarrow> limits_ok l"
  by (auto simp: payload_limits_new_def limits_ok_def HARD_MAX_PAYLOAD_ARTIFACT_BYTES_def
      word_less_nat_alt split: if_splits)

lemma payload_limits_from_wire_ok: "payload_limits_from_wire s a = Ok l \<Longrightarrow> limits_ok l"
  unfolding payload_limits_from_wire_def by (rule payload_limits_new_ok)

lemma hex_digit_inj: "m < 16 \<Longrightarrow> n < 16 \<Longrightarrow> hex_digit m = hex_digit n \<longleftrightarrow> m = n"
  by (auto simp: hex_digit_def char_of_eq_iff of_char_of take_bit_eq_mod split: if_splits)

lemma hex_byte_inj:
  "hex_digit (unat (a :: u8) div 16) = hex_digit (unat (b :: u8) div 16) \<Longrightarrow>
   hex_digit (unat a mod 16) = hex_digit (unat b mod 16) \<Longrightarrow> a = b"
proof -
  assume eq: "hex_digit (unat a div 16) = hex_digit (unat b div 16)"
    "hex_digit (unat a mod 16) = hex_digit (unat b mod 16)"
  have "unat a div 16 < 16" "unat b div 16 < 16"
    using unat_less_exp [of a] unat_less_exp [of b] by (simp_all add: div_less_iff_less_mult)
  with eq have "unat a div 16 = unat b div 16" "unat a mod 16 = unat b mod 16"
    by (simp_all add: hex_digit_inj)
  then have "unat a = unat b" by (metis div_mult_mod_eq)
  then show "a = b" by (simp add: word_unat_eq_iff)
qed

lemma encode_digest_inj: "encode_digest d = encode_digest d' \<longleftrightarrow> d = d'"
proof (induction d arbitrary: d')
  case Nil
  then show ?case by (cases d') (auto simp: encode_digest_def)
next
  case (Cons b d)
  show ?case
  proof (cases d')
    case (Cons b' d'')
    then show ?thesis using Cons.IH [of d''] by (auto simp: encode_digest_def dest: hex_byte_inj)
  qed (simp add: encode_digest_def)
qed

text \<open>
  C31. Provenance is checked, not trusted: whatever a registered implementation returns, an artifact
  that the registry hands out comes from the implementation registered for the requested reference,
  carries that reference and the requested role, and lies within the requested envelope, which the
  constructors never let exceed the compiled ceiling; its receipt states its exact length, and its
  hexadecimal digest identifies the digest bytes.
\<close>

theorem registry_artifact_checked:
  assumes "payload_limits_from_wire ms ma = Ok limits"
    and "registry_derive_one reg reference role seed limits = Ok a"
  shows "(\<exists>s. reg reference = Some s \<and> ps_derive s role seed limits = Ok a)
    \<and> pa_strategy a = reference \<and> pa_role a = role
    \<and> length seed \<le> unat (max_seed_bytes limits)
    \<and> length (pa_bytes a) \<le> unat (max_artifact_bytes limits) \<and> length (pa_bytes a) \<le> 65536
    \<and> unat (par_byte_length (payload_receipt a)) = length (pa_bytes a)
    \<and> (par_sha256 (payload_receipt a) = encode_digest d \<longleftrightarrow> d = pa_digest a)"
proof -
  have *: "\<exists>s. reg reference = Some s \<and> ps_derive s role seed limits = Ok a"
    "pa_strategy a = reference" "pa_role a = role"
    "length seed \<le> unat (max_seed_bytes limits)"
    "length (pa_bytes a) \<le> unat (max_artifact_bytes limits)"
    using assms(2) by (auto simp: registry_derive_one_def res_simps split: if_splits option.splits)
  moreover from this(5) have small: "length (pa_bytes a) \<le> 65536"
    using payload_limits_from_wire_ok [OF assms(1)] by (simp add: limits_ok_def)
  moreover from small have "unat (par_byte_length (payload_receipt a)) = length (pa_bytes a)"
    by (simp add: payload_receipt_def unat_of_nat_exact)
  ultimately show ?thesis by (auto simp: payload_receipt_def encode_digest_inj)
qed

definition sample_reference :: payload_strategy_ref where
  "sample_reference = \<lparr>psr_id = ''differential.fixture'', psr_revision = 1\<rparr>"

definition sample_artifact :: payload_artifact where
  "sample_artifact =
     \<lparr>pa_strategy = sample_reference, pa_role = Control, pa_bytes = [1, 2], pa_digest = [171, 205]\<rparr>"

definition sample_registry :: payload_registry where
  "sample_registry =
     snd (payload_register \<lparr>ps_ref = sample_reference, ps_derive = \<lambda>role seed limits. Ok sample_artifact\<rparr>
       Map.empty)"

lemma registry_artifact_checked_witness:
  "payload_limits_from_wire (Some 16) None = Ok \<lparr>max_seed_bytes = 16, max_artifact_bytes = 4096\<rparr>
   \<and> registry_derive_one sample_registry sample_reference Control [7]
       \<lparr>max_seed_bytes = 16, max_artifact_bytes = 4096\<rparr> = Ok sample_artifact
   \<and> pa_role sample_artifact = Control \<and> length (pa_bytes sample_artifact) \<le> 65536"
proof -
  have a: "payload_limits_from_wire (Some 16) None = Ok \<lparr>max_seed_bytes = 16, max_artifact_bytes = 4096\<rparr>"
    by code_simp
  have b: "registry_derive_one sample_registry sample_reference Control [7]
      \<lparr>max_seed_bytes = 16, max_artifact_bytes = 4096\<rparr> = Ok sample_artifact"
    by (simp add: registry_derive_one_def sample_registry_def payload_register_def sample_artifact_def)
  from registry_artifact_checked [OF a b] a b show ?thesis by simp
qed

end
