(* ===== verification/Planner.thy ===== *)
theory Planner
  imports Scoring Payload Registry
begin

text \<open>
  The attack planner (\<open>src/crates/termivar-scanner/src/planner/model.rs\<close>, \<open>policy.rs\<close>,
  \<open>selection.rs\<close>): declarative actions with their wire guard, the registry of actions, the
  depth-first validation of prerequisites, eligibility of a candidate on a knowledge snapshot, the
  greedy budgeted selection of dependency closures, the defense filter and the authorisation of one
  scheduled action. The sets \<open>selected\<close>, \<open>visiting\<close>, \<open>visited\<close> and \<open>retained_ids\<close> of the source
  are only tested for membership and are sets here; costs are summed in 64-bit words.
\<close>

section \<open>Selectors and targets\<close>

datatype required_strength = AnyStrength | StrongOnly

record hypothesis_selector =
  hs_predicate :: knowledge_predicate
  hs_value :: evidence_value
  hs_minimum_posterior :: probability
  hs_required_strength :: required_strength

definition selector_accepts :: "hypothesis_selector \<Rightarrow> hypothesis \<Rightarrow> bool" where
  "selector_accepts s h \<longleftrightarrow>
     h_predicate h = hs_predicate s \<and> h_value h = hs_value s
   \<and> h_state h \<in> {Supported, Confirmed}
   \<and> hs_minimum_posterior s \<le> h_posterior h
   \<and> (hs_required_strength s = AnyStrength \<or> h_strength h = Strong)"

definition selector_select :: "hypothesis_selector \<Rightarrow> hypothesis list \<Rightarrow> hypothesis option" where
  "selector_select s hs =
     fold (\<lambda>h selected.
         if (case selected of None \<Rightarrow> True | Some c \<Rightarrow> h_posterior c < h_posterior h)
         then Some h else selected)
       (filter (selector_accepts s) hs) None"

datatype verification_target = Motivation | Distinct hypothesis_selector | KnowledgeOnly

datatype resolved_target = TargetHypothesis string | TargetKnowledgeOnly

definition is_motivation :: "verification_target \<Rightarrow> bool" where
  "is_motivation t \<longleftrightarrow> t = Motivation"

fun target_resolve :: "verification_target \<Rightarrow> hypothesis list \<Rightarrow> string \<Rightarrow> resolved_target option" where
  "target_resolve Motivation hs motivation = Some (TargetHypothesis motivation)"
| "target_resolve (Distinct s) hs motivation =
     (case selector_select s hs of
        None \<Rightarrow> None
      | Some h \<Rightarrow> if h_id h \<noteq> motivation then Some (TargetHypothesis (h_id h)) else None)"
| "target_resolve KnowledgeOnly hs motivation = Some TargetKnowledgeOnly"

fun target_hypothesis_id :: "resolved_target \<Rightarrow> string option" where
  "target_hypothesis_id (TargetHypothesis i) = Some i"
| "target_hypothesis_id TargetKnowledgeOnly = None"

section \<open>Actions\<close>

record attack_action =
  act_id :: string
  act_executor :: string
  act_payload :: "payload_strategy_ref option"
  act_requirements :: expression
  act_confidence :: hypothesis_selector
  act_gain :: benefit_score
  act_cost :: action_cost
  act_risk :: risk_score
  act_prerequisites :: "string list"
  act_target :: verification_target
  act_guard :: bool

definition planner_non_empty :: "string \<Rightarrow> string \<Rightarrow> string planner_res" where
  "planner_non_empty v field = (if blank v then Err (PlannerEmptyValue field) else Ok v)"

fun check_action_prerequisites :: "string \<Rightarrow> string list \<Rightarrow> unit planner_res" where
  "check_action_prerequisites i [] = Ok ()"
| "check_action_prerequisites i (p # ps) =
     and_then (planner_non_empty p ''action prerequisite'')
       (\<lambda>_. if p = i then Err (SelfDependency i) else check_action_prerequisites i ps)"

definition attack_action_new ::
  "string \<Rightarrow> string \<Rightarrow> expression \<Rightarrow> hypothesis_selector \<Rightarrow> benefit_score \<Rightarrow> action_cost \<Rightarrow>
   risk_score \<Rightarrow> string list \<Rightarrow> attack_action planner_res" where
  "attack_action_new i executor requirements confidence gain cost risk prerequisites =
     and_then (planner_non_empty i ''action id'') (\<lambda>i.
     and_then (planner_non_empty executor ''action executor'') (\<lambda>executor.
     and_then (check_action_prerequisites i prerequisites) (\<lambda>_.
       Ok \<lparr>act_id = i, act_executor = executor, act_payload = None, act_requirements = requirements,
           act_confidence = confidence, act_gain = gain, act_cost = cost, act_risk = risk,
           act_prerequisites = prerequisites, act_target = Motivation, act_guard = False\<rparr>)))"

definition with_verification_target :: "verification_target \<Rightarrow> attack_action \<Rightarrow> attack_action" where
  "with_verification_target t a = a\<lparr>act_guard := \<not> is_motivation t, act_target := t\<rparr>"

definition with_payload_strategy :: "payload_strategy_ref \<Rightarrow> attack_action \<Rightarrow> attack_action" where
  "with_payload_strategy s a = a\<lparr>act_payload := Some s\<rparr>"

text \<open>
  The wire form of an action. Absent optional fields are \<open>None\<close>; \<open>wa_extensions\<close> are the names of
  the fields that the decoder does not know.
\<close>

record wire_action =
  wa_id :: string
  wa_executor :: string
  wa_payload :: "payload_strategy_ref option"
  wa_requirements :: expression
  wa_confidence :: hypothesis_selector
  wa_gain :: benefit_score
  wa_cost :: action_cost
  wa_risk :: risk_score
  wa_prerequisites :: "string list"
  wa_target :: "verification_target option"
  wa_guard :: "bool option"
  wa_extensions :: "string list"

datatype action_wire_error = ReservedActionField | TargetGuardInconsistent | InvalidAction planner_error

definition action_from_wire :: "wire_action \<Rightarrow> (attack_action, action_wire_error) res" where
  "action_from_wire w =
     (let target = (case wa_target w of None \<Rightarrow> Motivation | Some t \<Rightarrow> t);
          guard = (case wa_guard w of None \<Rightarrow> False | Some g \<Rightarrow> g)
      in if list_ex (\<lambda>f. starts_with f ''payload_'' \<or> starts_with f ''verification_'') (wa_extensions w)
         then Err ReservedActionField
         else if guard = is_motivation target then Err TargetGuardInconsistent
         else
           and_then (map_err InvalidAction
               (attack_action_new (wa_id w) (wa_executor w) (wa_requirements w) (wa_confidence w)
                 (wa_gain w) (wa_cost w) (wa_risk w) (wa_prerequisites w))) (\<lambda>action.
             let action = with_verification_target target action
             in Ok (case wa_payload w of Some s \<Rightarrow> with_payload_strategy s action | None \<Rightarrow> action)))"

text \<open>Serialisation leaves out an absent strategy, a default target and a false guard.\<close>

definition action_to_wire :: "attack_action \<Rightarrow> wire_action" where
  "action_to_wire a =
     \<lparr>wa_id = act_id a, wa_executor = act_executor a, wa_payload = act_payload a,
      wa_requirements = act_requirements a, wa_confidence = act_confidence a, wa_gain = act_gain a,
      wa_cost = act_cost a, wa_risk = act_risk a, wa_prerequisites = act_prerequisites a,
      wa_target = (if is_motivation (act_target a) then None else Some (act_target a)),
      wa_guard = (if act_guard a then Some True else None), wa_extensions = []\<rparr>"

section \<open>Contexts and plans\<close>

record planning_context =
  pc_business_value :: benefit_score
  pc_budget :: u64
  pc_maximum_risk :: risk_score
  pc_minimum_utility :: utility_score

definition planning_context_new :: "benefit_score \<Rightarrow> u64 \<Rightarrow> risk_score \<Rightarrow> planning_context" where
  "planning_context_new business_value budget maximum_risk =
     \<lparr>pc_business_value = business_value, pc_budget = budget, pc_maximum_risk = maximum_risk,
      pc_minimum_utility = 1\<rparr>"

datatype exclusion_reason =
    PolicySuppressed
  | DefenseSuppressed
  | RequirementsNotMet
  | NoEligibleHypothesis
  | NoEligibleVerificationTarget
  | RiskLimitExceeded risk_score risk_score
  | BelowMinimumUtility utility_score utility_score
  | DependencyUnavailable string
  | BudgetExceeded u64 u64

record plan_step =
  st_position :: nat
  st_action_id :: string
  st_executor :: string
  st_payload :: "payload_strategy_ref option"
  st_prerequisites :: "string list"
  st_confidence_id :: string
  st_target :: resolved_target
  st_requirements :: expression_trace
  st_utility :: utility_breakdown

record attack_plan =
  ap_subject :: entity_id
  ap_context :: planning_context
  ap_total_cost :: u64
  ap_steps :: "plan_step list"
  ap_excluded :: "(string \<times> exclusion_reason) list"

record suppression_context =
  sup_policy :: "string list"
  sup_defense :: "string list"

definition policy_only :: "string list \<Rightarrow> suppression_context" where
  "policy_only actions = \<lparr>sup_policy = actions, sup_defense = []\<rparr>"

section \<open>Registration and dependency validation\<close>

type_synonym attack_planner = "(string, attack_action) bmap"

datatype planner_write = ActionInserted | ActionUnchanged

definition planner_register ::
  "attack_action \<Rightarrow> attack_planner \<Rightarrow> planner_write planner_res \<times> attack_planner" where
  "planner_register action actions =
     (case map_of actions (act_id action) of
        Some existing \<Rightarrow>
          if existing = action then (Ok ActionUnchanged, actions)
          else (Err (ActionIdentityConflict (act_id action)), actions)
      | None \<Rightarrow> (Ok ActionInserted, bmap_insert (act_id action) action actions))"

interpretation action_registry: registry map_of act_id planner_register ActionInserted ActionUnchanged
    "\<lambda>action. ActionIdentityConflict (act_id action)"
  by unfold_locales (auto simp: planner_register_def)

fun check_known_prerequisites :: "attack_planner \<Rightarrow> string \<Rightarrow> string list \<Rightarrow> unit planner_res" where
  "check_known_prerequisites actions i [] = Ok ()"
| "check_known_prerequisites actions i (p # ps) =
     (if map_of actions p = None then Err (UnknownPrerequisite i p)
      else check_known_prerequisites actions i ps)"

text \<open>
  \<open>visit_dependencies\<close> runs \<^verbatim>\<open>visit_dependency\<close> on a list of action identities, the form in which
  both loops of the source call it; the state is the pair of the sets \<open>visiting\<close> and \<open>visited\<close>.
\<close>

function visit_dependencies ::
  "attack_planner \<Rightarrow> string list \<Rightarrow> string set \<times> string set \<Rightarrow> (string set \<times> string set) planner_res" where
  "visit_dependencies actions [] s = Ok s"
| "visit_dependencies actions (i # ids) (visiting, visited) =
     (if i \<in> visited then visit_dependencies actions ids (visiting, visited)
      else if i \<in> visiting then Err (DependencyCycle i)
      else case map_of actions i of
          None \<Rightarrow> Panic
        | Some action \<Rightarrow>
            (case visit_dependencies actions (act_prerequisites action) (insert i visiting, visited) of
               Ok (visiting', visited') \<Rightarrow>
                 visit_dependencies actions ids (visiting' - {i}, insert i visited')
             | Err e \<Rightarrow> Err e
             | Panic \<Rightarrow> Panic))"
  by pat_completeness auto

lemma visit_dependencies_visiting:
  assumes "visit_dependencies_dom (actions, ids, s)" and "visit_dependencies actions ids s = Ok s'"
  shows "fst s' = fst s"
  using assms
proof (induction actions ids s arbitrary: s' rule: visit_dependencies.pinduct)
  case (1 actions s)
  then show ?case by (simp add: visit_dependencies.psimps)
next
  case (2 actions i ids visiting visited)
  show ?case
  proof (cases "i \<in> visited")
    case True
    with 2 show ?thesis by (simp add: visit_dependencies.psimps)
  next
    case False
    with 2(1,5) obtain action v d where new: "i \<notin> visiting" "map_of actions i = Some action"
      and sub: "visit_dependencies actions (act_prerequisites action) (insert i visiting, visited) = Ok (v, d)"
      and rest: "visit_dependencies actions ids (v - {i}, insert i d) = Ok s'"
      by (auto simp: visit_dependencies.psimps split: if_splits option.splits res.splits)
    have "fst (v, d) = fst (insert i visiting, visited)"
      by (rule 2(3) [OF False new sub])
    moreover have "fst s' = fst (v - {i}, insert i d)"
      by (rule 2(4) [OF False new sub refl rest])
    ultimately show ?thesis using new(1) by simp
  qed
qed

termination visit_dependencies
proof (relation "measures [\<lambda>(actions, ids, s). card (fst ` set actions - fst s), \<lambda>(actions, ids, s). length ids]",
    goal_cases)
  case (3 actions i ids visiting visited action)
  then have "fst ` set actions - insert i visiting \<subset> fst ` set actions - visiting"
    by (force dest: map_of_SomeD)
  then have "card (fst ` set actions - insert i visiting) < card (fst ` set actions - visiting)"
    by (intro psubset_card_mono) auto
  then show ?case by simp
next
  case (4 actions i ids visiting visited action p visiting' visited')
  then have "visiting' = insert i visiting" using visit_dependencies_visiting by fastforce
  with 4 show ?case by simp
qed auto

fun check_all_known :: "attack_planner \<Rightarrow> attack_action list \<Rightarrow> unit planner_res" where
  "check_all_known actions [] = Ok ()"
| "check_all_known actions (a # as) =
     and_then (check_known_prerequisites actions (act_id a) (act_prerequisites a))
       (\<lambda>_. check_all_known actions as)"

definition validate_dependencies :: "attack_planner \<Rightarrow> unit planner_res" where
  "validate_dependencies actions =
     and_then (check_all_known actions (map snd actions)) (\<lambda>_.
     and_then (visit_dependencies actions (map fst actions) ({}, {})) (\<lambda>_. Ok ()))"

section \<open>Eligibility\<close>

record eligible_candidate =
  ec_action :: attack_action
  ec_confidence_id :: string
  ec_target :: resolved_target
  ec_requirements :: expression_trace
  ec_utility :: utility_breakdown

definition evaluate_candidate ::
  "attack_action \<Rightarrow> knowledge_snapshot \<Rightarrow> planning_context \<Rightarrow> exclusion_reason option \<Rightarrow>
   (eligible_candidate + exclusion_reason) planner_res" where
  "evaluate_candidate action sn context suppression =
     (case suppression of
        Some reason \<Rightarrow> Ok (Inr reason)
      | None \<Rightarrow>
          and_then (map_err PlannerRule (evaluate_node sn (act_requirements action))) (\<lambda>requirements.
            if \<not> tr_matched requirements then Ok (Inr RequirementsNotMet)
            else if pc_maximum_risk context < act_risk action
            then Ok (Inr (RiskLimitExceeded (act_risk action) (pc_maximum_risk context)))
            else case selector_select (act_confidence action) (sn_hypotheses sn) of
                None \<Rightarrow> Ok (Inr NoEligibleHypothesis)
              | Some h \<Rightarrow>
                  (case target_resolve (act_target action) (sn_hypotheses sn) (h_id h) of
                     None \<Rightarrow> Ok (Inr NoEligibleVerificationTarget)
                   | Some target \<Rightarrow>
                       and_then (utility_calculate (act_gain action) (h_posterior h)
                           (pc_business_value context) (act_cost action) (act_risk action)) (\<lambda>utility.
                         if ub_score utility < pc_minimum_utility context
                         then Ok (Inr (BelowMinimumUtility (ub_score utility) (pc_minimum_utility context)))
                         else Ok (Inl \<lparr>ec_action = action, ec_confidence_id = h_id h, ec_target = target,
                                       ec_requirements = requirements, ec_utility = utility\<rparr>)))))"

definition plan_step_of :: "nat \<Rightarrow> eligible_candidate \<Rightarrow> plan_step" where
  "plan_step_of position c =
     \<lparr>st_position = position, st_action_id = act_id (ec_action c), st_executor = act_executor (ec_action c),
      st_payload = act_payload (ec_action c), st_prerequisites = act_prerequisites (ec_action c),
      st_confidence_id = ec_confidence_id c, st_target = ec_target c,
      st_requirements = ec_requirements c, st_utility = ec_utility c\<rparr>"

type_synonym eligible_map = "(string, eligible_candidate) bmap"
type_synonym exclusions = "(string, exclusion_reason) bmap"

fun partition_candidates ::
  "knowledge_snapshot \<Rightarrow> planning_context \<Rightarrow> string list \<Rightarrow> attack_action list \<Rightarrow>
   eligible_map \<times> exclusions \<Rightarrow> (eligible_map \<times> exclusions) planner_res" where
  "partition_candidates sn context suppressed [] s = Ok s"
| "partition_candidates sn context suppressed (a # as) (eligible, excl) =
     and_then (evaluate_candidate a sn context
         (if act_id a \<in> set suppressed then Some PolicySuppressed else None)) (\<lambda>r.
       case r of
         Inl c \<Rightarrow> partition_candidates sn context suppressed as (bmap_insert (act_id a) c eligible, excl)
       | Inr x \<Rightarrow> partition_candidates sn context suppressed as (eligible, bmap_insert (act_id a) x excl))"

section \<open>Dependency closures\<close>

text \<open>
  \<^verbatim>\<open>None\<close> of the source is \<open>Ok\<close> with the updated \<open>visiting\<close> and \<open>ordered\<close>, and
  \<^verbatim>\<open>Some(unavailable)\<close> is \<open>Err unavailable\<close>: the caller drops both collections then.
\<close>

function build_eligible_closure ::
  "eligible_map \<Rightarrow> string set \<Rightarrow> string \<Rightarrow> string set \<times> string list \<Rightarrow> (string set \<times> string list, string) res"
and closure_prerequisites ::
  "eligible_map \<Rightarrow> string set \<Rightarrow> string list \<Rightarrow> string set \<times> string list \<Rightarrow> (string set \<times> string list, string) res"
where
  "build_eligible_closure eligible selected i (visiting, ordered) =
     (if i \<in> selected \<or> i \<in> set ordered then Ok (visiting, ordered)
      else case map_of eligible i of
          None \<Rightarrow> Err i
        | Some c \<Rightarrow>
            (case closure_prerequisites eligible selected (act_prerequisites (ec_action c))
                    (insert i visiting, ordered) of
               Ok (visiting', ordered') \<Rightarrow> Ok (visiting' - {i}, ordered' @ [i])
             | Err u \<Rightarrow> Err u
             | Panic \<Rightarrow> Panic))"
| "closure_prerequisites eligible selected [] s = Ok s"
| "closure_prerequisites eligible selected (p # ps) (visiting, ordered) =
     (if map_of eligible p = None then Err p
      else if p \<in> visiting then closure_prerequisites eligible selected ps (visiting, ordered)
      else case build_eligible_closure eligible selected p (visiting, ordered) of
          Ok s \<Rightarrow> closure_prerequisites eligible selected ps s
        | Err u \<Rightarrow> Err u
        | Panic \<Rightarrow> Panic)"
  by pat_completeness auto

lemma closure_visiting:
  shows "build_eligible_closure_closure_prerequisites_dom (Inl (eligible, selected, i, s)) \<Longrightarrow>
      build_eligible_closure eligible selected i s = Ok s' \<Longrightarrow> i \<notin> fst s \<Longrightarrow> fst s' = fst s"
    and "build_eligible_closure_closure_prerequisites_dom (Inr (eligible, selected, ps, s)) \<Longrightarrow>
      closure_prerequisites eligible selected ps s = Ok s' \<Longrightarrow> fst s' = fst s"
proof (induction eligible selected i s and eligible selected ps s arbitrary: s' and s'
    rule: build_eligible_closure_closure_prerequisites.pinduct)
  case (1 eligible selected i visiting ordered)
  then show ?case
    by (fastforce simp: build_eligible_closure.psimps split: if_splits option.splits res.splits)
next
  case (2 eligible selected s)
  then show ?case by (simp add: closure_prerequisites.psimps)
next
  case (3 eligible selected p ps visiting ordered)
  have known: "map_of eligible p \<noteq> None" using 3(1,5) by (auto simp: closure_prerequisites.psimps split: if_splits)
  show ?case
  proof (cases "p \<in> visiting")
    case True
    with 3(1,5) known have "closure_prerequisites eligible selected ps (visiting, ordered) = Ok s'"
      by (simp add: closure_prerequisites.psimps)
    then show ?thesis using 3(2) [OF known True] by simp
  next
    case False
    with 3(1,5) known obtain s1 where
      s1: "build_eligible_closure eligible selected p (visiting, ordered) = Ok s1"
      and rest: "closure_prerequisites eligible selected ps s1 = Ok s'"
      by (auto simp: closure_prerequisites.psimps split: res.splits)
    have "fst s1 = visiting" using 3(3) [OF known False s1] False by simp
    moreover have "fst s' = fst s1" by (rule 3(4) [OF known False s1 rest])
    ultimately show ?thesis by simp
  qed
qed

termination build_eligible_closure
proof (relation "measures
    [\<lambda>x. case x of
        Inl (eligible, selected, i, s) \<Rightarrow> card (fst ` set eligible - fst s) + (if i \<in> fst s then 1 else 0)
      | Inr (eligible, selected, ps, s) \<Rightarrow> card (fst ` set eligible - fst s),
     \<lambda>x. case x of Inl _ \<Rightarrow> 0 | Inr (eligible, selected, ps, s) \<Rightarrow> Suc (length ps)]", goal_cases)
  case (2 eligible selected i visiting ordered c)
  show ?case
  proof (cases "i \<in> visiting")
    case True
    then show ?thesis by (simp add: insert_absorb)
  next
    case False
    with 2 have "fst ` set eligible - insert i visiting \<subset> fst ` set eligible - visiting"
      by (force dest: map_of_SomeD)
    then have "card (fst ` set eligible - insert i visiting) < card (fst ` set eligible - visiting)"
      by (intro psubset_card_mono) auto
    with False show ?thesis by simp
  qed
next
  case (5 eligible selected p ps visiting ordered s)
  then have "fst s = visiting" using closure_visiting(1) by fastforce
  then show ?case by simp
qed auto

section \<open>Selection\<close>

definition ranks_before :: "string \<times> eligible_candidate \<Rightarrow> string \<times> eligible_candidate \<Rightarrow> bool" where
  "ranks_before l r \<longleftrightarrow>
     ub_score (ec_utility (snd r)) < ub_score (ec_utility (snd l))
   \<or> ub_score (ec_utility (snd r)) = ub_score (ec_utility (snd l)) \<and> fst l \<le> fst r"

definition ranked_ids :: "eligible_map \<Rightarrow> string list" where
  "ranked_ids eligible = map fst (sort_by ranks_before eligible)"

fun closure_cost :: "eligible_map \<Rightarrow> string list \<Rightarrow> u64 \<Rightarrow> u64 planner_res" where
  "closure_cost eligible [] acc = Ok acc"
| "closure_cost eligible (i # ids) acc =
     (case map_of eligible i of
        None \<Rightarrow> Panic
      | Some c \<Rightarrow> closure_cost eligible ids (acc + ucast (act_cost (ec_action c))))"

record selection =
  sl_selected :: "string set"
  sl_ordered :: "string list"
  sl_total_cost :: u64
  sl_exclusions :: exclusions

fun commit_closure :: "eligible_map \<Rightarrow> string list \<Rightarrow> selection \<Rightarrow> selection planner_res" where
  "commit_closure eligible [] s = Ok s"
| "commit_closure eligible (i # ids) s =
     (if i \<in> sl_selected s then commit_closure eligible ids s
      else case map_of eligible i of
          None \<Rightarrow> Panic
        | Some c \<Rightarrow>
            commit_closure eligible ids
              (s\<lparr>sl_selected := insert i (sl_selected s), sl_ordered := sl_ordered s @ [i],
                 sl_total_cost := sl_total_cost s + ucast (act_cost (ec_action c))\<rparr>))"

definition consider_candidate ::
  "eligible_map \<Rightarrow> u64 \<Rightarrow> string \<Rightarrow> selection \<Rightarrow> selection planner_res" where
  "consider_candidate eligible budget i s =
     (if i \<in> sl_selected s then Ok s
      else case build_eligible_closure eligible (sl_selected s) i ({}, []) of
          Panic \<Rightarrow> Panic
        | Err unavailable \<Rightarrow>
            Ok (s\<lparr>sl_exclusions := bmap_insert i (DependencyUnavailable unavailable) (sl_exclusions s)\<rparr>)
        | Ok (_, closure) \<Rightarrow>
            and_then (closure_cost eligible closure 0) (\<lambda>required.
              let remaining = saturating_sub budget (sl_total_cost s)
              in if remaining < required
                 then Ok (s\<lparr>sl_exclusions := bmap_insert i (BudgetExceeded required remaining) (sl_exclusions s)\<rparr>)
                 else commit_closure eligible closure s))"

fun select_candidates :: "eligible_map \<Rightarrow> u64 \<Rightarrow> string list \<Rightarrow> selection \<Rightarrow> selection planner_res" where
  "select_candidates eligible budget [] s = Ok s"
| "select_candidates eligible budget (i # ids) s =
     and_then (consider_candidate eligible budget i s) (select_candidates eligible budget ids)"

fun collect_excluded ::
  "string list \<Rightarrow> exclusions \<Rightarrow> (string \<times> exclusion_reason) list planner_res" where
  "collect_excluded [] excl = Ok []"
| "collect_excluded (i # ids) excl =
     (case map_of excl i of
        None \<Rightarrow> Err (IncompleteDecision i)
      | Some reason \<Rightarrow> and_then (collect_excluded ids excl) (\<lambda>rest. Ok ((i, reason) # rest)))"

fun number_steps :: "eligible_map \<Rightarrow> nat \<Rightarrow> string list \<Rightarrow> plan_step list planner_res" where
  "number_steps eligible n [] = Ok []"
| "number_steps eligible n (i # ids) =
     (case map_of eligible i of
        None \<Rightarrow> Panic
      | Some c \<Rightarrow> and_then (number_steps eligible (Suc n) ids) (\<lambda>rest. Ok (plan_step_of n c # rest)))"

definition plan_with_policy_suppressed ::
  "attack_planner \<Rightarrow> knowledge_snapshot \<Rightarrow> planning_context \<Rightarrow> string list \<Rightarrow> attack_plan planner_res" where
  "plan_with_policy_suppressed actions sn context suppressed =
     and_then (validate_dependencies actions) (\<lambda>_.
     and_then (partition_candidates sn context suppressed (map snd actions) ([], [])) (\<lambda>(eligible, excl).
     and_then (select_candidates eligible (pc_budget context) (ranked_ids eligible)
         \<lparr>sl_selected = {}, sl_ordered = [], sl_total_cost = 0, sl_exclusions = excl\<rparr>) (\<lambda>s.
     and_then (number_steps eligible 0 (sl_ordered s)) (\<lambda>steps.
     and_then (collect_excluded (filter (\<lambda>i. i \<notin> sl_selected s) (map fst actions)) (sl_exclusions s)) (\<lambda>excluded.
       Ok \<lparr>ap_subject = sn_subject sn, ap_context = context, ap_total_cost = sl_total_cost s,
           ap_steps = steps, ap_excluded = excluded\<rparr>)))))"

section \<open>Defense filter\<close>

definition filter_reason :: "string list \<Rightarrow> string set \<Rightarrow> plan_step \<Rightarrow> exclusion_reason option" where
  "filter_reason defense retained_ids step =
     (if st_action_id step \<in> set defense then Some DefenseSuppressed
      else map_option DependencyUnavailable (find (\<lambda>p. p \<notin> retained_ids) (st_prerequisites step)))"

fun filter_steps ::
  "string list \<Rightarrow> plan_step list \<Rightarrow> string set \<Rightarrow> plan_step list \<Rightarrow> exclusions \<Rightarrow> plan_step list \<times> exclusions" where
  "filter_steps defense [] retained_ids retained removed = (retained, removed)"
| "filter_steps defense (step # steps) retained_ids retained removed =
     (case filter_reason defense retained_ids step of
        Some reason \<Rightarrow>
          filter_steps defense steps retained_ids retained (bmap_insert (st_action_id step) reason removed)
      | None \<Rightarrow>
          filter_steps defense steps (insert (st_action_id step) retained_ids)
            (retained @ [step\<lparr>st_position := length retained\<rparr>]) removed)"

definition into_defense_filtered :: "attack_plan \<Rightarrow> string list \<Rightarrow> attack_plan" where
  "into_defense_filtered plan defense =
     (if defense = [] then plan
      else if \<not> list_ex (\<lambda>step. st_action_id step \<in> set defense) (ap_steps plan) then plan
      else
        (case filter_steps defense (ap_steps plan) {} [] [] of
           (retained, removed) \<Rightarrow>
             plan\<lparr>ap_total_cost := sum_list (map (\<lambda>step. ucast (ub_cost (st_utility step))) retained),
                  ap_steps := retained,
                  ap_excluded := fold (\<lambda>(i, x). bmap_insert i x) removed
                    (fold (\<lambda>(i, x). bmap_insert i x) (ap_excluded plan) [])\<rparr>))"

definition plan_with_action_suppressions_and_baseline ::
  "attack_planner \<Rightarrow> knowledge_snapshot \<Rightarrow> planning_context \<Rightarrow> suppression_context \<Rightarrow>
   (attack_plan \<times> attack_plan) planner_res" where
  "plan_with_action_suppressions_and_baseline actions sn context suppr =
     and_then (plan_with_policy_suppressed actions sn context (sup_policy suppr)) (\<lambda>baseline.
       Ok (baseline, into_defense_filtered baseline (sup_defense suppr)))"

definition plan_with_action_suppressions ::
  "attack_planner \<Rightarrow> knowledge_snapshot \<Rightarrow> planning_context \<Rightarrow> suppression_context \<Rightarrow>
   attack_plan planner_res" where
  "plan_with_action_suppressions actions sn context suppr =
     and_then (plan_with_action_suppressions_and_baseline actions sn context suppr) (\<lambda>(_, filtered). Ok filtered)"

definition plan_snapshot_with_suppressed ::
  "attack_planner \<Rightarrow> knowledge_snapshot \<Rightarrow> planning_context \<Rightarrow> string list \<Rightarrow> attack_plan planner_res" where
  "plan_snapshot_with_suppressed actions sn context suppressed =
     plan_with_action_suppressions actions sn context (policy_only suppressed)"

definition plan_snapshot ::
  "attack_planner \<Rightarrow> knowledge_snapshot \<Rightarrow> planning_context \<Rightarrow> attack_plan planner_res" where
  "plan_snapshot actions sn context = plan_snapshot_with_suppressed actions sn context []"

definition planner_plan ::
  "attack_planner \<Rightarrow> knowledge_base \<Rightarrow> entity_id \<Rightarrow> planning_context \<Rightarrow> attack_plan planner_res" where
  "planner_plan actions kb subject context = plan_snapshot actions (snapshot_for_subject kb subject) context"

definition planner_plan_with_suppressed ::
  "attack_planner \<Rightarrow> knowledge_base \<Rightarrow> entity_id \<Rightarrow> planning_context \<Rightarrow> string list \<Rightarrow> attack_plan planner_res" where
  "planner_plan_with_suppressed actions kb subject context suppressed =
     plan_snapshot_with_suppressed actions (snapshot_for_subject kb subject) context suppressed"

definition plan_snapshot_with_defense_suppressed ::
  "attack_planner \<Rightarrow> knowledge_snapshot \<Rightarrow> planning_context \<Rightarrow> string list \<Rightarrow> string list \<Rightarrow>
   attack_plan planner_res" where
  "plan_snapshot_with_defense_suppressed actions sn context policy defense =
     plan_with_action_suppressions actions sn context \<lparr>sup_policy = policy, sup_defense = defense\<rparr>"

section \<open>Scheduled actions\<close>

datatype scheduled_error =
    ScheduledPlanner planner_error
  | Unregistered string
  | HasPrerequisites string
  | ScheduledExcluded string exclusion_reason

definition authorize_scheduled_action ::
  "attack_planner \<Rightarrow> knowledge_snapshot \<Rightarrow> planning_context \<Rightarrow> suppression_context \<Rightarrow> string \<Rightarrow>
   (plan_step, scheduled_error) res" where
  "authorize_scheduled_action actions sn context suppr i =
     and_then (map_err ScheduledPlanner (validate_dependencies actions)) (\<lambda>_.
       case map_of actions i of
         None \<Rightarrow> Err (Unregistered i)
       | Some action \<Rightarrow>
           and_then (map_err ScheduledPlanner
               (evaluate_candidate action sn context
                 (if i \<in> set (sup_defense suppr) then Some DefenseSuppressed
                  else if i \<in> set (sup_policy suppr) then Some PolicySuppressed else None))) (\<lambda>r.
             case r of
               Inr reason \<Rightarrow> Err (ScheduledExcluded i reason)
             | Inl c \<Rightarrow>
                 if act_prerequisites (ec_action c) \<noteq> [] then Err (HasPrerequisites i)
                 else if pc_budget context < ucast (act_cost (ec_action c))
                 then Err (ScheduledExcluded i
                        (BudgetExceeded (ucast (act_cost (ec_action c))) (pc_budget context)))
                 else Ok (plan_step_of 0 c)))"

end
