(* ===== verification/Planner_Graph.thy ===== *)
theory Planner_Graph
  imports Planner
begin

text \<open>
  The dependency graph of the planner: validation accepts exactly the acyclic graphs whose
  prerequisites are registered, and the closure of a candidate lists its missing prerequisites in
  an order that respects them.
\<close>

section \<open>Dependency validation\<close>

definition dependency_edges :: "attack_planner \<Rightarrow> (string \<times> string) set" where
  "dependency_edges actions =
     {(i, p). \<exists>a. map_of actions i = Some a \<and> p \<in> set (act_prerequisites a)}"

definition prerequisites_known :: "attack_planner \<Rightarrow> bool" where
  "prerequisites_known actions \<longleftrightarrow> (\<forall>(i, p) \<in> dependency_edges actions. map_of actions p \<noteq> None)"

definition actions_keyed :: "attack_planner \<Rightarrow> bool" where
  "actions_keyed actions \<longleftrightarrow> bmap_ok actions \<and> (\<forall>i a. map_of actions i = Some a \<longrightarrow> act_id a = i)"

lemma actions_keyed_register:
  "actions_keyed actions \<Longrightarrow> actions_keyed (snd (planner_register a actions))"
  by (auto simp: actions_keyed_def planner_register_def bmap_ok_insert split: option.split)

lemma dependency_edgesI:
  "map_of actions i = Some a \<Longrightarrow> p \<in> set (act_prerequisites a) \<Longrightarrow> (i, p) \<in> dependency_edges actions"
  by (auto simp: dependency_edges_def)

lemma prerequisites_knownD:
  "prerequisites_known actions \<Longrightarrow> map_of actions i = Some a \<Longrightarrow>
   \<forall>p \<in> set (act_prerequisites a). map_of actions p \<noteq> None"
  unfolding prerequisites_known_def using dependency_edgesI by fast

lemma check_known_iff:
  "check_known_prerequisites actions i ps \<noteq> Panic \<and>
   (check_known_prerequisites actions i ps = Ok () \<longleftrightarrow> (\<forall>p \<in> set ps. map_of actions p \<noteq> None))"
  by (induction ps) auto

lemma check_all_known_iff:
  "check_all_known actions as \<noteq> Panic \<and>
   (check_all_known actions as = Ok () \<longleftrightarrow>
     (\<forall>a \<in> set as. \<forall>p \<in> set (act_prerequisites a). map_of actions p \<noteq> None))"
proof (induction as)
  case (Cons a as)
  then show ?case
    using check_known_iff [of actions "act_id a" "act_prerequisites a"] by (auto simp: res_simps)
qed simp

lemma bmap_values: "bmap_ok m \<Longrightarrow> v \<in> snd ` set m \<longleftrightarrow> (\<exists>k. map_of m k = Some v)"
  by (force dest: map_of_SomeD simp: bmap_ok_distinct)

lemma check_all_known_actions:
  assumes "bmap_ok actions"
  shows "check_all_known actions (map snd actions) = Ok () \<longleftrightarrow> prerequisites_known actions"
  using check_all_known_iff [of actions "map snd actions"] bmap_values [OF assms]
  by (fastforce simp: prerequisites_known_def dependency_edges_def)

text \<open>What a successful visit leaves behind: a closed, cycle-free set of visited actions.\<close>

definition settled :: "attack_planner \<Rightarrow> string set \<Rightarrow> bool" where
  "settled actions V \<longleftrightarrow>
     (\<forall>(i, p) \<in> dependency_edges actions. i \<in> V \<longrightarrow> p \<in> V)
   \<and> (\<forall>i \<in> V. (i, i) \<notin> (dependency_edges actions)\<^sup>+)"

lemma settled_closed:
  assumes "settled actions V" and "(i, j) \<in> (dependency_edges actions)\<^sup>*" and "i \<in> V"
  shows "j \<in> V"
  using assms(2,1,3) by (induction rule: rtrancl_induct) (auto simp: settled_def)

lemma settled_insert:
  assumes "settled actions V" and "i \<notin> V" and "map_of actions i = Some a"
    and "set (act_prerequisites a) \<subseteq> V"
  shows "settled actions (insert i V)"
proof -
  have out: "p \<in> V" if "(i, p) \<in> dependency_edges actions" for p
    using that assms(3,4) by (auto simp: dependency_edges_def)
  have "(i, i) \<notin> (dependency_edges actions)\<^sup>+"
  proof
    assume "(i, i) \<in> (dependency_edges actions)\<^sup>+"
    then obtain p where "(i, p) \<in> dependency_edges actions" "(p, i) \<in> (dependency_edges actions)\<^sup>*"
      by (blast dest: tranclD)
    then show False using out settled_closed [OF assms(1)] assms(2) by blast
  qed
  with assms(1) out show ?thesis by (auto simp: settled_def)
qed

lemma visit_Ok:
  assumes "visit_dependencies actions ids s = Ok s'" and "fst s \<inter> snd s = {}" and "settled actions (snd s)"
  shows "fst s' = fst s \<and> snd s \<subseteq> snd s' \<and> set ids \<subseteq> snd s' \<and> fst s \<inter> snd s' = {} \<and> settled actions (snd s')"
  using assms
proof (induction actions ids s arbitrary: s' rule: visit_dependencies.induct)
  case (2 actions i ids visiting visited)
  show ?case
  proof (cases "i \<in> visited")
    case True
    with 2 show ?thesis by auto
  next
    case False
    with 2(4) obtain a v d where new: "i \<notin> visiting" "map_of actions i = Some a"
      and sub: "visit_dependencies actions (act_prerequisites a) (insert i visiting, visited) = Ok (v, d)"
      and rest: "visit_dependencies actions ids (v - {i}, insert i d) = Ok s'"
      by (auto split: if_splits option.splits res.splits)
    have inner: "v = insert i visiting \<and> visited \<subseteq> d \<and> set (act_prerequisites a) \<subseteq> d
        \<and> insert i visiting \<inter> d = {} \<and> settled actions d"
      using 2(2) [OF False new sub] 2(5,6) False by simp
    have "fst s' = fst (v - {i}, insert i d) \<and> snd (v - {i}, insert i d) \<subseteq> snd s' \<and> set ids \<subseteq> snd s'
        \<and> fst (v - {i}, insert i d) \<inter> snd s' = {} \<and> settled actions (snd s')"
      by (rule 2(3) [OF False new sub refl rest])
        (use inner new in \<open>auto intro: settled_insert\<close>)
    with inner new show ?thesis by auto
  qed
qed simp

text \<open>A failing visit has found a cycle, provided every action on the stack leads to the current one.\<close>

lemma visit_fails:
  assumes "prerequisites_known actions" and "\<forall>i \<in> set ids. map_of actions i \<noteq> None"
    and "\<forall>v \<in> fst s. \<forall>i \<in> set ids. (v, i) \<in> (dependency_edges actions)\<^sup>+"
    and "acyclic (dependency_edges actions)"
  shows "\<exists>s'. visit_dependencies actions ids s = Ok s' \<and> fst s' = fst s"
  using assms
proof (induction actions ids s rule: visit_dependencies.induct)
  case (2 actions i ids visiting visited)
  let ?E = "dependency_edges actions"
  show ?case
  proof (cases "i \<in> visited")
    case True
    with 2 show ?thesis by simp
  next
    case False
    have new: "i \<notin> visiting" using 2(6,7) by (auto simp: acyclic_def)
    obtain a where a: "map_of actions i = Some a" using 2(5) by auto
    have edge: "(i, p) \<in> ?E" if "p \<in> set (act_prerequisites a)" for p
      using a that by (rule dependency_edgesI)
    have known: "\<forall>p \<in> set (act_prerequisites a). map_of actions p \<noteq> None"
      using 2(4) a by (rule prerequisites_knownD)
    have "\<forall>v \<in> insert i visiting. \<forall>p \<in> set (act_prerequisites a). (v, p) \<in> ?E\<^sup>+"
      using 2(6) edge by (auto intro: trancl_into_trancl)
    with 2(2) [OF False new a 2(4) known] 2(7)
    obtain v d where sub: "visit_dependencies actions (act_prerequisites a) (insert i visiting, visited) = Ok (v, d)"
      and v: "v = insert i visiting" by auto
    have "\<exists>s'. visit_dependencies actions ids (v - {i}, insert i d) = Ok s' \<and> fst s' = fst (v - {i}, insert i d)"
      by (rule 2(3) [OF False new a sub refl 2(4)]) (use 2(5,6,7) v new in auto)
    with sub v new a False show ?thesis by auto
  qed
qed simp

lemma visit_never_panics:
  assumes "prerequisites_known actions" and "\<forall>i \<in> set ids. map_of actions i \<noteq> None"
  shows "visit_dependencies actions ids s \<noteq> Panic"
  using assms
proof (induction actions ids s rule: visit_dependencies.induct)
  case (2 actions i ids visiting visited)
  then obtain a where a: "map_of actions i = Some a" by auto
  with 2 prerequisites_knownD [OF 2(4) a] show ?case by (auto split: res.splits)
qed simp

lemma validate_dependencies_iff:
  assumes "bmap_ok actions"
  shows "validate_dependencies actions \<noteq> Panic \<and>
    (validate_dependencies actions = Ok () \<longleftrightarrow>
       prerequisites_known actions \<and> acyclic (dependency_edges actions))"
proof (cases "prerequisites_known actions")
  case False
  with check_all_known_actions [OF assms] check_all_known_iff [of actions "map snd actions"]
  show ?thesis unfolding validate_dependencies_def
    by (cases "check_all_known actions (map snd actions)") auto
next
  case True
  have keys: "\<forall>i \<in> set (map fst actions). map_of actions i \<noteq> None"
    by (simp add: map_of_eq_None_iff)
  have "acyclic (dependency_edges actions)"
    if ok: "visit_dependencies actions (map fst actions) ({}, {}) = Ok s" for s
  proof -
    have "set (map fst actions) \<subseteq> snd s" "settled actions (snd s)"
      using visit_Ok [OF ok] by (auto simp: settled_def)
    moreover have "i \<in> set (map fst actions)" if "(i, i) \<in> (dependency_edges actions)\<^sup>+" for i
      using that by (auto simp: dependency_edges_def dest!: tranclD map_of_SomeD intro: rev_image_eqI)
    ultimately show ?thesis by (fastforce simp: acyclic_def settled_def)
  qed
  moreover have "\<exists>s. visit_dependencies actions (map fst actions) ({}, {}) = Ok s"
    if "acyclic (dependency_edges actions)"
    using visit_fails [OF True keys _ that, of "({}, {})"] by auto
  ultimately show ?thesis
    using True check_all_known_actions [OF assms] visit_never_panics [OF True keys]
    unfolding validate_dependencies_def by (auto simp: res_simps)
qed

text \<open>The planner after a sequence of registrations, accepted or not.\<close>

definition planner_of :: "attack_action list \<Rightarrow> attack_planner" where
  "planner_of as = fold (\<lambda>a m. snd (planner_register a m)) as []"

lemma planner_of_keyed: "actions_keyed (planner_of as)"
proof -
  have "actions_keyed (fold (\<lambda>a m. snd (planner_register a m)) as m)" if "actions_keyed m" for m
    using that by (induction as arbitrary: m) (auto intro: actions_keyed_register)
  moreover have "actions_keyed []" by (simp add: actions_keyed_def bmap_ok_def)
  ultimately show ?thesis by (simp add: planner_of_def)
qed

text \<open>
  C32. Dependency validation is exact: whatever actions were registered, the recursive search ends
  without a panic, and it accepts the planner if and only if every prerequisite is registered and
  no chain of prerequisites leads back to its start.
\<close>

theorem dependency_validation_exact:
  "validate_dependencies (planner_of as) \<noteq> Panic \<and>
   (validate_dependencies (planner_of as) = Ok () \<longleftrightarrow>
      prerequisites_known (planner_of as) \<and> acyclic (dependency_edges (planner_of as)))"
  by (rule validate_dependencies_iff) (use planner_of_keyed in \<open>simp add: actions_keyed_def\<close>)

section \<open>Closures\<close>

definition candidate_prerequisites :: "eligible_map \<Rightarrow> string \<Rightarrow> string set" where
  "candidate_prerequisites eligible i =
     (case map_of eligible i of None \<Rightarrow> {} | Some c \<Rightarrow> set (act_prerequisites (ec_action c)))"

definition eligible_edges :: "eligible_map \<Rightarrow> (string \<times> string) set" where
  "eligible_edges eligible = {(i, p). p \<in> candidate_prerequisites eligible i}"

text \<open>
  An execution order: every element is a candidate, occurs once, is not yet done, and has all its
  prerequisites done or earlier in the list.
\<close>

fun executable :: "eligible_map \<Rightarrow> string set \<Rightarrow> string list \<Rightarrow> bool" where
  "executable eligible D [] \<longleftrightarrow> True"
| "executable eligible D (i # is) \<longleftrightarrow>
     map_of eligible i \<noteq> None \<and> i \<notin> D \<and> candidate_prerequisites eligible i \<subseteq> D
   \<and> executable eligible (insert i D) is"

lemma executable_append:
  "executable eligible D (xs @ ys) \<longleftrightarrow> executable eligible D xs \<and> executable eligible (D \<union> set xs) ys"
  by (induction xs arbitrary: D) (auto simp: insert_commute)

lemma executable_distinct: "executable eligible D xs \<Longrightarrow> distinct xs \<and> set xs \<inter> D = {}"
  by (induction xs arbitrary: D) auto

lemma executable_known: "executable eligible D xs \<Longrightarrow> x \<in> set xs \<Longrightarrow> map_of eligible x \<noteq> None"
  by (induction xs arbitrary: D) auto

lemma executable_nth:
  "executable eligible D xs \<Longrightarrow> n < length xs \<Longrightarrow>
   candidate_prerequisites eligible (xs ! n) \<subseteq> D \<union> set (take n xs)"
proof (induction xs arbitrary: D n)
  case (Cons x xs)
  show ?case
  proof (cases n)
    case (Suc m)
    with Cons.prems Cons.IH [of "insert x D" m] show ?thesis by auto
  qed (use Cons.prems in simp)
qed simp

lemma eligible_edgesI:
  "map_of eligible i = Some c \<Longrightarrow> p \<in> set (act_prerequisites (ec_action c)) \<Longrightarrow> (i, p) \<in> eligible_edges eligible"
  by (simp add: eligible_edges_def candidate_prerequisites_def)

lemma closure_total:
  shows "build_eligible_closure eligible selected i s \<noteq> Panic"
    and "closure_prerequisites eligible selected ps s \<noteq> Panic"
proof (induction eligible selected i s and eligible selected ps s
    rule: build_eligible_closure_closure_prerequisites.induct)
  case (3 eligible selected p ps visiting ordered)
  then show ?case
    by (cases "map_of eligible p"; cases "p \<in> visiting")
      (auto simp del: build_eligible_closure.simps split: res.splits)
qed (auto split: option.splits res.splits)

lemma closure_unavailable:
  shows "build_eligible_closure eligible selected i s = Err u \<Longrightarrow>
      map_of eligible u = None \<and> (i, u) \<in> (eligible_edges eligible)\<^sup>*"
    and "closure_prerequisites eligible selected ps s = Err u \<Longrightarrow>
      map_of eligible u = None \<and> (\<exists>p \<in> set ps. (p, u) \<in> (eligible_edges eligible)\<^sup>*)"
proof (induction eligible selected i s and eligible selected ps s
    rule: build_eligible_closure_closure_prerequisites.induct)
  case (1 eligible selected i visiting ordered)
  show ?case
  proof (cases "map_of eligible i")
    case None
    with 1(2) show ?thesis by (auto split: if_splits)
  next
    case (Some c)
    with 1(2) have "closure_prerequisites eligible selected (act_prerequisites (ec_action c))
        (insert i visiting, ordered) = Err u" and "\<not> (i \<in> selected \<or> i \<in> set ordered)"
      by (auto split: if_splits res.splits)
    with 1(1) [OF this(2) Some] show ?thesis
      using eligible_edgesI [OF Some] by (blast intro: converse_rtrancl_into_rtrancl)
  qed
next
  case (3 eligible selected p ps visiting ordered)
  then show ?case by (auto split: if_splits res.splits)
qed simp

text \<open>
  The closure of a candidate is an execution order after what is selected. The recursion skips a
  prerequisite that it is still visiting; on an acyclic graph that never happens, because every
  action being visited leads to the current one.
\<close>

definition leads_to :: "eligible_map \<Rightarrow> string set \<Rightarrow> string set \<Rightarrow> bool" where
  "leads_to eligible V P \<longleftrightarrow> (\<forall>v \<in> V. \<forall>p \<in> P. (v, p) \<in> (eligible_edges eligible)\<^sup>+)"

lemma leads_to_prerequisites:
  assumes "leads_to eligible V {i}" and "map_of eligible i = Some c"
  shows "leads_to eligible (insert i V) (set (act_prerequisites (ec_action c)))"
  using assms eligible_edgesI [OF assms(2)]
  by (auto simp: leads_to_def intro: trancl_into_trancl)

lemma closure_Ok:
  assumes "acyclic (eligible_edges eligible)"
  shows "build_eligible_closure eligible selected i s = Ok s' \<Longrightarrow> executable eligible selected (snd s) \<Longrightarrow>
      leads_to eligible (fst s) {i} \<Longrightarrow>
      executable eligible selected (snd s') \<and> i \<in> selected \<union> set (snd s') \<and>
      (\<exists>new. snd s' = snd s @ new \<and> (\<forall>x \<in> set new. (i, x) \<in> (eligible_edges eligible)\<^sup>*)) \<and>
      fst s' = fst s"
    and "closure_prerequisites eligible selected ps s = Ok s' \<Longrightarrow> executable eligible selected (snd s) \<Longrightarrow>
      leads_to eligible (fst s) (set ps) \<Longrightarrow>
      executable eligible selected (snd s') \<and> set ps \<subseteq> selected \<union> set (snd s') \<and>
      (\<exists>new. snd s' = snd s @ new \<and> (\<forall>x \<in> set new. \<exists>p \<in> set ps. (p, x) \<in> (eligible_edges eligible)\<^sup>*)) \<and>
      fst s' = fst s"
  using assms
proof (induction eligible selected i s and eligible selected ps s arbitrary: s' and s'
    rule: build_eligible_closure_closure_prerequisites.induct)
  case (1 eligible selected i visiting ordered)
  let ?E = "eligible_edges eligible"
  show ?case
  proof (cases "i \<in> selected \<or> i \<in> set ordered")
    case True
    with 1(2,3) show ?thesis by auto
  next
    case False
    with 1(2) obtain c v ord where c: "map_of eligible i = Some c"
      and sub: "closure_prerequisites eligible selected (act_prerequisites (ec_action c))
        (insert i visiting, ordered) = Ok (v, ord)" and s': "s' = (v - {i}, ord @ [i])"
      by (auto split: if_splits option.splits res.splits)
    have "leads_to eligible (fst (insert i visiting, ordered)) (set (act_prerequisites (ec_action c)))"
      using leads_to_prerequisites [OF _ c] 1(4) by simp
    with 1(1) [OF False c sub _ _ 1(5)] 1(3) obtain new where
      sub_ok: "executable eligible selected ord" "set (act_prerequisites (ec_action c)) \<subseteq> selected \<union> set ord"
      and new: "ord = ordered @ new" "v = insert i visiting"
      and from_i: "\<forall>x \<in> set new. \<exists>p \<in> set (act_prerequisites (ec_action c)). (p, x) \<in> ?E\<^sup>*"
      by auto
    have below: "(i, x) \<in> ?E\<^sup>+" if "x \<in> set new" for x
      using from_i that eligible_edgesI [OF c] by (blast intro: rtrancl_into_trancl2)
    then have "i \<notin> set new" using 1(5) by (auto simp: acyclic_def)
    then have "executable eligible selected (ord @ [i])"
      using sub_ok c False new(1) by (auto simp: executable_append candidate_prerequisites_def)
    moreover have "i \<notin> visiting" using 1(4,5) by (auto simp: leads_to_def acyclic_def)
    ultimately show ?thesis using s' new below by (auto intro: trancl_into_rtrancl)
  qed
next
  case (3 eligible selected p ps visiting ordered)
  let ?E = "eligible_edges eligible"
  have known: "map_of eligible p \<noteq> None" using 3(4) by (auto split: if_splits)
  have new: "p \<notin> visiting" using 3(6,7) by (auto simp: leads_to_def acyclic_def)
  with 3(4) known obtain s1 where
    s1: "build_eligible_closure eligible selected p (visiting, ordered) = Ok s1"
    and rest: "closure_prerequisites eligible selected ps s1 = Ok s'"
    by (auto simp del: build_eligible_closure.simps split: res.splits)
  have "leads_to eligible (fst (visiting, ordered)) {p}" using 3(6) by (simp add: leads_to_def)
  from 3(2) [OF known new s1 3(5) this 3(7)]
  have step: "executable eligible selected (snd s1)" "p \<in> selected \<union> set (snd s1)" "fst s1 = visiting"
    "\<exists>new. snd s1 = ordered @ new \<and> (\<forall>x \<in> set new. (p, x) \<in> ?E\<^sup>*)" by auto
  have "leads_to eligible (fst s1) (set ps)" using 3(6) step(3) by (simp add: leads_to_def)
  from 3(3) [OF known new s1 rest step(1) this 3(7)] step show ?case by auto
qed simp

end
