(* ===== verification/Planner_Properties.thy ===== *)
theory Planner_Properties
  imports Planner_Graph
begin

text \<open>
  What a plan promises: it stays within budget and risk limits, each step is justified by the
  snapshot and comes after its prerequisites, every registered action gets a decision with a true
  reason, and the defense filter only removes.
\<close>

section \<open>Candidates\<close>

definition action_ok :: "attack_action \<Rightarrow> bool" where
  "action_ok a \<longleftrightarrow> benefit_ok (act_gain a) \<and> cost_ok (act_cost a) \<and> risk_ok (act_risk a)"

definition planner_ok :: "attack_planner \<Rightarrow> bool" where
  "planner_ok actions \<longleftrightarrow>
     actions_keyed actions \<and> (\<forall>i a. map_of actions i = Some a \<longrightarrow> action_ok a) \<and> length actions \<le> 2 ^ 32"

definition candidate_of ::
  "knowledge_snapshot \<Rightarrow> planning_context \<Rightarrow> string list \<Rightarrow> attack_action \<Rightarrow>
   (eligible_candidate + exclusion_reason) planner_res" where
  "candidate_of sn context suppressed a =
     evaluate_candidate a sn context (if act_id a \<in> set suppressed then Some PolicySuppressed else None)"

definition posteriors_ok :: "knowledge_snapshot \<Rightarrow> bool" where
  "posteriors_ok sn \<longleftrightarrow> (\<forall>h \<in> set (sn_hypotheses sn). probability_ok (h_posterior h))"

lemma selector_select_accepted:
  assumes "selector_select s hs = Some h"
  shows "h \<in> set hs \<and> selector_accepts s h"
proof -
  have "h \<in> set xs \<or> acc = Some h"
    if "fold (\<lambda>h selected. if (case selected of None \<Rightarrow> True | Some c \<Rightarrow> h_posterior c < h_posterior h)
        then Some h else selected) xs acc = Some h" for xs acc
    using that by (induction xs arbitrary: acc) (auto split: if_splits)
  from this [of "filter (selector_accepts s) hs" None] assms show ?thesis
    by (auto simp: selector_select_def)
qed

text \<open>What an eligible candidate certifies about its action.\<close>

definition candidate_authorised ::
  "knowledge_snapshot \<Rightarrow> planning_context \<Rightarrow> attack_action \<Rightarrow> eligible_candidate \<Rightarrow> bool" where
  "candidate_authorised sn context a c \<longleftrightarrow>
     ec_action c = a \<and> holds sn (act_requirements a) \<and> act_risk a \<le> pc_maximum_risk context
   \<and> pc_minimum_utility context \<le> ub_score (ec_utility c) \<and> ub_cost (ec_utility c) = act_cost a
   \<and> (\<exists>h \<in> set (sn_hypotheses sn). selector_select (act_confidence a) (sn_hypotheses sn) = Some h
        \<and> selector_accepts (act_confidence a) h \<and> ec_confidence_id c = h_id h
        \<and> ub_confidence (ec_utility c) = h_posterior h
        \<and> target_resolve (act_target a) (sn_hypotheses sn) (h_id h) = Some (ec_target c))"

lemma utility_calculate_factors:
  "utility_calculate g p b c r = Ok u \<Longrightarrow> ub_cost u = c \<and> ub_confidence u = p"
  by (auto simp: utility_calculate_def Let_def split: if_splits option.splits)

lemma evaluate_candidate_eligible:
  assumes "evaluate_candidate a sn context suppression = Ok (Inl c)"
  shows "suppression = None \<and> candidate_authorised sn context a c"
proof -
  from assms have none: "suppression = None" by (simp add: evaluate_candidate_def split: option.splits)
  with assms obtain t where t: "evaluate_node sn (act_requirements a) = Ok t" "tr_matched t"
    and risk: "\<not> pc_maximum_risk context < act_risk a"
    by (auto simp: evaluate_candidate_def res_simps split: if_splits)
  with assms none obtain h where h: "selector_select (act_confidence a) (sn_hypotheses sn) = Some h"
    by (cases "selector_select (act_confidence a) (sn_hypotheses sn)") (auto simp: evaluate_candidate_def)
  with assms none t risk obtain target where
    target: "target_resolve (act_target a) (sn_hypotheses sn) (h_id h) = Some target"
    by (cases "target_resolve (act_target a) (sn_hypotheses sn) (h_id h)") (auto simp: evaluate_candidate_def)
  with assms none t risk h obtain u where
    u: "utility_calculate (act_gain a) (h_posterior h) (pc_business_value context) (act_cost a) (act_risk a)
      = (Ok u :: utility_breakdown planner_res)"
    and score: "\<not> ub_score u < pc_minimum_utility context"
    and c: "c = \<lparr>ec_action = a, ec_confidence_id = h_id h, ec_target = target, ec_requirements = t, ec_utility = u\<rparr>"
    by (auto simp: evaluate_candidate_def res_simps split: if_splits)
  have "holds sn (act_requirements a)"
    using evaluate_node_trace_ok [OF t(1)] t(2) by (simp add: trace_ok_def)
  with none risk target score utility_calculate_factors [OF u] selector_select_accepted [OF h] h
  show ?thesis by (auto simp: candidate_authorised_def c not_less)
qed

lemma evaluate_candidate_total:
  assumes "action_ok a" and "posteriors_ok sn" and "benefit_ok (pc_business_value context)"
  shows "case evaluate_candidate a sn context suppression of
      Panic \<Rightarrow> False
    | Err e \<Rightarrow> suppression = None \<and> (\<exists>x. evaluate_node sn (act_requirements a) = Err x \<and> e = PlannerRule x)
    | Ok _ \<Rightarrow> True"
proof (cases "selector_select (act_confidence a) (sn_hypotheses sn)")
  case None
  then show ?thesis
    using evaluate_node_defined [of sn "act_requirements a"]
    by (cases "evaluate_node sn (act_requirements a)") (auto simp: evaluate_candidate_def split: option.splits)
next
  case (Some h)
  then have "probability_ok (h_posterior h)"
    using selector_select_accepted [OF Some] assms(2) by (simp add: posteriors_ok_def)
  with assms(1,3) have "\<exists>u. utility_calculate (act_gain a) (h_posterior h) (pc_business_value context)
      (act_cost a) (act_risk a) = (Ok u :: utility_breakdown planner_res)"
    by (auto simp: action_ok_def intro!: utility_calculate_exact(1))
  with Some show ?thesis
    using evaluate_node_defined [of sn "act_requirements a"]
    by (cases "evaluate_node sn (act_requirements a)") (auto simp: evaluate_candidate_def split: option.splits)
qed

section \<open>Partition\<close>

lemma partition_Cons:
  "partition_candidates sn context suppressed (a # as) (el, ex) =
     and_then (candidate_of sn context suppressed a) (\<lambda>r.
       case r of
         Inl c \<Rightarrow> partition_candidates sn context suppressed as (bmap_insert (act_id a) c el, ex)
       | Inr x \<Rightarrow> partition_candidates sn context suppressed as (el, bmap_insert (act_id a) x ex))"
  by (simp add: candidate_of_def)

declare partition_candidates.simps(2) [simp del]

lemma fresh_update:
  "m k = None \<Longrightarrow> (m(k \<mapsto> v)) i = Some w \<longleftrightarrow> m i = Some w \<or> k = i \<and> v = w"
  by auto

lemma partition_Ok:
  assumes "partition_candidates sn context suppressed as (el, ex) = Ok (el', ex')"
    and "distinct (map act_id as)" and "bmap_ok el"
    and "\<forall>a \<in> set as. map_of el (act_id a) = None \<and> map_of ex (act_id a) = None"
  shows "bmap_ok el' \<and> (\<forall>a \<in> set as. \<exists>r. candidate_of sn context suppressed a = Ok r)
    \<and> (\<forall>i c. map_of el' i = Some c \<longleftrightarrow>
         map_of el i = Some c \<or> (\<exists>a \<in> set as. act_id a = i \<and> candidate_of sn context suppressed a = Ok (Inl c)))
    \<and> (\<forall>i x. map_of ex' i = Some x \<longleftrightarrow>
         map_of ex i = Some x \<or> (\<exists>a \<in> set as. act_id a = i \<and> candidate_of sn context suppressed a = Ok (Inr x)))"
  using assms
proof (induction as arbitrary: el ex)
  case (Cons a as)
  then obtain r where r: "candidate_of sn context suppressed a = Ok r"
    by (auto simp: partition_Cons res_simps)
  have fresh: "map_of el (act_id a) = None" "map_of ex (act_id a) = None"
    and others: "\<forall>b \<in> set as. act_id b \<noteq> act_id a" "distinct (map act_id as)"
    "\<forall>b \<in> set as. map_of el (act_id b) = None \<and> map_of ex (act_id b) = None"
    using Cons.prems(2,4) by (auto simp: image_iff)
  show ?case
  proof (cases r)
    case (Inl c)
    have "partition_candidates sn context suppressed as (bmap_insert (act_id a) c el, ex) = Ok (el', ex')"
      using Cons.prems(1) r Inl by (simp add: partition_Cons)
    moreover have "\<forall>b \<in> set as. map_of (bmap_insert (act_id a) c el) (act_id b) = None \<and> map_of ex (act_id b) = None"
      using others by simp
    ultimately show ?thesis
      using Cons.IH [OF _ others(2) bmap_ok_insert [OF Cons.prems(3)]]
      by (simp add: fresh_update [of "map_of el", OF fresh(1)] r Inl disj_assoc del: fun_upd_apply)
  next
    case (Inr x)
    have "partition_candidates sn context suppressed as (el, bmap_insert (act_id a) x ex) = Ok (el', ex')"
      using Cons.prems(1) r Inr by (simp add: partition_Cons)
    moreover have "\<forall>b \<in> set as. map_of el (act_id b) = None \<and> map_of (bmap_insert (act_id a) x ex) (act_id b) = None"
      using others by simp
    ultimately show ?thesis
      using Cons.IH [OF _ others(2) Cons.prems(3)]
      by (simp add: fresh_update [of "map_of ex", OF fresh(2)] r Inr disj_assoc del: fun_upd_apply)
  qed
qed simp

lemma partition_fails:
  "partition_candidates sn context suppressed as s = Err e \<Longrightarrow>
     \<exists>a \<in> set as. candidate_of sn context suppressed a = Err e"
  "partition_candidates sn context suppressed as s = Panic \<Longrightarrow>
     \<exists>a \<in> set as. candidate_of sn context suppressed a = Panic"
proof (induction as arbitrary: s)
  case (Cons a as)
  { case 1 with Cons.IH(1) show ?case
      by (cases s; cases "candidate_of sn context suppressed a") (auto simp: partition_Cons split: sum.splits) }
  { case 2 with Cons.IH(2) show ?case
      by (cases s; cases "candidate_of sn context suppressed a") (auto simp: partition_Cons split: sum.splits) }
qed simp_all

text \<open>The candidates of a planner on a snapshot, and the actions excluded at once.\<close>

definition splits_actions ::
  "attack_planner \<Rightarrow> knowledge_snapshot \<Rightarrow> planning_context \<Rightarrow> string list \<Rightarrow> eligible_map \<Rightarrow> exclusions \<Rightarrow> bool" where
  "splits_actions actions sn context suppressed el ex \<longleftrightarrow>
     bmap_ok el
   \<and> (\<forall>i c. map_of el i = Some c \<longleftrightarrow>
        (\<exists>a. map_of actions i = Some a \<and> candidate_of sn context suppressed a = Ok (Inl c)))
   \<and> (\<forall>i x. map_of ex i = Some x \<longleftrightarrow>
        (\<exists>a. map_of actions i = Some a \<and> candidate_of sn context suppressed a = Ok (Inr x)))
   \<and> (\<forall>i. map_of actions i \<noteq> None \<longrightarrow> map_of el i \<noteq> None \<or> map_of ex i \<noteq> None)"

lemma keyed_ids: "actions_keyed actions \<Longrightarrow> map act_id (map snd actions) = map fst actions"
  by (auto simp: actions_keyed_def bmap_ok_distinct)

lemma keyed_member:
  "actions_keyed actions \<Longrightarrow> a \<in> snd ` set actions \<and> act_id a = i \<longleftrightarrow> map_of actions i = Some a"
  by (auto simp: actions_keyed_def bmap_values)

lemma partition_splits:
  assumes "actions_keyed actions"
    and "partition_candidates sn context suppressed (map snd actions) ([], []) = Ok (el, ex)"
  shows "splits_actions actions sn context suppressed el ex"
proof -
  have "distinct (map act_id (map snd actions))"
    using assms(1) keyed_ids bmap_ok_distinct by (metis actions_keyed_def)
  note facts = partition_Ok [OF assms(2) this, simplified bmap_ok_def, simplified]
  have el: "bmap_ok el" "\<And>i c. map_of el i = Some c \<longleftrightarrow>
        (\<exists>a \<in> snd ` set actions. act_id a = i \<and> candidate_of sn context suppressed a = Ok (Inl c))"
    and ex: "\<And>i x. map_of ex i = Some x \<longleftrightarrow>
        (\<exists>a \<in> snd ` set actions. act_id a = i \<and> candidate_of sn context suppressed a = Ok (Inr x))"
    and total: "\<forall>a \<in> snd ` set actions. \<exists>r. candidate_of sn context suppressed a = Ok r"
    using facts by (simp_all add: bmap_ok_def)
  have "map_of el i \<noteq> None \<or> map_of ex i \<noteq> None" if "map_of actions i = Some a" for i a
  proof -
    have a: "a \<in> snd ` set actions" "act_id a = i" using that keyed_member [OF assms(1)] by blast+
    with total obtain r where "candidate_of sn context suppressed a = Ok r" by blast
    with a show ?thesis
      by (cases r) (use el(2) [of i] ex [of i] in blast)+
  qed
  moreover have key: "(\<exists>a \<in> snd ` set actions. act_id a = i \<and> P a) \<longleftrightarrow> (\<exists>a. map_of actions i = Some a \<and> P a)" for i P
    using keyed_member [OF assms(1)] by blast
  moreover have "map_of el i = Some c \<longleftrightarrow>
      (\<exists>a. map_of actions i = Some a \<and> candidate_of sn context suppressed a = Ok (Inl c))" for i c
    by (simp only: el(2) key)
  moreover have "map_of ex i = Some x \<longleftrightarrow>
      (\<exists>a. map_of actions i = Some a \<and> candidate_of sn context suppressed a = Ok (Inr x))" for i x
    by (simp only: ex key)
  ultimately show ?thesis
    unfolding splits_actions_def using el(1) by blast
qed

section \<open>Costs\<close>

definition candidate_cost :: "eligible_map \<Rightarrow> string \<Rightarrow> nat" where
  "candidate_cost el i = (case map_of el i of None \<Rightarrow> 0 | Some c \<Rightarrow> unat (act_cost (ec_action c)))"

definition total_of :: "eligible_map \<Rightarrow> string list \<Rightarrow> nat" where
  "total_of el ids = sum_list (map (candidate_cost el) ids)"

lemma total_of_simps [simp]:
  "total_of el [] = 0" "total_of el (i # ids) = candidate_cost el i + total_of el ids"
  "total_of el (ids @ js) = total_of el ids + total_of el js"
  by (simp_all add: total_of_def)

lemma candidate_cost_less: "candidate_cost el i < 2 ^ 32"
  using unat_less_exp [where 'w = 32] by (simp add: candidate_cost_def split: option.split)

text \<open>At most as many candidates as costs fit a 64-bit sum.\<close>

lemma total_of_bound: "length ids \<le> n \<Longrightarrow> total_of el ids \<le> n * (2 ^ 32 - 1)"
proof (induction ids arbitrary: n)
  case (Cons i ids)
  then obtain m where "n = Suc m" "length ids \<le> m" by (cases n) auto
  with Cons.IH [of m] candidate_cost_less [of el i] show ?case by simp
qed simp

lemma executable_length:
  assumes "executable el D ids" and "bmap_ok el"
  shows "length ids \<le> length el"
proof -
  have "distinct ids" "set ids \<subseteq> fst ` set el"
    using executable_distinct [OF assms(1)] executable_known [OF assms(1)]
    by (auto simp: map_of_eq_None_iff)
  then show ?thesis
    by (metis card_mono distinct_card finite_imageI finite_set length_map list.set_map
        card_length le_trans)
qed

lemma executable_total:
  assumes "executable el D ids" and "bmap_ok el" and "length el \<le> 2 ^ 32"
  shows "total_of el ids < 2 ^ 64"
proof -
  have "total_of el ids \<le> 2 ^ 32 * (2 ^ 32 - 1)"
    using executable_length [OF assms(1,2)] assms(3) by (intro total_of_bound) simp
  then show ?thesis by simp
qed

lemma closure_cost_exact:
  assumes "\<forall>i \<in> set ids. map_of el i \<noteq> None" and "unat acc + total_of el ids < 2 ^ 64"
  shows "\<exists>w. closure_cost el ids acc = Ok w \<and> unat w = unat acc + total_of el ids"
  using assms
proof (induction ids arbitrary: acc)
  case (Cons i ids)
  then obtain c where c: "map_of el i = Some c" by auto
  have "unat (acc + ucast (act_cost (ec_action c))) = unat acc + candidate_cost el i"
    using Cons.prems(2) c by (subst unat_add_exact) (auto simp: candidate_cost_def unat_ucast_widen)
  with Cons.IH [of "acc + ucast (act_cost (ec_action c))"] Cons.prems c show ?case by auto
qed simp

lemma commit_closure_exact:
  assumes "executable el (sl_selected s) ids" and "unat (sl_total_cost s) + total_of el ids < 2 ^ 64"
  shows "\<exists>w. commit_closure el ids s =
      Ok (s\<lparr>sl_selected := sl_selected s \<union> set ids, sl_ordered := sl_ordered s @ ids, sl_total_cost := w\<rparr>)
    \<and> unat w = unat (sl_total_cost s) + total_of el ids"
  using assms
proof (induction ids arbitrary: s)
  case (Cons i ids)
  then obtain c where c: "map_of el i = Some c" by auto
  define s1 where "s1 = s\<lparr>sl_selected := insert i (sl_selected s), sl_ordered := sl_ordered s @ [i],
    sl_total_cost := sl_total_cost s + ucast (act_cost (ec_action c))\<rparr>"
  have cost: "unat (sl_total_cost s1) = unat (sl_total_cost s) + candidate_cost el i"
    using Cons.prems(2) c unfolding s1_def
    by simp (subst unat_add_exact, auto simp: candidate_cost_def unat_ucast_widen)
  have "executable el (sl_selected s1) ids" using Cons.prems(1) by (simp add: s1_def)
  with Cons.IH [of s1] Cons.prems(2) cost obtain w where
    "commit_closure el ids s1 =
      Ok (s1\<lparr>sl_selected := sl_selected s1 \<union> set ids, sl_ordered := sl_ordered s1 @ ids, sl_total_cost := w\<rparr>)"
    "unat w = unat (sl_total_cost s1) + total_of el ids" by auto
  with Cons.prems(1) c cost show ?case by (auto simp: s1_def)
next
  case Nil
  then show ?case by (intro exI [of _ "sl_total_cost s"]) simp
qed

section \<open>Selection\<close>

definition late_reason :: "eligible_map \<Rightarrow> u64 \<Rightarrow> u64 \<Rightarrow> string \<Rightarrow> exclusion_reason \<Rightarrow> bool" where
  "late_reason el budget spent i x \<longleftrightarrow>
     (case x of
        DependencyUnavailable p \<Rightarrow> map_of el p = None \<and> (i, p) \<in> (eligible_edges el)\<^sup>+
      | BudgetExceeded required remaining \<Rightarrow> remaining < required \<and> unat budget - unat spent \<le> unat remaining
      | _ \<Rightarrow> False)"

lemma late_reason_later:
  "late_reason el budget spent i x \<Longrightarrow> unat spent \<le> unat spent' \<Longrightarrow> late_reason el budget spent' i x"
  by (auto simp: late_reason_def split: exclusion_reason.splits)

definition selection_inv ::
  "eligible_map \<Rightarrow> exclusions \<Rightarrow> u64 \<Rightarrow> string set \<Rightarrow> selection \<Rightarrow> bool" where
  "selection_inv el ex budget seen s \<longleftrightarrow>
     executable el {} (sl_ordered s) \<and> sl_selected s = set (sl_ordered s)
   \<and> unat (sl_total_cost s) = total_of el (sl_ordered s) \<and> sl_total_cost s \<le> budget
   \<and> (\<forall>i. map_of ex i \<noteq> None \<or> i \<in> seen - sl_selected s \<longrightarrow> map_of (sl_exclusions s) i \<noteq> None)
   \<and> (\<forall>i x. map_of (sl_exclusions s) i = Some x \<longrightarrow>
        map_of ex i = Some x \<or> map_of el i \<noteq> None \<and> late_reason el budget (sl_total_cost s) i x)"

lemma selection_inv_start:
  "selection_inv el ex budget {} \<lparr>sl_selected = {}, sl_ordered = [], sl_total_cost = 0, sl_exclusions = ex\<rparr>"
  by (simp add: selection_inv_def)

lemma selection_inv_exclude:
  assumes "selection_inv el ex budget seen s" and "map_of el i \<noteq> None"
    and "late_reason el budget (sl_total_cost s) i x"
  shows "selection_inv el ex budget (insert i seen) (s\<lparr>sl_exclusions := bmap_insert i x (sl_exclusions s)\<rparr>)"
  using assms by (auto simp: selection_inv_def)

lemma selection_inv_select:
  assumes "selection_inv el ex budget seen s" and "executable el (sl_selected s) ids" and "i \<in> set ids"
    and "unat w = unat (sl_total_cost s) + total_of el ids" and "w \<le> budget"
  shows "selection_inv el ex budget (insert i seen)
    (s\<lparr>sl_selected := sl_selected s \<union> set ids, sl_ordered := sl_ordered s @ ids, sl_total_cost := w\<rparr>)"
proof -
  have later: "late_reason el budget w j x" if "late_reason el budget (sl_total_cost s) j x" for j x
    using that by (rule late_reason_later) (simp add: assms(4))
  have "\<forall>j x. map_of (sl_exclusions s) j = Some x \<longrightarrow>
      map_of ex j = Some x \<or> map_of el j \<noteq> None \<and> late_reason el budget w j x"
    using assms(1) later unfolding selection_inv_def by blast
  with assms show ?thesis by (auto simp: selection_inv_def executable_append)
qed

lemma consider_candidate_inv:
  assumes inv: "selection_inv el ex budget seen s" and known: "map_of el i \<noteq> None"
    and "acyclic (eligible_edges el)" and "bmap_ok el" and "length el \<le> 2 ^ 32"
  shows "\<exists>s'. consider_candidate el budget i s = Ok s' \<and> selection_inv el ex budget (insert i seen) s'"
proof (cases "i \<in> sl_selected s")
  case True
  with inv show ?thesis by (auto simp: consider_candidate_def selection_inv_def)
next
  case False
  show ?thesis
  proof (cases "build_eligible_closure el (sl_selected s) i ({}, [])")
    case (Ok r)
    then obtain v ids where r: "build_eligible_closure el (sl_selected s) i ({}, []) = Ok (v, ids)"
      by (cases r) simp
    have ids: "executable el (sl_selected s) ids" "i \<in> set ids"
      using closure_Ok(1) [OF assms(3) r] False by (auto simp: leads_to_def)
    have all: "executable el {} (sl_ordered s @ ids)"
      using inv ids(1) by (simp add: selection_inv_def executable_append)
    have sum: "unat (sl_total_cost s) + total_of el ids < 2 ^ 64"
      using executable_total [OF all assms(4,5)] inv by (simp add: selection_inv_def)
    obtain w where w: "closure_cost el ids 0 = Ok w" "unat w = total_of el ids"
      using closure_cost_exact [of ids el 0] executable_known [OF ids(1)] sum by auto
    define remaining where "remaining = saturating_sub budget (sl_total_cost s)"
    have rem: "unat remaining = unat budget - unat (sl_total_cost s)"
      by (simp add: remaining_def unat_saturating_sub)
    show ?thesis
    proof (cases "remaining < w")
      case True
      then have "late_reason el budget (sl_total_cost s) i (BudgetExceeded w remaining)"
        by (simp add: late_reason_def rem)
      from selection_inv_exclude [OF inv known this] True False r w show ?thesis
        by (simp add: consider_candidate_def remaining_def)
    next
      case fits: False
      obtain t where t: "commit_closure el ids s =
          Ok (s\<lparr>sl_selected := sl_selected s \<union> set ids, sl_ordered := sl_ordered s @ ids, sl_total_cost := t\<rparr>)"
        "unat t = unat (sl_total_cost s) + total_of el ids"
        using commit_closure_exact [OF ids(1) sum] by blast
      have "sl_total_cost s \<le> budget" using inv by (simp add: selection_inv_def)
      with fits t(2) w(2) rem have "t \<le> budget" by (simp add: word_less_nat_alt word_le_nat_alt)
      from selection_inv_select [OF inv ids t(2) this] t(1) fits False r w show ?thesis
        by (simp add: consider_candidate_def remaining_def)
    qed
  next
    case (Err u)
    then have "map_of el u = None" "(i, u) \<in> (eligible_edges el)\<^sup>*"
      using closure_unavailable(1) by blast+
    with known have "late_reason el budget (sl_total_cost s) i (DependencyUnavailable u)"
      by (auto simp: late_reason_def rtrancl_eq_or_trancl)
    from selection_inv_exclude [OF inv known this] Err False show ?thesis
      by (simp add: consider_candidate_def)
  next
    case Panic
    then show ?thesis using closure_total(1) by blast
  qed
qed

lemma select_candidates_inv:
  assumes "selection_inv el ex budget seen s" and "\<forall>i \<in> set ids. map_of el i \<noteq> None"
    and "acyclic (eligible_edges el)" and "bmap_ok el" and "length el \<le> 2 ^ 32"
  shows "\<exists>s'. select_candidates el budget ids s = Ok s' \<and> selection_inv el ex budget (seen \<union> set ids) s'"
  using assms(1,2)
proof (induction ids arbitrary: seen s)
  case (Cons i ids)
  then obtain s1 where s1: "consider_candidate el budget i s = Ok s1" "selection_inv el ex budget (insert i seen) s1"
    using consider_candidate_inv [OF Cons.prems(1) _ assms(3-5), of i] by auto
  with Cons.IH [OF s1(2)] Cons.prems(2) show ?case by (auto simp: insert_commute)
qed simp

section \<open>Plans\<close>

lemma number_steps_eq:
  "\<forall>i \<in> set ids. map_of el i \<noteq> None \<Longrightarrow>
   number_steps el n ids = Ok (map (\<lambda>(k, i). plan_step_of k (the (map_of el i))) (enumerate n ids))"
  by (induction ids arbitrary: n) auto

lemma collect_excluded_eq:
  "\<forall>i \<in> set ids. map_of ex i \<noteq> None \<Longrightarrow>
   collect_excluded ids ex = Ok (map (\<lambda>i. (i, the (map_of ex i))) ids)"
  by (induction ids) auto

lemma set_ranked_ids: "set (ranked_ids el) = fst ` set el"
  by (simp add: ranked_ids_def)

lemma splits_eligible:
  assumes "splits_actions actions sn context suppressed el ex" and "map_of el i = Some c"
  shows "\<exists>a. map_of actions i = Some a \<and> candidate_of sn context suppressed a = Ok (Inl c) \<and> ec_action c = a
    \<and> act_id a \<notin> set suppressed \<and> candidate_authorised sn context a c"
proof -
  from assms obtain a where a: "map_of actions i = Some a" "candidate_of sn context suppressed a = Ok (Inl c)"
    by (auto simp: splits_actions_def)
  from evaluate_candidate_eligible [OF a(2) [unfolded candidate_of_def]] a show ?thesis
    by (auto simp: candidate_authorised_def split: if_splits)
qed

lemma splits_edges:
  assumes "splits_actions actions sn context suppressed el ex"
  shows "eligible_edges el \<subseteq> dependency_edges actions"
proof
  fix e assume "e \<in> eligible_edges el"
  then obtain i p c where e: "e = (i, p)" "map_of el i = Some c" "p \<in> set (act_prerequisites (ec_action c))"
    by (auto simp: eligible_edges_def candidate_prerequisites_def split: option.splits)
  with splits_eligible [OF assms e(2)] show "e \<in> dependency_edges actions"
    by (auto simp: dependency_edges_def)
qed

lemma splits_length:
  assumes "splits_actions actions sn context suppressed el ex"
  shows "length el \<le> length actions"
proof -
  have "fst ` set el \<subseteq> fst ` set actions"
    using splits_eligible [OF assms] by (metis domIff dom_map_of_conv_image_fst option.distinct(1) option.exhaust subsetI)
  then have "card (fst ` set el) \<le> card (fst ` set actions)" by (rule card_mono [rotated]) simp
  also have "\<dots> \<le> length actions" by (metis card_length length_map list.set_map)
  finally show ?thesis
    using assms bmap_ok_distinct by (metis distinct_card length_map list.set_map splits_actions_def)
qed

text \<open>The selection phase of a validated planner always completes and decides every action.\<close>

lemma selection_completes:
  assumes "planner_ok actions" and "validate_dependencies actions = Ok ()"
    and "splits_actions actions sn context suppressed el ex"
  shows "\<exists>s. select_candidates el budget (ranked_ids el)
      \<lparr>sl_selected = {}, sl_ordered = [], sl_total_cost = 0, sl_exclusions = ex\<rparr> = Ok s
    \<and> selection_inv el ex budget (fst ` set el) s
    \<and> (\<forall>i. map_of actions i \<noteq> None \<longrightarrow> i \<in> sl_selected s \<or> map_of (sl_exclusions s) i \<noteq> None)"
proof -
  have acyc: "acyclic (eligible_edges el)"
    using splits_edges [OF assms(3)] validate_dependencies_iff [of actions] assms(1,2)
    by (auto simp: planner_ok_def actions_keyed_def intro: acyclic_subset)
  have ok: "bmap_ok el" using assms(3) by (simp add: splits_actions_def)
  have len: "length el \<le> 2 ^ 32" using splits_length [OF assms(3)] assms(1) by (simp add: planner_ok_def)
  have known: "\<forall>i \<in> set (ranked_ids el). map_of el i \<noteq> None"
    by (simp add: set_ranked_ids map_of_eq_None_iff)
  from select_candidates_inv [OF selection_inv_start known acyc ok len] obtain s where s: "select_candidates el budget (ranked_ids el)
      \<lparr>sl_selected = {}, sl_ordered = [], sl_total_cost = 0, sl_exclusions = ex\<rparr> = Ok s"
    "selection_inv el ex budget (fst ` set el) s"
    unfolding set_ranked_ids Un_empty_left by blast
  have "i \<in> sl_selected s \<or> map_of (sl_exclusions s) i \<noteq> None" if "map_of actions i \<noteq> None" for i
  proof -
    have "i \<in> fst ` set el \<or> map_of ex i \<noteq> None"
      using assms(3) that unfolding splits_actions_def by (metis map_of_eq_None_iff)
    then show ?thesis using s(2) unfolding selection_inv_def by blast
  qed
  with s show ?thesis by blast
qed

lemma plan_anatomy:
  assumes "planner_ok actions" and "validate_dependencies actions = Ok ()"
    and "partition_candidates sn context suppressed (map snd actions) ([], []) = Ok (el, ex)"
  shows "\<exists>s. splits_actions actions sn context suppressed el ex
    \<and> selection_inv el ex (pc_budget context) (fst ` set el) s
    \<and> plan_with_policy_suppressed actions sn context suppressed =
        Ok \<lparr>ap_subject = sn_subject sn, ap_context = context, ap_total_cost = sl_total_cost s,
          ap_steps = map (\<lambda>(k, i). plan_step_of k (the (map_of el i))) (enumerate 0 (sl_ordered s)),
          ap_excluded = map (\<lambda>i. (i, the (map_of (sl_exclusions s) i)))
            (filter (\<lambda>i. i \<notin> set (sl_ordered s)) (map fst actions))\<rparr>
    \<and> (\<forall>i. map_of actions i \<noteq> None \<longrightarrow> i \<in> set (sl_ordered s) \<or> map_of (sl_exclusions s) i \<noteq> None)"
proof -
  have split: "splits_actions actions sn context suppressed el ex"
    using partition_splits assms(1,3) by (simp add: planner_ok_def)
  from selection_completes [OF assms(1,2) split] obtain s where
    s: "select_candidates el (pc_budget context) (ranked_ids el)
      \<lparr>sl_selected = {}, sl_ordered = [], sl_total_cost = 0, sl_exclusions = ex\<rparr> = Ok s"
    and inv: "selection_inv el ex (pc_budget context) (fst ` set el) s"
    and all: "\<forall>i. map_of actions i \<noteq> None \<longrightarrow> i \<in> sl_selected s \<or> map_of (sl_exclusions s) i \<noteq> None"
    by blast
  have sel: "sl_selected s = set (sl_ordered s)" using inv by (simp add: selection_inv_def)
  have "executable el {} (sl_ordered s)" using inv by (simp add: selection_inv_def)
  from executable_known [OF this] have "\<forall>i \<in> set (sl_ordered s). map_of el i \<noteq> None" ..
  note steps = number_steps_eq [OF this, of 0]
  have "\<forall>i \<in> set (filter (\<lambda>i. i \<notin> sl_selected s) (map fst actions)). map_of (sl_exclusions s) i \<noteq> None"
  proof
    fix i assume "i \<in> set (filter (\<lambda>i. i \<notin> sl_selected s) (map fst actions))"
    then have "map_of actions i \<noteq> None" "i \<notin> sl_selected s" by (simp_all add: map_of_eq_None_iff)
    with all show "map_of (sl_exclusions s) i \<noteq> None" by blast
  qed
  note excluded = collect_excluded_eq [OF this]
  have "plan_with_policy_suppressed actions sn context suppressed =
        Ok \<lparr>ap_subject = sn_subject sn, ap_context = context, ap_total_cost = sl_total_cost s,
          ap_steps = map (\<lambda>(k, i). plan_step_of k (the (map_of el i))) (enumerate 0 (sl_ordered s)),
          ap_excluded = map (\<lambda>i. (i, the (map_of (sl_exclusions s) i)))
            (filter (\<lambda>i. i \<notin> set (sl_ordered s)) (map fst actions))\<rparr>"
    unfolding plan_with_policy_suppressed_def assms(2,3) and_then.simps prod.case s steps excluded
    unfolding sel by (rule refl)
  with split inv all [unfolded sel] show ?thesis by blast
qed

lemma plan_snapshot_with_suppressed_eq:
  "plan_snapshot_with_suppressed actions sn context suppressed =
   plan_with_policy_suppressed actions sn context suppressed"
  by (cases "plan_with_policy_suppressed actions sn context suppressed")
    (simp_all add: plan_snapshot_with_suppressed_def plan_with_action_suppressions_def policy_only_def
      plan_with_action_suppressions_and_baseline_def into_defense_filtered_def)

lemma planned_phases:
  assumes "plan_with_policy_suppressed actions sn context suppressed = Ok plan"
  shows "validate_dependencies actions = Ok ()
    \<and> (\<exists>el ex. partition_candidates sn context suppressed (map snd actions) ([], []) = Ok (el, ex))"
  using assms by (auto simp: plan_with_policy_suppressed_def res_simps)

text \<open>Steps of the plan, by position.\<close>

abbreviation planned_steps :: "eligible_map \<Rightarrow> string list \<Rightarrow> plan_step list" where
  "planned_steps el ids \<equiv> map (\<lambda>(k, i). plan_step_of k (the (map_of el i))) (enumerate 0 ids)"

lemma planned_steps_facts:
  assumes "splits_actions actions sn context suppressed el ex" and "actions_keyed actions"
    and "executable el {} ids"
  shows "map st_action_id (planned_steps el ids) = ids"
    and "sum_list (map (\<lambda>step. unat (ub_cost (st_utility step))) (planned_steps el ids)) = total_of el ids"
    and "n < length ids \<Longrightarrow> st_position (planned_steps el ids ! n) = n
      \<and> set (st_prerequisites (planned_steps el ids ! n)) \<subseteq> set (take n ids)"
    and "step \<in> set (planned_steps el ids) \<Longrightarrow> \<exists>a c. map_of actions (st_action_id step) = Some a
      \<and> st_action_id step \<notin> set suppressed \<and> candidate_authorised sn context a c
      \<and> step = plan_step_of (st_position step) c"
proof -
  have cand: "\<exists>a c. map_of el i = Some c \<and> map_of actions i = Some a \<and> ec_action c = a \<and> act_id a = i
      \<and> i \<notin> set suppressed \<and> candidate_authorised sn context a c" if i: "i \<in> set ids" for i
  proof -
    obtain c where c: "map_of el i = Some c" using executable_known [OF assms(3) i] by blast
    with splits_eligible [OF assms(1) c] assms(2) show ?thesis by (auto simp: actions_keyed_def)
  qed
  have ident: "st_action_id (plan_step_of n (the (map_of el i))) = i"
    and cost: "unat (ub_cost (st_utility (plan_step_of n (the (map_of el i))))) = candidate_cost el i"
    if "i \<in> set ids" for n i
    using cand [OF that] by (auto simp: plan_step_of_def candidate_authorised_def candidate_cost_def)
  show "map st_action_id (planned_steps el ids) = ids"
    by (rule nth_equalityI) (simp_all add: nth_enumerate_eq ident)
  have "map (\<lambda>step. unat (ub_cost (st_utility step))) (planned_steps el ids) = map (candidate_cost el) ids"
    by (rule nth_equalityI) (simp_all add: nth_enumerate_eq cost)
  then show "sum_list (map (\<lambda>step. unat (ub_cost (st_utility step))) (planned_steps el ids)) = total_of el ids"
    by (simp add: total_of_def)
  show "st_position (planned_steps el ids ! n) = n
      \<and> set (st_prerequisites (planned_steps el ids ! n)) \<subseteq> set (take n ids)" if n: "n < length ids"
    using executable_nth [OF assms(3) n] cand [of "ids ! n"] n
    by (auto simp: nth_enumerate_eq plan_step_of_def candidate_prerequisites_def)
  show "\<exists>a c. map_of actions (st_action_id step) = Some a
      \<and> st_action_id step \<notin> set suppressed \<and> candidate_authorised sn context a c
      \<and> step = plan_step_of (st_position step) c" if "step \<in> set (planned_steps el ids)"
  proof -
    from that obtain n where n: "n < length ids" "step = plan_step_of n (the (map_of el (ids ! n)))"
      by (auto simp: in_set_conv_nth nth_enumerate_eq)
    then have i: "ids ! n \<in> set ids" by simp
    from cand [OF i] obtain a c where "map_of el (ids ! n) = Some c" "map_of actions (ids ! n) = Some a"
      "ids ! n \<notin> set suppressed" "candidate_authorised sn context a c" by blast
    moreover have "st_action_id step = ids ! n" "st_position step = n"
      using n(2) ident [OF i] by (simp_all add: plan_step_of_def)
    ultimately show ?thesis using n(2) by auto
  qed
qed

lemma plan_facts:
  assumes "planner_ok actions"
    and "plan_snapshot_with_suppressed actions sn context suppressed = Ok plan"
  shows "unat (ap_total_cost plan) = sum_list (map (\<lambda>step. unat (ub_cost (st_utility step))) (ap_steps plan))
    \<and> ap_total_cost plan \<le> pc_budget context
    \<and> distinct (map st_action_id (ap_steps plan))
    \<and> (\<forall>n < length (ap_steps plan). st_position (ap_steps plan ! n) = n
        \<and> set (st_prerequisites (ap_steps plan ! n)) \<subseteq> set (take n (map st_action_id (ap_steps plan))))
    \<and> (\<forall>step \<in> set (ap_steps plan). \<exists>a c. map_of actions (st_action_id step) = Some a
        \<and> st_action_id step \<notin> set suppressed \<and> candidate_authorised sn context a c
        \<and> step = plan_step_of (st_position step) c)"
proof -
  note plan = assms(2) [unfolded plan_snapshot_with_suppressed_eq]
  from planned_phases [OF plan] obtain el ex where valid: "validate_dependencies actions = Ok ()"
    and part: "partition_candidates sn context suppressed (map snd actions) ([], []) = Ok (el, ex)" by blast
  from plan_anatomy [OF assms(1) valid part] plan obtain s where
    split: "splits_actions actions sn context suppressed el ex"
    and inv: "selection_inv el ex (pc_budget context) (fst ` set el) s"
    and steps: "ap_steps plan = planned_steps el (sl_ordered s)" and cost: "ap_total_cost plan = sl_total_cost s"
    by auto
  have keyed: "actions_keyed actions" using assms(1) by (simp add: planner_ok_def)
  have order: "executable el {} (sl_ordered s)" "unat (sl_total_cost s) = total_of el (sl_ordered s)"
    "sl_total_cost s \<le> pc_budget context" using inv by (simp_all add: selection_inv_def)
  note facts = planned_steps_facts [OF split keyed order(1)]
  have "length (planned_steps el (sl_ordered s)) = length (sl_ordered s)" by simp
  with facts order executable_distinct [OF order(1)] show ?thesis
    unfolding steps cost by auto
qed

text \<open>
  C33. A plan is safe to execute: its total cost is the exact sum of its steps' costs, without
  wrap-around, and within the budget; no action occurs twice; positions count from zero and every
  prerequisite of a step is planned before it; and each step is an unsuppressed registered action
  whose requirements hold on the snapshot, whose risk and utility are within the context's limits and
  whose confidence comes from a supported hypothesis of the snapshot that its selector accepts.
\<close>

theorem plan_sound:
  assumes "planner_ok actions"
    and "plan_snapshot_with_suppressed actions sn context suppressed = Ok plan"
  shows "unat (ap_total_cost plan) = sum_list (map (\<lambda>step. unat (ub_cost (st_utility step))) (ap_steps plan))
    \<and> ap_total_cost plan \<le> pc_budget context
    \<and> distinct (map st_action_id (ap_steps plan))
    \<and> (\<forall>n < length (ap_steps plan). st_position (ap_steps plan ! n) = n
        \<and> set (st_prerequisites (ap_steps plan ! n)) \<subseteq> set (take n (map st_action_id (ap_steps plan))))
    \<and> (\<forall>step \<in> set (ap_steps plan). \<exists>a c. map_of actions (st_action_id step) = Some a
        \<and> st_action_id step \<notin> set suppressed \<and> candidate_authorised sn context a c
        \<and> step = plan_step_of (st_position step) c)"
  by (rule plan_facts [OF assms])

definition sample_claim :: knowledge_predicate where
  "sample_claim = \<lparr>kp_namespace = ''n'', kp_name = ''q''\<rparr>"

definition planning_snapshot :: knowledge_snapshot where
  "planning_snapshot = sample_snapshot\<lparr>sn_hypotheses :=
     [\<lparr>h_id = ''h'', h_subject = ''s'', h_predicate = sample_claim, h_value = Boolean True,
       h_belief = belief_new 800000, h_strength = Strong, h_state = Supported, h_updated_at_ms = 0\<rparr>]\<rparr>"

definition sample_action :: "string \<Rightarrow> action_cost \<Rightarrow> string list \<Rightarrow> attack_action" where
  "sample_action i cost prerequisites =
     \<lparr>act_id = i, act_executor = ''e'', act_payload = None, act_requirements = sample_condition,
      act_confidence = \<lparr>hs_predicate = sample_claim, hs_value = Boolean True, hs_minimum_posterior = 500000,
        hs_required_strength = StrongOnly\<rparr>,
      act_gain = 5000, act_cost = cost, act_risk = 1000, act_prerequisites = prerequisites,
      act_target = Motivation, act_guard = False\<rparr>"

definition sample_planner :: attack_planner where
  "sample_planner =
     [(''a'', sample_action ''a'' 3 [''b'']), (''b'', sample_action ''b'' 2 []), (''c'', sample_action ''c'' 9 [])]"

definition sample_context :: planning_context where
  "sample_context = planning_context_new 10000 6 5000"

lemma sample_planner_ok: "planner_ok sample_planner"
  by (auto simp: planner_ok_def actions_keyed_def bmap_ok_def sample_planner_def sample_action_def
      action_ok_def benefit_ok_def cost_ok_def risk_ok_def split: if_splits)

definition sample_plan :: attack_plan where
  "sample_plan = (case plan_snapshot_with_suppressed sample_planner planning_snapshot sample_context [] of Ok p \<Rightarrow> p)"

lemma sample_plan_eq:
  "plan_snapshot_with_suppressed sample_planner planning_snapshot sample_context [] = Ok sample_plan"
  "map st_action_id (ap_steps sample_plan) = [''b'', ''a'']"
  "ap_excluded sample_plan = [(''c'', BudgetExceeded 9 1)]"
  by code_simp+

lemma plan_sound_witness:
  "map st_action_id (ap_steps sample_plan) = [''b'', ''a'']
   \<and> ap_total_cost sample_plan \<le> pc_budget sample_context
   \<and> set (st_prerequisites (ap_steps sample_plan ! 1)) \<subseteq> {''b''}"
proof -
  have "length (ap_steps sample_plan) = 2" using arg_cong [OF sample_plan_eq(2), of length] by simp
  with plan_sound [OF sample_planner_ok sample_plan_eq(1)] sample_plan_eq(2) show ?thesis by force
qed

text \<open>Why an action is not in the plan.\<close>

definition exclusion_justified ::
  "attack_planner \<Rightarrow> knowledge_snapshot \<Rightarrow> planning_context \<Rightarrow> string list \<Rightarrow> u64 \<Rightarrow> string \<Rightarrow> exclusion_reason \<Rightarrow> bool" where
  "exclusion_justified actions sn context suppressed spent i reason \<longleftrightarrow>
     (\<exists>a. map_of actions i = Some a \<and>
       (candidate_of sn context suppressed a = Ok (Inr reason)
        \<or> (\<exists>c. candidate_of sn context suppressed a = Ok (Inl c)) \<and>
          (case reason of
             DependencyUnavailable p \<Rightarrow>
               (i, p) \<in> (dependency_edges actions)\<^sup>+ \<and>
               (\<exists>b x. map_of actions p = Some b \<and> candidate_of sn context suppressed b = Ok (Inr x))
           | BudgetExceeded required remaining \<Rightarrow>
               remaining < required \<and> unat (pc_budget context) - unat spent \<le> unat remaining
           | _ \<Rightarrow> False)))"

lemma exclusions_justified:
  assumes "splits_actions actions sn context suppressed el ex" and "prerequisites_known actions"
    and "selection_inv el ex (pc_budget context) seen s" and "map_of (sl_exclusions s) i = Some x"
  shows "exclusion_justified actions sn context suppressed (sl_total_cost s) i x"
proof -
  consider "map_of ex i = Some x"
    | c where "map_of el i = Some c" "late_reason el (pc_budget context) (sl_total_cost s) i x"
    using assms(3,4) unfolding selection_inv_def by blast
  then show ?thesis
  proof cases
    case 1
    with assms(1) show ?thesis by (auto simp: splits_actions_def exclusion_justified_def)
  next
    case 2
    with assms(1) obtain a where a: "map_of actions i = Some a" "candidate_of sn context suppressed a = Ok (Inl c)"
      by (auto simp: splits_actions_def)
    have unavailable: "(i, p) \<in> (dependency_edges actions)\<^sup>+ \<and>
        (\<exists>b y. map_of actions p = Some b \<and> candidate_of sn context suppressed b = Ok (Inr y))"
      if p: "map_of el p = None" "(i, p) \<in> (eligible_edges el)\<^sup>+" for p
    proof -
      have path: "(i, p) \<in> (dependency_edges actions)\<^sup>+"
        using p(2) splits_edges [OF assms(1)] by (rule trancl_mono)
      then have "map_of actions p \<noteq> None"
        using assms(2) by (auto simp: prerequisites_known_def elim: tranclE)
      with p(1) assms(1) obtain y where "map_of ex p = Some y" by (auto simp: splits_actions_def)
      with path assms(1) show ?thesis by (auto simp: splits_actions_def)
    qed
    from 2(2) a show ?thesis
      by (cases x) (auto simp: late_reason_def exclusion_justified_def dest!: unavailable)
  qed
qed

lemma plan_decides:
  assumes "planner_ok actions" and "validate_dependencies actions = Ok ()"
    and part: "partition_candidates sn context suppressed (map snd actions) ([], []) = Ok (el, ex)"
  shows "\<exists>plan. plan_with_policy_suppressed actions sn context suppressed = Ok plan
    \<and> map fst (ap_excluded plan) =
        filter (\<lambda>i. i \<notin> st_action_id ` set (ap_steps plan)) (map fst actions)
    \<and> (\<forall>(i, reason) \<in> set (ap_excluded plan).
         exclusion_justified actions sn context suppressed (ap_total_cost plan) i reason)"
proof -
  have keyed: "actions_keyed actions" using assms(1) by (simp add: planner_ok_def)
  from plan_anatomy [OF assms] obtain s plan where
    split: "splits_actions actions sn context suppressed el ex"
    and inv: "selection_inv el ex (pc_budget context) (fst ` set el) s"
    and plan: "plan_with_policy_suppressed actions sn context suppressed = Ok plan"
    "ap_steps plan = planned_steps el (sl_ordered s)" "ap_total_cost plan = sl_total_cost s"
    "ap_excluded plan = map (\<lambda>i. (i, the (map_of (sl_exclusions s) i)))
        (filter (\<lambda>i. i \<notin> set (sl_ordered s)) (map fst actions))"
    and all: "\<forall>i. map_of actions i \<noteq> None \<longrightarrow> i \<in> set (sl_ordered s) \<or> map_of (sl_exclusions s) i \<noteq> None"
    by fastforce
  have order: "executable el {} (sl_ordered s)" using inv by (simp add: selection_inv_def)
  have ids: "st_action_id ` set (ap_steps plan) = set (sl_ordered s)"
    using planned_steps_facts(1) [OF split keyed order] unfolding plan(2) by (metis list.set_map)
  have known: "prerequisites_known actions"
    using validate_dependencies_iff [of actions] assms(2) keyed by (simp add: actions_keyed_def)
  have "exclusion_justified actions sn context suppressed (sl_total_cost s) i (the (map_of (sl_exclusions s) i))"
    if "i \<in> set (filter (\<lambda>i. i \<notin> set (sl_ordered s)) (map fst actions))" for i
  proof -
    have "map_of actions i \<noteq> None" "i \<notin> set (sl_ordered s)" using that by (simp_all add: map_of_eq_None_iff)
    with all obtain x where "map_of (sl_exclusions s) i = Some x" by blast
    with exclusions_justified [OF split known inv] show ?thesis by simp
  qed
  then have "\<forall>(i, reason) \<in> set (ap_excluded plan).
      exclusion_justified actions sn context suppressed (ap_total_cost plan) i reason"
    unfolding plan(3,4) by auto
  moreover have "map fst (ap_excluded plan) =
      filter (\<lambda>i. i \<notin> st_action_id ` set (ap_steps plan)) (map fst actions)"
    unfolding ids plan(4) by (simp add: comp_def)
  ultimately show ?thesis using plan(1) by blast
qed



end
