(* ===== verification/Planner_Defense.thy ===== *)
theory Planner_Defense
  imports Planner_Properties
begin

text \<open>
  The two narrow gates of the planner: the defense filter, which keeps exactly the steps that do not
  depend on a suppressed action, and the authorisation of one scheduled action, which agrees with
  candidate evaluation. The wire guard of an action is here too.
\<close>

section \<open>Defense filter\<close>

definition step_edges :: "plan_step list \<Rightarrow> (string \<times> string) set" where
  "step_edges steps = {(st_action_id s, p) | s p. s \<in> set steps \<and> p \<in> set (st_prerequisites s)}"

text \<open>A step survives when neither it nor anything it transitively needs is suppressed.\<close>

definition survives :: "plan_step list \<Rightarrow> string list \<Rightarrow> string \<Rightarrow> bool" where
  "survives steps defense i \<longleftrightarrow> (\<forall>j. (i, j) \<in> (step_edges steps)\<^sup>* \<longrightarrow> j \<notin> set defense)"

definition renumber :: "nat \<Rightarrow> plan_step list \<Rightarrow> plan_step list" where
  "renumber n steps = map (\<lambda>(k, s). s\<lparr>st_position := k\<rparr>) (enumerate n steps)"

text \<open>A dependency-safe sequence of steps with distinct identities.\<close>

fun steps_safe :: "string set \<Rightarrow> plan_step list \<Rightarrow> bool" where
  "steps_safe D [] \<longleftrightarrow> True"
| "steps_safe D (s # ss) \<longleftrightarrow>
     st_action_id s \<notin> D \<and> set (st_prerequisites s) \<subseteq> D \<and> steps_safe (insert (st_action_id s) D) ss"

lemma steps_safe_append:
  "steps_safe D (xs @ ys) \<longleftrightarrow> steps_safe D xs \<and> steps_safe (D \<union> st_action_id ` set xs) ys"
  by (induction xs arbitrary: D) auto

lemma steps_safe_fresh: "steps_safe D ss \<Longrightarrow> s \<in> set ss \<Longrightarrow> st_action_id s \<notin> D"
  by (induction ss arbitrary: D) auto

lemma steps_safe_distinct: "steps_safe D ss \<Longrightarrow> distinct (map st_action_id ss)"
  by (induction ss arbitrary: D) (auto dest: steps_safe_fresh)

lemma steps_safeI:
  assumes "distinct (map st_action_id ss)" and "D \<inter> st_action_id ` set ss = {}"
    and "\<forall>n < length ss. set (st_prerequisites (ss ! n)) \<subseteq> D \<union> st_action_id ` set (take n ss)"
  shows "steps_safe D ss"
  using assms
proof (induction ss arbitrary: D)
  case (Cons s ss)
  have "set (st_prerequisites (ss ! n)) \<subseteq> insert (st_action_id s) D \<union> st_action_id ` set (take n ss)"
    if "n < length ss" for n
    using Cons.prems(3) [rule_format, of "Suc n"] that by auto
  then have "steps_safe (insert (st_action_id s) D) ss"
    using Cons.prems(1,2) by (intro Cons.IH) auto
  with Cons.prems(2) Cons.prems(3) [rule_format, of 0] show ?case by simp
qed simp

lemma step_edges_from:
  assumes "steps_safe D (pre @ s # post)"
  shows "(st_action_id s, p) \<in> step_edges (pre @ s # post) \<longleftrightarrow> p \<in> set (st_prerequisites s)"
proof -
  have "st_action_id s \<notin> st_action_id ` set pre"
    and "steps_safe (insert (st_action_id s) (D \<union> st_action_id ` set pre)) post"
    using assms by (auto simp: steps_safe_append)
  then have only: "x = s" if "x \<in> set (pre @ s # post)" "st_action_id x = st_action_id s" for x
    using that steps_safe_fresh [of _ post x]
    by (metis Un_iff image_eqI insertE insertI1 list.simps(15) set_append)
  show ?thesis
  proof
    assume "(st_action_id s, p) \<in> step_edges (pre @ s # post)"
    then obtain x where "x \<in> set (pre @ s # post)" "st_action_id x = st_action_id s" "p \<in> set (st_prerequisites x)"
      unfolding step_edges_def mem_Collect_eq prod.inject by metis
    with only [of x] show "p \<in> set (st_prerequisites s)" by simp
  next
    assume "p \<in> set (st_prerequisites s)"
    then show "(st_action_id s, p) \<in> step_edges (pre @ s # post)" by (auto simp: step_edges_def)
  qed
qed

lemma survives_step:
  assumes "steps_safe D (pre @ s # post)"
  shows "survives (pre @ s # post) defense (st_action_id s) \<longleftrightarrow>
    st_action_id s \<notin> set defense \<and> (\<forall>p \<in> set (st_prerequisites s). survives (pre @ s # post) defense p)"
proof -
  let ?E = "step_edges (pre @ s # post)"
  have unfold: "(i, j) \<in> ?E\<^sup>* \<longleftrightarrow> j = i \<or> (\<exists>p. (i, p) \<in> ?E \<and> (p, j) \<in> ?E\<^sup>*)" for i j
    by (blast elim: converse_rtranclE intro: converse_rtrancl_into_rtrancl)
  show ?thesis
    unfolding survives_def unfold [of "st_action_id s"] step_edges_from [OF assms] by blast
qed

lemma filter_reason_None:
  "filter_reason defense retained s = None \<longleftrightarrow>
     st_action_id s \<notin> set defense \<and> set (st_prerequisites s) \<subseteq> retained"
  by (auto simp: filter_reason_def find_None_iff)

lemma filter_reason_Some:
  "filter_reason defense retained s = Some x \<Longrightarrow>
     if st_action_id s \<in> set defense then x = DefenseSuppressed
     else \<exists>p \<in> set (st_prerequisites s). x = DependencyUnavailable p \<and> p \<notin> retained"
  by (auto simp: filter_reason_def find_Some_iff split: if_splits dest: nth_mem)

text \<open>What the loop keeps and what it removes, from any point of the plan on.\<close>

definition removal_justified :: "plan_step list \<Rightarrow> string list \<Rightarrow> plan_step \<Rightarrow> exclusion_reason \<Rightarrow> bool" where
  "removal_justified steps defense s x \<longleftrightarrow>
     (if st_action_id s \<in> set defense then x = DefenseSuppressed
      else \<exists>p \<in> set (st_prerequisites s). x = DependencyUnavailable p \<and> \<not> survives steps defense p)"

lemma filter_steps_exact:
  assumes "steps = pre @ rest" and "steps_safe {} steps"
    and "filter_steps defense rest {i \<in> st_action_id ` set pre. survives steps defense i} retained removed = (kept, out)"
  shows "kept = retained @ renumber (length retained) (filter (\<lambda>s. survives steps defense (st_action_id s)) rest)
    \<and> (\<forall>i x. map_of out i = Some x \<longrightarrow> map_of removed i = Some x
         \<or> (\<exists>s \<in> set rest. st_action_id s = i \<and> \<not> survives steps defense i \<and> removal_justified steps defense s x))
    \<and> (\<forall>i. map_of out i \<noteq> None \<longleftrightarrow> map_of removed i \<noteq> None
         \<or> (\<exists>s \<in> set rest. st_action_id s = i \<and> \<not> survives steps defense i))"
  using assms
proof (induction rest arbitrary: pre retained removed)
  case Nil
  then show ?case by (simp add: renumber_def)
next
  case (Cons s rest)
  let ?kept = "{i \<in> st_action_id ` set pre. survives steps defense i}"
  have safe: "steps_safe {} (pre @ s # rest)" using Cons.prems(1,2) by simp
  have prereqs: "set (st_prerequisites s) \<subseteq> st_action_id ` set pre"
    using safe by (simp add: steps_safe_append)
  have alive: "survives steps defense (st_action_id s) \<longleftrightarrow> filter_reason defense ?kept s = None"
    using survives_step [OF safe] prereqs by (auto simp: Cons.prems(1) filter_reason_None)
  have next_pre: "steps = (pre @ [s]) @ rest" using Cons.prems(1) by simp
  show ?case
  proof (cases "filter_reason defense ?kept s")
    case None
    then have "{i \<in> st_action_id ` set (pre @ [s]). survives steps defense i} = insert (st_action_id s) ?kept"
      using alive by auto
    with Cons.prems(3) None
    have "filter_steps defense rest {i \<in> st_action_id ` set (pre @ [s]). survives steps defense i}
        (retained @ [s\<lparr>st_position := length retained\<rparr>]) removed = (kept, out)" by simp
    from Cons.IH [OF next_pre Cons.prems(2) this] None alive show ?thesis
      by (auto simp: renumber_def)
  next
    case (Some x)
    then have dead: "\<not> survives steps defense (st_action_id s)" using alive by simp
    then have "{i \<in> st_action_id ` set (pre @ [s]). survives steps defense i} = ?kept" by auto
    with Cons.prems(3) Some
    have "filter_steps defense rest {i \<in> st_action_id ` set (pre @ [s]). survives steps defense i}
        retained (bmap_insert (st_action_id s) x removed) = (kept, out)" by simp
    note rec = Cons.IH [OF next_pre Cons.prems(2) this]
    have "removal_justified steps defense s x"
      using filter_reason_Some [OF Some] prereqs by (auto simp: removal_justified_def split: if_splits)
    then have "map_of out i = Some y \<longrightarrow> map_of removed i = Some y \<or> (\<exists>s' \<in> set (s # rest).
        st_action_id s' = i \<and> \<not> survives steps defense i \<and> removal_justified steps defense s' y)" for i y
      using rec [THEN conjunct2, THEN conjunct1, rule_format, of i y] dead
      by (cases "i = st_action_id s") auto
    moreover have "map_of out i \<noteq> None \<longleftrightarrow> map_of removed i \<noteq> None
        \<or> (\<exists>s' \<in> set (s # rest). st_action_id s' = i \<and> \<not> survives steps defense i)" for i
      using rec [THEN conjunct2, THEN conjunct2, rule_format, of i] dead
      by (cases "i = st_action_id s") auto
    ultimately show ?thesis using rec [THEN conjunct1] dead by simp
  qed
qed

lemma filter_steps_out_ok:
  "filter_steps defense steps ids retained removed = (kept, out) \<Longrightarrow> bmap_ok removed \<Longrightarrow> bmap_ok out"
  by (induction defense steps ids retained removed rule: filter_steps.induct)
    (auto simp: bmap_ok_insert split: option.splits)

lemma renumber_ids [simp]: "map st_action_id (renumber n steps) = map st_action_id steps"
  by (rule nth_equalityI) (simp_all add: renumber_def nth_enumerate_eq)

lemma renumber_costs [simp]:
  "map (\<lambda>s. f (st_utility s)) (renumber n steps) = map (\<lambda>s. f (st_utility s)) steps"
  by (rule nth_equalityI) (simp_all add: renumber_def nth_enumerate_eq)

lemma renumber_same:
  "\<forall>k < length steps. st_position (steps ! k) = k \<Longrightarrow> renumber 0 steps = steps"
  by (rule nth_equalityI) (simp_all add: renumber_def nth_enumerate_eq)

lemma steps_safe_renumber: "steps_safe D (renumber n steps) = steps_safe D steps"
  by (induction steps arbitrary: D n) (simp_all add: renumber_def)

lemma steps_safe_survivors:
  assumes "steps = pre @ rest" and "steps_safe {} steps"
  shows "steps_safe {i \<in> st_action_id ` set pre. survives steps defense i}
    (filter (\<lambda>s. survives steps defense (st_action_id s)) rest)"
  using assms
proof (induction rest arbitrary: pre)
  case (Cons s rest)
  let ?kept = "{i \<in> st_action_id ` set pre. survives steps defense i}"
  have safe: "steps_safe {} (pre @ s # rest)" using Cons.prems by simp
  have here: "st_action_id s \<notin> st_action_id ` set pre" "set (st_prerequisites s) \<subseteq> st_action_id ` set pre"
    using safe by (simp_all add: steps_safe_append)
  have rec: "steps_safe {i \<in> st_action_id ` set (pre @ [s]). survives steps defense i}
      (filter (\<lambda>s. survives steps defense (st_action_id s)) rest)"
    using Cons.prems by (intro Cons.IH) simp_all
  show ?case
  proof (cases "survives steps defense (st_action_id s)")
    case True
    then have "{i \<in> st_action_id ` set (pre @ [s]). survives steps defense i} = insert (st_action_id s) ?kept"
      by auto
    moreover have "set (st_prerequisites s) \<subseteq> ?kept"
      using survives_step [OF safe] True here(2) Cons.prems(1) by auto
    ultimately show ?thesis using rec here(1) True by simp
  next
    case False
    then have "{i \<in> st_action_id ` set (pre @ [s]). survives steps defense i} = ?kept" by auto
    with rec False show ?thesis by simp
  qed
qed simp

lemma unaffected_survives:
  assumes "steps_safe {} steps" and "\<forall>s \<in> set steps. st_action_id s \<notin> set defense" and "s \<in> set steps"
  shows "survives steps defense (st_action_id s)"
proof -
  have closed: "set (st_prerequisites x) \<subseteq> st_action_id ` set steps" if "x \<in> set steps" for x
  proof -
    from that obtain pre post where "steps = pre @ x # post" by (metis in_set_conv_decomp)
    with assms(1) show ?thesis by (auto simp: steps_safe_append)
  qed
  have "j \<in> st_action_id ` set steps" if "(st_action_id s, j) \<in> (step_edges steps)\<^sup>*" for j
    using that
  proof (induction rule: rtrancl_induct)
    case base
    then show ?case using assms(3) by simp
  next
    case (step j k)
    then obtain x where "x \<in> set steps" "k \<in> set (st_prerequisites x)" by (auto simp: step_edges_def)
    then show ?case using closed by blast
  qed
  with assms(2) show ?thesis by (auto simp: survives_def)
qed

lemma sum_list_filter_le: "sum_list (map f (filter P xs)) \<le> (sum_list (map f xs) :: nat)"
  by (induction xs) auto

lemma map_of_fold_insert:
  "distinct (map fst xs) \<Longrightarrow> map_of (fold (\<lambda>(i, x). bmap_insert i x) xs m) = map_of m ++ map_of xs"
proof (induction xs arbitrary: m)
  case (Cons y ys)
  obtain i x where y: "y = (i, x)" by (cases y)
  then have "map_of ys i = None" using Cons.prems by (simp add: map_of_eq_None_iff)
  then have merge: "(map_of m)(i \<mapsto> x) ++ map_of ys = map_of m ++ map_of (y # ys)"
    by (auto simp: y map_add_def fun_eq_iff split: option.splits)
  have "map_of (fold (\<lambda>(i, x). bmap_insert i x) (y # ys) m) = map_of (bmap_insert i x m) ++ map_of ys"
    using Cons.IH [of "bmap_insert i x m"] Cons.prems by (simp add: y fun_upd_def)
  then show ?case by (simp only: map_of_bmap_insert merge)
qed simp

lemma bmap_ok_fold_insert: "bmap_ok m \<Longrightarrow> bmap_ok (fold (\<lambda>(i, x). bmap_insert i x) xs m)"
  by (induction xs arbitrary: m) (auto simp: bmap_ok_insert)

text \<open>The filter on any dependency-safe plan.\<close>

definition defense_filtered :: "attack_plan \<Rightarrow> string list \<Rightarrow> attack_plan \<Rightarrow> bool" where
  "defense_filtered baseline defense filtered \<longleftrightarrow>
     ap_steps filtered =
       renumber 0 (filter (\<lambda>s. survives (ap_steps baseline) defense (st_action_id s)) (ap_steps baseline))
   \<and> unat (ap_total_cost filtered) = sum_list (map (\<lambda>s. unat (ub_cost (st_utility s))) (ap_steps filtered))
   \<and> set (map fst (ap_excluded filtered)) = set (map fst (ap_excluded baseline))
       \<union> {st_action_id s | s. s \<in> set (ap_steps baseline) \<and> \<not> survives (ap_steps baseline) defense (st_action_id s)}
   \<and> (\<forall>s \<in> set (ap_steps baseline). \<not> survives (ap_steps baseline) defense (st_action_id s) \<longrightarrow>
        (\<exists>x. (st_action_id s, x) \<in> set (ap_excluded filtered) \<and> removal_justified (ap_steps baseline) defense s x))"

lemma into_defense_filtered_exact:
  assumes safe: "steps_safe {} (ap_steps plan)"
    and pos: "\<forall>k < length (ap_steps plan). st_position (ap_steps plan ! k) = k"
    and cost: "unat (ap_total_cost plan) = sum_list (map (\<lambda>s. unat (ub_cost (st_utility s))) (ap_steps plan))"
    and keys: "distinct (map fst (ap_excluded plan))"
      "fst ` set (ap_excluded plan) \<inter> st_action_id ` set (ap_steps plan) = {}"
  shows "defense_filtered plan defense (into_defense_filtered plan defense)"
proof (cases "\<exists>s \<in> set (ap_steps plan). st_action_id s \<in> set defense")
  case False
  then have "into_defense_filtered plan defense = plan"
    by (auto simp: into_defense_filtered_def list_ex_iff)
  moreover have alive: "survives (ap_steps plan) defense (st_action_id s)" if "s \<in> set (ap_steps plan)" for s
    using unaffected_survives [OF safe _ that] False by blast
  moreover have "filter (\<lambda>s. survives (ap_steps plan) defense (st_action_id s)) (ap_steps plan) = ap_steps plan"
    using alive by (simp add: filter_id_conv)
  ultimately show ?thesis using cost by (auto simp: defense_filtered_def renumber_same [OF pos])
next
  case True
  obtain kept out where run: "filter_steps defense (ap_steps plan) {} [] [] = (kept, out)" by fastforce
  have "filter_steps defense (ap_steps plan) {i \<in> st_action_id ` set []. survives (ap_steps plan) defense i} [] [] = (kept, out)"
    using run by simp
  note exact = filter_steps_exact [OF append_Nil [symmetric] safe this]
  have ok: "bmap_ok out" using filter_steps_out_ok [OF run] by (simp add: bmap_ok_def)
  let ?ex = "fold (\<lambda>(i, x). bmap_insert i x) out (fold (\<lambda>(i, x). bmap_insert i x) (ap_excluded plan) [])"
  have filtered: "into_defense_filtered plan defense = plan\<lparr>
      ap_total_cost := sum_list (map (\<lambda>s. ucast (ub_cost (st_utility s))) kept), ap_steps := kept, ap_excluded := ?ex\<rparr>"
    using True run by (auto simp: into_defense_filtered_def list_ex_iff)
  have merged: "map_of ?ex = map_of (ap_excluded plan) ++ map_of out"
    by (simp add: map_of_fold_insert bmap_ok_distinct [OF ok] keys(1))
  have ex_ok: "distinct (map fst ?ex)"
    by (intro bmap_ok_distinct bmap_ok_fold_insert) (simp add: bmap_ok_def)
  have keyset: "fst ` set ?ex = fst ` set (ap_excluded plan) \<union> fst ` set out"
    using arg_cong [OF merged, of dom] by (simp only: dom_map_add dom_map_of_conv_image_fst Un_commute)
  have kept: "kept = renumber 0 (filter (\<lambda>s. survives (ap_steps plan) defense (st_action_id s)) (ap_steps plan))"
    using exact by simp
  have outset: "fst ` set out = {st_action_id s | s. s \<in> set (ap_steps plan) \<and> \<not> survives (ap_steps plan) defense (st_action_id s)}"
    using exact by (auto simp flip: dom_map_of_conv_image_fst)
  have "sum_list (map (\<lambda>s. unat (ub_cost (st_utility s))) kept) \<le> unat (ap_total_cost plan)"
    unfolding kept renumber_costs [of "\<lambda>u. unat (ub_cost u)"] cost by (rule sum_list_filter_le)
  then have "sum_list (map (\<lambda>s. unat (ub_cost (st_utility s))) kept) < 2 ^ LENGTH(64)"
    using unat_less_exp [of "ap_total_cost plan"] by simp
  then have total: "unat (sum_list (map (\<lambda>s. ucast (ub_cost (st_utility s))) kept) :: u64) =
      sum_list (map (\<lambda>s. unat (ub_cost (st_utility s))) kept)"
    by (subst unat_sum_list) (simp_all add: comp_def unat_ucast_widen)
  have reasons: "\<exists>x. (st_action_id s, x) \<in> set ?ex \<and> removal_justified (ap_steps plan) defense s x"
    if s: "s \<in> set (ap_steps plan)" "\<not> survives (ap_steps plan) defense (st_action_id s)" for s
  proof -
    from s outset have "st_action_id s \<in> fst ` set out" by blast
    then obtain x where x: "map_of out (st_action_id s) = Some x"
      by (metis map_of_eq_None_iff not_None_eq)
    from exact [THEN conjunct2, THEN conjunct1, rule_format, OF x] obtain s' where
      s': "s' \<in> set (ap_steps plan)" "st_action_id s' = st_action_id s" "removal_justified (ap_steps plan) defense s' x"
      by auto
    then have "s' = s"
      using steps_safe_distinct [OF safe] s(1) by (simp add: distinct_map inj_on_def)
    moreover have "(st_action_id s, x) \<in> set ?ex" using x merged by (intro map_of_SomeD) simp
    ultimately show ?thesis using s'(3) by blast
  qed
  show ?thesis
    unfolding defense_filtered_def filtered
    using kept total keyset outset reasons by simp
qed

lemma baseline_facts:
  assumes "planner_ok actions" and "plan_with_policy_suppressed actions sn context suppressed = Ok plan"
  shows "steps_safe {} (ap_steps plan)" and "\<forall>k < length (ap_steps plan). st_position (ap_steps plan ! k) = k"
    and "unat (ap_total_cost plan) = sum_list (map (\<lambda>s. unat (ub_cost (st_utility s))) (ap_steps plan))"
    and "distinct (map fst (ap_excluded plan))"
    and "fst ` set (ap_excluded plan) \<inter> st_action_id ` set (ap_steps plan) = {}"
proof -
  note facts = plan_facts [OF assms(1) assms(2) [folded plan_snapshot_with_suppressed_eq]]
  show "\<forall>k < length (ap_steps plan). st_position (ap_steps plan ! k) = k"
    and "unat (ap_total_cost plan) = sum_list (map (\<lambda>s. unat (ub_cost (st_utility s))) (ap_steps plan))"
    using facts by auto
  show "steps_safe {} (ap_steps plan)"
    using facts by (intro steps_safeI) (auto simp: take_map)
  from planned_phases [OF assms(2)] plan_decides [OF assms(1)] assms(2)
  have ex: "map fst (ap_excluded plan) = filter (\<lambda>i. i \<notin> st_action_id ` set (ap_steps plan)) (map fst actions)"
    by fastforce
  have "distinct (map fst actions)" using assms(1) by (simp add: planner_ok_def actions_keyed_def bmap_ok_distinct)
  then show "distinct (map fst (ap_excluded plan))" unfolding ex by simp
  have "fst ` set (ap_excluded plan) = set (filter (\<lambda>i. i \<notin> st_action_id ` set (ap_steps plan)) (map fst actions))"
    unfolding ex [symmetric] by simp
  then show "fst ` set (ap_excluded plan) \<inter> st_action_id ` set (ap_steps plan) = {}" by auto
qed

lemma filtered_plan_facts:
  assumes "planner_ok actions"
    and "plan_with_action_suppressions_and_baseline actions sn context suppr = Ok (baseline, filtered)"
  shows "defense_filtered baseline (sup_defense suppr) filtered
    \<and> steps_safe {} (ap_steps filtered) \<and> ap_total_cost filtered \<le> ap_total_cost baseline
    \<and> (\<forall>s \<in> set (ap_steps filtered). st_action_id s \<notin> set (sup_defense suppr))"
proof -
  from assms(2) have plan: "plan_with_policy_suppressed actions sn context (sup_policy suppr) = Ok baseline"
    and filtered: "filtered = into_defense_filtered baseline (sup_defense suppr)"
    by (auto simp: plan_with_action_suppressions_and_baseline_def res_simps)
  let ?keep = "\<lambda>s. survives (ap_steps baseline) (sup_defense suppr) (st_action_id s)"
  note base = baseline_facts [OF assms(1) plan]
  have exact: "defense_filtered baseline (sup_defense suppr) filtered"
    unfolding filtered by (rule into_defense_filtered_exact [OF base])
  then have steps: "ap_steps filtered = renumber 0 (filter ?keep (ap_steps baseline))"
    by (simp add: defense_filtered_def)
  have "steps_safe {} (ap_steps filtered)"
    using steps_safe_survivors [OF append_Nil [symmetric] base(1)] by (simp add: steps steps_safe_renumber)
  moreover have "unat (ap_total_cost filtered) \<le> unat (ap_total_cost baseline)"
    using exact sum_list_filter_le [of "\<lambda>s. unat (ub_cost (st_utility s))" ?keep "ap_steps baseline"]
    unfolding defense_filtered_def base(3) steps renumber_costs [of "\<lambda>u. unat (ub_cost u)"] by simp
  moreover have "st_action_id s \<notin> set (sup_defense suppr)" if "s \<in> set (ap_steps filtered)" for s
  proof -
    have "st_action_id ` set (ap_steps filtered) = st_action_id ` set (filter ?keep (ap_steps baseline))"
      unfolding steps by (metis list.set_map renumber_ids)
    then have "st_action_id s \<in> st_action_id ` set (filter ?keep (ap_steps baseline))"
      using that by blast
    then obtain b where "st_action_id s = st_action_id b" "b \<in> set (filter ?keep (ap_steps baseline))"
      by (rule imageE)
    then have "survives (ap_steps baseline) (sup_defense suppr) (st_action_id s)" by simp
    then show ?thesis unfolding survives_def by (metis rtrancl.rtrancl_refl)
  qed
  ultimately show ?thesis
    using exact by (simp add: word_le_nat_alt)
qed

text \<open>
  C35. Defense suppression only removes: the filtered plan keeps, in order and with all their data,
  exactly the baseline steps that are not suppressed and do not transitively need a suppressed step.
  It remains dependency-safe, its cost is the exact sum of what is left and never grows, nothing that
  the baseline excluded enters, and each removed step is listed with the reason that applies to it.
\<close>

theorem defense_filter_exact:
  assumes "planner_ok actions"
    and "plan_with_action_suppressions_and_baseline actions sn context suppr = Ok (baseline, filtered)"
  shows "defense_filtered baseline (sup_defense suppr) filtered
    \<and> steps_safe {} (ap_steps filtered) \<and> ap_total_cost filtered \<le> ap_total_cost baseline
    \<and> (\<forall>s \<in> set (ap_steps filtered). st_action_id s \<notin> set (sup_defense suppr))"
  by (rule filtered_plan_facts [OF assms])

lemma defense_filter_exact_witness:
  "map st_action_id (ap_steps sample_plan) = [''b'', ''a'']
   \<and> ap_steps (into_defense_filtered sample_plan [''b'']) = []
   \<and> defense_filtered sample_plan [''b''] (into_defense_filtered sample_plan [''b''])"
proof -
  let ?s = "\<lparr>sup_policy = [], sup_defense = [''b'']\<rparr>"
  have "plan_with_action_suppressions_and_baseline sample_planner planning_snapshot sample_context ?s =
      Ok (sample_plan, into_defense_filtered sample_plan [''b''])"
    using sample_plan_eq(1)
    by (simp add: plan_with_action_suppressions_and_baseline_def plan_snapshot_with_suppressed_eq)
  from defense_filter_exact [OF sample_planner_ok this]
  have "defense_filtered sample_plan [''b''] (into_defense_filtered sample_plan [''b''])" by simp
  moreover have "ap_steps (into_defense_filtered sample_plan [''b'']) = []" by code_simp
  ultimately show ?thesis using sample_plan_eq(2) by simp
qed

section \<open>Scheduled actions\<close>

lemma single_closure:
  "act_prerequisites (ec_action c) = [] \<Longrightarrow> build_eligible_closure [(i, c)] {} i ({}, []) = Ok ({}, [i])"
  by simp

lemma single_selection:
  assumes "act_prerequisites (ec_action c) = []"
  shows "select_candidates [(i, c)] budget [i]
      \<lparr>sl_selected = {}, sl_ordered = [], sl_total_cost = 0, sl_exclusions = []\<rparr> =
    Ok (if budget < ucast (act_cost (ec_action c))
        then \<lparr>sl_selected = {}, sl_ordered = [], sl_total_cost = 0,
          sl_exclusions = [(i, BudgetExceeded (ucast (act_cost (ec_action c))) budget)]\<rparr>
        else \<lparr>sl_selected = {i}, sl_ordered = [i], sl_total_cost = ucast (act_cost (ec_action c)), sl_exclusions = []\<rparr>)"
  using single_closure [OF assms, of i]
  by (simp add: consider_candidate_def saturating_sub_def del: build_eligible_closure.simps)

lemma single_plan:
  assumes "act_id a = i" and "act_prerequisites a = []"
    and "candidate_of sn context suppressed a = Ok r"
  shows "plan_snapshot_with_suppressed [(i, a)] sn context suppressed =
    Ok \<lparr>ap_subject = sn_subject sn, ap_context = context,
      ap_total_cost = (case r of Inl c \<Rightarrow> if pc_budget context < ucast (act_cost a) then 0 else ucast (act_cost a) | Inr x \<Rightarrow> 0),
      ap_steps = (case r of Inl c \<Rightarrow> if pc_budget context < ucast (act_cost a) then [] else [plan_step_of 0 c] | Inr x \<Rightarrow> []),
      ap_excluded = (case r of Inl c \<Rightarrow>
          if pc_budget context < ucast (act_cost a)
          then [(i, BudgetExceeded (ucast (act_cost a)) (pc_budget context))] else [] | Inr x \<Rightarrow> [(i, x)])\<rparr>"
proof -
  have valid: "validate_dependencies [(i, a)] = Ok ()" using assms(2) by (simp add: validate_dependencies_def)
  show ?thesis
  proof (cases r)
    case (Inl c)
    have "ec_action c = a"
      using evaluate_candidate_eligible [OF assms(3) [unfolded candidate_of_def Inl]] by (simp add: candidate_authorised_def)
    moreover have "ranked_ids [(i, c)] = [i]" by (simp add: ranked_ids_def)
    ultimately show ?thesis
      using assms valid Inl single_selection [of c i "pc_budget context"]
      by (simp add: plan_snapshot_with_suppressed_eq plan_with_policy_suppressed_def partition_Cons
          del: select_candidates.simps)
  next
    case (Inr x)
    then show ?thesis
      using assms valid
      by (simp add: plan_snapshot_with_suppressed_eq plan_with_policy_suppressed_def partition_Cons ranked_ids_def)
  qed
qed

text \<open>
  C36. Immediate dispatch grants nothing that planning would not: for a registered action without
  prerequisites that no defense suppresses, in a valid planner, the scheduled authorisation yields a
  step exactly when a planner holding this action alone plans it under the same context and policy
  suppressions, and it is the same step. An action with prerequisites is never authorised.
\<close>

theorem scheduled_agrees_with_plan:
  assumes "actions_keyed actions" and "validate_dependencies actions = Ok ()"
    and "map_of actions i = Some a" and "i \<notin> set (sup_defense suppr)"
  shows "authorize_scheduled_action actions sn context suppr i = Ok step \<longleftrightarrow>
    act_prerequisites a = [] \<and>
    (\<exists>plan. plan_snapshot_with_suppressed [(i, a)] sn context (sup_policy suppr) = Ok plan \<and> ap_steps plan = [step])"
proof -
  have i: "act_id a = i" using assms(1,3) by (simp add: actions_keyed_def)
  have auth: "authorize_scheduled_action actions sn context suppr i = Ok step \<longleftrightarrow>
      (\<exists>c. candidate_of sn context (sup_policy suppr) a = Ok (Inl c) \<and> act_prerequisites a = []
        \<and> \<not> pc_budget context < ucast (act_cost a) \<and> step = plan_step_of 0 c)"
  proof -
    have action: "ec_action c = a" if "candidate_of sn context (sup_policy suppr) a = Ok (Inl c)" for c
      using evaluate_candidate_eligible [OF that [unfolded candidate_of_def]] by (simp add: candidate_authorised_def)
    have "authorize_scheduled_action actions sn context suppr i =
        and_then (map_err ScheduledPlanner (candidate_of sn context (sup_policy suppr) a)) (\<lambda>r.
          case r of
            Inr reason \<Rightarrow> Err (ScheduledExcluded i reason)
          | Inl c \<Rightarrow>
              if act_prerequisites (ec_action c) \<noteq> [] then Err (HasPrerequisites i)
              else if pc_budget context < ucast (act_cost (ec_action c))
              then Err (ScheduledExcluded i
                     (BudgetExceeded (ucast (act_cost (ec_action c))) (pc_budget context)))
              else Ok (plan_step_of 0 c))"
      using assms(2-4) i by (simp add: authorize_scheduled_action_def candidate_of_def)
    note eq = this
    show ?thesis
    proof (cases "candidate_of sn context (sup_policy suppr) a")
      case (Ok r)
      then show ?thesis
      proof (cases r)
        case (Inl c)
        with Ok action show ?thesis using eq by auto
      next
        case (Inr x)
        with Ok show ?thesis using eq by simp
      qed
    qed (use eq in simp_all)
  qed
  show ?thesis
  proof (cases "act_prerequisites a = []")
    case prereqs: True
    show ?thesis
    proof (cases "candidate_of sn context (sup_policy suppr) a")
      case (Ok r)
      with auth single_plan [OF i prereqs Ok] prereqs show ?thesis by (cases r) auto
    next
      case (Err e)
      then have "plan_snapshot_with_suppressed [(i, a)] sn context (sup_policy suppr) \<noteq> Ok plan" for plan
        by (auto simp: plan_snapshot_with_suppressed_eq plan_with_policy_suppressed_def partition_Cons res_simps)
      with Err auth show ?thesis by simp
    next
      case Panic
      then have "plan_snapshot_with_suppressed [(i, a)] sn context (sup_policy suppr) \<noteq> Ok plan" for plan
        by (auto simp: plan_snapshot_with_suppressed_eq plan_with_policy_suppressed_def partition_Cons res_simps)
      with Panic auth show ?thesis by simp
    qed
  qed (use auth in simp)
qed

lemma scheduled_agrees_with_plan_witness:
  "authorize_scheduled_action sample_planner planning_snapshot sample_context (policy_only []) ''b'' =
     Ok (ap_steps sample_plan ! 0)
   \<and> (\<exists>plan. plan_snapshot_with_suppressed [(''b'', sample_action ''b'' 2 [])] planning_snapshot sample_context [] = Ok plan
        \<and> ap_steps plan = [ap_steps sample_plan ! 0])"
proof -
  have run: "authorize_scheduled_action sample_planner planning_snapshot sample_context (policy_only []) ''b'' =
     Ok (ap_steps sample_plan ! 0)" by code_simp
  have "actions_keyed sample_planner" using sample_planner_ok by (simp add: planner_ok_def)
  moreover have "validate_dependencies sample_planner = Ok ()" by code_simp
  moreover have "map_of sample_planner ''b'' = Some (sample_action ''b'' 2 [])" by (simp add: sample_planner_def)
  moreover have "''b'' \<notin> set (sup_defense (policy_only []))" by (simp add: policy_only_def)
  ultimately show ?thesis
    using scheduled_agrees_with_plan [of sample_planner "''b''" "sample_action ''b'' 2 []" "policy_only []"
        planning_snapshot sample_context "ap_steps sample_plan ! 0"] run
    by (simp add: policy_only_def)
qed

section \<open>Wire guard of actions\<close>

text \<open>The actions that the constructor and its builder methods produce.\<close>

definition action_built :: "attack_action \<Rightarrow> bool" where
  "action_built a \<longleftrightarrow>
     attack_action_new (act_id a) (act_executor a) (act_requirements a) (act_confidence a) (act_gain a)
       (act_cost a) (act_risk a) (act_prerequisites a) =
     Ok (a\<lparr>act_payload := None, act_target := Motivation, act_guard := False\<rparr>)
   \<and> act_guard a = (act_target a \<noteq> Motivation)"

lemma attack_action_new_Ok:
  "attack_action_new i ex req conf gain cost risk ps = Ok a \<Longrightarrow>
   \<not> blank i \<and> \<not> blank ex \<and> check_action_prerequisites i ps = Ok () \<and>
   a = \<lparr>act_id = i, act_executor = ex, act_payload = None, act_requirements = req, act_confidence = conf,
        act_gain = gain, act_cost = cost, act_risk = risk, act_prerequisites = ps, act_target = Motivation,
        act_guard = False\<rparr>"
  by (auto simp: attack_action_new_def planner_non_empty_def res_simps split: if_splits)

lemma action_from_wire_built: "action_from_wire w = Ok a \<Longrightarrow> action_built a"
  by (auto simp: action_from_wire_def Let_def res_simps action_built_def with_verification_target_def
      with_payload_strategy_def is_motivation_def attack_action_new_def planner_non_empty_def
      split: if_splits option.splits)

lemma action_roundtrip:
  assumes "action_built a"
  shows "action_from_wire (action_to_wire a) = Ok a"
proof -
  have new: "attack_action_new (act_id a) (act_executor a) (act_requirements a) (act_confidence a) (act_gain a)
      (act_cost a) (act_risk a) (act_prerequisites a) =
      Ok (a\<lparr>act_payload := None, act_target := Motivation, act_guard := False\<rparr>)"
    and guard: "act_guard a = (act_target a \<noteq> Motivation)"
    using assms by (simp_all add: action_built_def)
  show ?thesis
    by (cases a, use new guard in \<open>cases "act_target a = Motivation"\<close>)
      (auto simp: action_from_wire_def action_to_wire_def Let_def is_motivation_def
        with_verification_target_def with_payload_strategy_def split: option.splits)
qed

text \<open>
  Actions survive the wire and fail closed: a constructed action is decoded from its own encoding
  unchanged, whatever is decoded is a constructed action, and a document of an action with a
  non-default verification target is rejected when the target, or the guard that protects it from
  readers that do not know it, has been dropped.
\<close>

theorem action_wire_guarded:
  "(action_built a \<longrightarrow> action_from_wire (action_to_wire a) = Ok a) \<and>
   (action_from_wire w = Ok b \<longrightarrow> action_built b) \<and>
   (action_built a \<and> act_target a \<noteq> Motivation \<longrightarrow>
      action_from_wire ((action_to_wire a)\<lparr>wa_target := None\<rparr>) = Err TargetGuardInconsistent \<and>
      action_from_wire ((action_to_wire a)\<lparr>wa_guard := None\<rparr>) = Err TargetGuardInconsistent)"
  using action_roundtrip action_from_wire_built [of w b]
  by (auto simp: action_from_wire_def action_to_wire_def is_motivation_def action_built_def)

end
