(* ===== verification/Budget.thy ===== *)
theory Budget
  imports Prelude Machine
begin

text \<open>
  The runtime budget (\<open>src/crates/termivar-scanner/src/runtime_budget.rs\<close>): the resource envelope,
  the accounting broker that checks and records each transport dispatch under one lock, the leases
  that charge response bytes and leave a receipt when they are dropped, the bounded audit, and the
  usage record that merges broker snapshots. Clones of a broker share its state, so an execution is
  an interleaving of these transitions: \<open>accounting_step\<close>. Clocks are arguments.
\<close>

section \<open>Envelope\<close>

definition DEFAULT_MAX_TOTAL_REQUESTS :: u32 where "DEFAULT_MAX_TOTAL_REQUESTS = 32"
definition DEFAULT_MAX_WALL_TIME_MS :: u64 where "DEFAULT_MAX_WALL_TIME_MS = 120000"
definition DEFAULT_MAX_RESPONSE_BYTES :: u64 where "DEFAULT_MAX_RESPONSE_BYTES = 2 * 1024 * 1024"
definition DEFAULT_MAX_REQUEST_BODY_BYTES :: u64 where "DEFAULT_MAX_REQUEST_BODY_BYTES = 256 * 1024"
definition DEFAULT_MAX_ACTIVE_VERIFICATIONS :: u16 where "DEFAULT_MAX_ACTIVE_VERIFICATIONS = 4"
definition DEFAULT_MAX_SAME_ACTION_ATTEMPTS :: u16 where "DEFAULT_MAX_SAME_ACTION_ATTEMPTS = 3"
definition DEFAULT_MAX_CONSECUTIVE_NO_PROGRESS_TURNS :: u16 where
  "DEFAULT_MAX_CONSECUTIVE_NO_PROGRESS_TURNS = 4"
definition HARD_MAX_TRANSPORT_DISPATCH_RECEIPTS :: nat where "HARD_MAX_TRANSPORT_DISPATCH_RECEIPTS = 4096"

record runtime_budget =
  max_total_requests :: u32
  max_wall_time_ms :: u64
  max_response_bytes :: u64
  max_request_body_bytes :: u64
  max_active_verifications :: u16
  max_same_action_attempts :: u16
  max_consecutive_no_progress_turns :: u16

definition runtime_budget_new ::
  "u32 \<Rightarrow> u64 \<Rightarrow> u64 \<Rightarrow> u16 \<Rightarrow> u16 \<Rightarrow> u16 \<Rightarrow> runtime_budget" where
  "runtime_budget_new requests wall response active attempts turns =
     \<lparr>max_total_requests = requests, max_wall_time_ms = wall, max_response_bytes = response,
      max_request_body_bytes = DEFAULT_MAX_REQUEST_BODY_BYTES, max_active_verifications = active,
      max_same_action_attempts = attempts, max_consecutive_no_progress_turns = turns\<rparr>"

definition runtime_budget_default :: runtime_budget where
  "runtime_budget_default =
     runtime_budget_new DEFAULT_MAX_TOTAL_REQUESTS DEFAULT_MAX_WALL_TIME_MS DEFAULT_MAX_RESPONSE_BYTES
       DEFAULT_MAX_ACTIVE_VERIFICATIONS DEFAULT_MAX_SAME_ACTION_ATTEMPTS
       DEFAULT_MAX_CONSECUTIVE_NO_PROGRESS_TURNS"

text \<open>
  A \<^verbatim>\<open>Duration\<close> is its number of nanoseconds. A positive limit below one millisecond rounds up to
  one, so it does not become the fail-closed zero, and the wire representation saturates.
\<close>

definition as_millis :: "nat \<Rightarrow> nat" where
  "as_millis nanos = nanos div 1000000"

definition u64_saturating :: "nat \<Rightarrow> u64" where
  "u64_saturating n = (if n < 2 ^ 64 then word_of_nat n else - 1)"

definition with_max_wall_time :: "nat \<Rightarrow> runtime_budget \<Rightarrow> runtime_budget" where
  "with_max_wall_time limit b =
     b\<lparr>max_wall_time_ms := u64_saturating (if limit = 0 then 0 else max (as_millis limit) 1)\<rparr>"

datatype budget_dimension =
    TotalRequests | WallTime | ResponseBytes | RequestBodyBytes | ActiveVerifications
  | SameActionAttempts | ConsecutiveNoProgressTurns

record limit_exceeded =
  lx_dimension :: budget_dimension
  lx_limit :: u64
  lx_observed :: u64
  lx_action_id :: "string option"

definition limit_exceeded_new ::
  "budget_dimension \<Rightarrow> u64 \<Rightarrow> u64 \<Rightarrow> string option \<Rightarrow> limit_exceeded" where
  "limit_exceeded_new dimension limit observed action_id =
     \<lparr>lx_dimension = dimension, lx_limit = limit, lx_observed = observed, lx_action_id = action_id\<rparr>"

section \<open>Accounting\<close>

datatype execution_stage = Passive | Active
datatype action_origin = Bootstrap | Planned | Adaptive | Retry

datatype dispatch_outcome =
  Completed | TransportFailure | RequestTimeout | ResponseBudgetReached | Cancelled

record dispatch_receipt =
  rc_sequence :: u64
  rc_action_id :: string
  rc_stage :: execution_stage
  rc_origin :: "action_origin option"
  rc_request_body_bytes :: u64
  rc_response_bytes :: u64
  rc_elapsed_ms :: u64
  rc_outcome :: dispatch_outcome

record accounting_snapshot =
  as_total_requests :: u32
  as_passive_requests :: u32
  as_active_verifications :: u16
  as_bootstrap_requests :: u32
  as_planned_requests :: u32
  as_adaptive_requests :: u32
  as_retry_requests :: u32
  as_request_body_bytes :: u64
  as_response_bytes :: u64

definition accounting_snapshot_default :: accounting_snapshot where
  "accounting_snapshot_default =
     \<lparr>as_total_requests = 0, as_passive_requests = 0, as_active_verifications = 0, as_bootstrap_requests = 0,
      as_planned_requests = 0, as_adaptive_requests = 0, as_retry_requests = 0, as_request_body_bytes = 0,
      as_response_bytes = 0\<rparr>"

record accounting_state =
  ac_snapshot :: accounting_snapshot
  ac_next_sequence :: u64
  ac_receipts :: "dispatch_receipt list"
  ac_omitted :: u64

definition accounting_state_default :: accounting_state where
  "accounting_state_default =
     \<lparr>ac_snapshot = accounting_snapshot_default, ac_next_sequence = 0, ac_receipts = [], ac_omitted = 0\<rparr>"

definition check_request_limits ::
  "accounting_snapshot \<Rightarrow> runtime_budget \<Rightarrow> string \<Rightarrow> execution_stage \<Rightarrow> u64 \<Rightarrow> (u64, limit_exceeded) res" where
  "check_request_limits sn budget action_id stage body =
     (if max_total_requests budget \<le> as_total_requests sn
      then Err (limit_exceeded_new TotalRequests (ucast (max_total_requests budget))
             (saturating_add (ucast (as_total_requests sn)) 1) (Some action_id))
      else if max_response_bytes budget \<le> as_response_bytes sn
      then Err (limit_exceeded_new ResponseBytes (max_response_bytes budget) (as_response_bytes sn) (Some action_id))
      else case checked_add (as_request_body_bytes sn) body of
          None \<Rightarrow> Err (limit_exceeded_new RequestBodyBytes (max_request_body_bytes budget) (- 1) (Some action_id))
        | Some next_body \<Rightarrow>
            if max_request_body_bytes budget < next_body
            then Err (limit_exceeded_new RequestBodyBytes (max_request_body_bytes budget) next_body (Some action_id))
            else if stage = Active \<and> max_active_verifications budget \<le> as_active_verifications sn
            then Err (limit_exceeded_new ActiveVerifications (ucast (max_active_verifications budget))
                   (saturating_add (ucast (as_active_verifications sn)) 1) (Some action_id))
            else Ok (saturating_sub (max_response_bytes budget) (as_response_bytes sn)))"

definition record_dispatch ::
  "execution_stage \<Rightarrow> action_origin option \<Rightarrow> u64 \<Rightarrow> accounting_snapshot \<Rightarrow> accounting_snapshot" where
  "record_dispatch stage origin body sn =
     (let sn = sn\<lparr>as_total_requests := saturating_add (as_total_requests sn) 1,
                  as_request_body_bytes := saturating_add (as_request_body_bytes sn) body\<rparr>
      in case stage of
           Passive \<Rightarrow>
             (let sn = sn\<lparr>as_passive_requests := saturating_add (as_passive_requests sn) 1\<rparr>
              in case origin of
                   Some Bootstrap \<Rightarrow> sn\<lparr>as_bootstrap_requests := saturating_add (as_bootstrap_requests sn) 1\<rparr>
                 | Some Planned \<Rightarrow> sn\<lparr>as_planned_requests := saturating_add (as_planned_requests sn) 1\<rparr>
                 | Some Adaptive \<Rightarrow> sn\<lparr>as_adaptive_requests := saturating_add (as_adaptive_requests sn) 1\<rparr>
                 | Some Retry \<Rightarrow> sn\<lparr>as_retry_requests := saturating_add (as_retry_requests sn) 1\<rparr>
                 | None \<Rightarrow> sn)
         | Active \<Rightarrow> sn\<lparr>as_active_verifications := saturating_add (as_active_verifications sn) 1\<rparr>)"

record accounting_lease =
  le_sequence :: u64
  le_action_id :: string
  le_stage :: execution_stage
  le_origin :: "action_origin option"
  le_request_body_bytes :: u64
  le_response_bytes :: u64
  le_budget_reached :: bool
  le_outcome :: "dispatch_outcome option"

definition try_begin ::
  "runtime_budget \<Rightarrow> string \<Rightarrow> execution_stage \<Rightarrow> action_origin option \<Rightarrow> u64 \<Rightarrow> accounting_state \<Rightarrow>
   (accounting_lease, limit_exceeded) res \<times> accounting_state" where
  "try_begin budget action_id stage origin body st =
     (case check_request_limits (ac_snapshot st) budget action_id stage body of
        Err e \<Rightarrow> (Err e, st)
      | Panic \<Rightarrow> (Panic, st)
      | Ok _ \<Rightarrow>
          (Ok \<lparr>le_sequence = ac_next_sequence st, le_action_id = action_id, le_stage = stage,
               le_origin = origin, le_request_body_bytes = body, le_response_bytes = 0,
               le_budget_reached = False, le_outcome = None\<rparr>,
           st\<lparr>ac_snapshot := record_dispatch stage origin body (ac_snapshot st),
              ac_next_sequence := saturating_add (ac_next_sequence st) 1\<rparr>))"

definition preflight ::
  "runtime_budget \<Rightarrow> string \<Rightarrow> execution_stage \<Rightarrow> u64 \<Rightarrow> accounting_state \<Rightarrow> (u64, limit_exceeded) res" where
  "preflight budget action_id stage body st = check_request_limits (ac_snapshot st) budget action_id stage body"

definition observe_response_bytes ::
  "runtime_budget \<Rightarrow> u64 \<Rightarrow> accounting_lease \<Rightarrow> accounting_state \<Rightarrow> u64 \<times> accounting_lease \<times> accounting_state" where
  "observe_response_bytes budget bytes lease st =
     (let remaining = saturating_sub (max_response_bytes budget) (as_response_bytes (ac_snapshot st))
      in (min bytes remaining,
          lease\<lparr>le_response_bytes := saturating_add (le_response_bytes lease) bytes,
                le_budget_reached := le_budget_reached lease \<or> 0 < bytes \<and> remaining \<le> bytes\<rparr>,
          st\<lparr>ac_snapshot := (ac_snapshot st)\<lparr>as_response_bytes :=
               saturating_add (as_response_bytes (ac_snapshot st)) bytes\<rparr>\<rparr>))"

definition remaining_response_bytes :: "runtime_budget \<Rightarrow> accounting_state \<Rightarrow> u64" where
  "remaining_response_bytes budget st =
     saturating_sub (max_response_bytes budget) (as_response_bytes (ac_snapshot st))"

definition lease_finish :: "dispatch_outcome \<Rightarrow> accounting_lease \<Rightarrow> accounting_lease" where
  "lease_finish outcome lease = lease\<lparr>le_outcome := Some outcome\<rparr>"

definition record_dispatch_receipt :: "dispatch_receipt \<Rightarrow> accounting_state \<Rightarrow> accounting_state" where
  "record_dispatch_receipt r st =
     (if length (ac_receipts st) < HARD_MAX_TRANSPORT_DISPATCH_RECEIPTS
      then st\<lparr>ac_receipts := ac_receipts st @ [r]\<rparr>
      else st\<lparr>ac_omitted := saturating_add (ac_omitted st) 1\<rparr>)"

definition lease_drop :: "nat \<Rightarrow> accounting_lease \<Rightarrow> accounting_state \<Rightarrow> accounting_state" where
  "lease_drop elapsed lease st =
     record_dispatch_receipt
       \<lparr>rc_sequence = le_sequence lease, rc_action_id = le_action_id lease, rc_stage = le_stage lease,
        rc_origin = le_origin lease, rc_request_body_bytes = le_request_body_bytes lease,
        rc_response_bytes = le_response_bytes lease, rc_elapsed_ms = u64_saturating (as_millis elapsed),
        rc_outcome = (case le_outcome lease of None \<Rightarrow> Cancelled | Some x \<Rightarrow> x)\<rparr> st"

record dispatch_audit =
  da_receipts :: "dispatch_receipt list"
  da_omitted :: u64

definition dispatch_audit_of :: "accounting_state \<Rightarrow> dispatch_audit" where
  "dispatch_audit_of st =
     \<lparr>da_receipts = sort_by (\<lambda>l r. rc_sequence l \<le> rc_sequence r) (ac_receipts st), da_omitted = ac_omitted st\<rparr>"

section \<open>Usage\<close>

record runtime_usage =
  ru_total_requests :: u32
  ru_passive_requests :: u32
  ru_active_verifications :: u16
  ru_bootstrap_requests :: u32
  ru_planned_requests :: u32
  ru_adaptive_requests :: u32
  ru_retry_requests :: u32
  ru_request_body_bytes :: u64
  ru_response_bytes :: u64
  ru_completed_turns :: u32
  ru_no_progress_turns :: u16
  ru_attempts :: "(string, u16) bmap"
  ru_elapsed_ms :: u64

definition same_action_attempts :: "runtime_usage \<Rightarrow> string \<Rightarrow> u16" where
  "same_action_attempts u i = (case map_of (ru_attempts u) i of None \<Rightarrow> 0 | Some n \<Rightarrow> n)"

definition total_action_attempts :: "runtime_usage \<Rightarrow> u64" where
  "total_action_attempts u = sum_list (map (\<lambda>(_, n). ucast n) (ru_attempts u))"

definition reserve_action_attempt :: "string \<Rightarrow> runtime_usage \<Rightarrow> runtime_usage" where
  "reserve_action_attempt i u =
     u\<lparr>ru_attempts := bmap_insert i (saturating_add (same_action_attempts u i) 1) (ru_attempts u)\<rparr>"

definition sync_request_accounting :: "accounting_snapshot \<Rightarrow> runtime_usage \<Rightarrow> runtime_usage" where
  "sync_request_accounting sn u =
     u\<lparr>ru_total_requests := max (ru_total_requests u) (as_total_requests sn),
       ru_passive_requests := max (ru_passive_requests u) (as_passive_requests sn),
       ru_active_verifications := max (ru_active_verifications u) (as_active_verifications sn),
       ru_bootstrap_requests := max (ru_bootstrap_requests u) (as_bootstrap_requests sn),
       ru_planned_requests := max (ru_planned_requests u) (as_planned_requests sn),
       ru_adaptive_requests := max (ru_adaptive_requests u) (as_adaptive_requests sn),
       ru_retry_requests := max (ru_retry_requests u) (as_retry_requests sn),
       ru_request_body_bytes := max (ru_request_body_bytes u) (as_request_body_bytes sn),
       ru_response_bytes := max (ru_response_bytes u) (as_response_bytes sn)\<rparr>"

definition record_execution_progress :: "bool \<Rightarrow> runtime_usage \<Rightarrow> runtime_usage" where
  "record_execution_progress progressed u =
     u\<lparr>ru_completed_turns := saturating_add (ru_completed_turns u) 1,
       ru_no_progress_turns := (if progressed then 0 else saturating_add (ru_no_progress_turns u) 1)\<rparr>"

definition set_elapsed :: "nat \<Rightarrow> runtime_usage \<Rightarrow> runtime_usage" where
  "set_elapsed elapsed u = u\<lparr>ru_elapsed_ms := u64_saturating (as_millis elapsed)\<rparr>"

section \<open>Executions\<close>

text \<open>The shared state together with the leases that are alive.\<close>

record accounting_system =
  sys_state :: accounting_state
  sys_leases :: "accounting_lease list"

definition accounting_start :: accounting_system where
  "accounting_start = \<lparr>sys_state = accounting_state_default, sys_leases = []\<rparr>"

inductive accounting_step :: "runtime_budget \<Rightarrow> accounting_system \<Rightarrow> accounting_system \<Rightarrow> bool"
  for budget where
  dispatch: "try_begin budget i stage origin body st = (Ok lease, st') \<Longrightarrow>
    accounting_step budget \<lparr>sys_state = st, sys_leases = ls\<rparr> \<lparr>sys_state = st', sys_leases = lease # ls\<rparr>"
| refuse: "try_begin budget i stage origin body st = (Err e, st') \<Longrightarrow>
    accounting_step budget \<lparr>sys_state = st, sys_leases = ls\<rparr> \<lparr>sys_state = st', sys_leases = ls\<rparr>"
| observe: "observe_response_bytes budget bytes lease st = (retained, lease', st') \<Longrightarrow>
    accounting_step budget \<lparr>sys_state = st, sys_leases = ls @ lease # ms\<rparr>
      \<lparr>sys_state = st', sys_leases = ls @ lease' # ms\<rparr>"
| classify: "accounting_step budget \<lparr>sys_state = st, sys_leases = ls @ lease # ms\<rparr>
      \<lparr>sys_state = st, sys_leases = ls @ lease_finish outcome lease # ms\<rparr>"
| release: "accounting_step budget \<lparr>sys_state = st, sys_leases = ls @ lease # ms\<rparr>
      \<lparr>sys_state = lease_drop elapsed lease st, sys_leases = ls @ ms\<rparr>"

section \<open>Laws\<close>

definition limits_kept :: "runtime_budget \<Rightarrow> accounting_snapshot \<Rightarrow> bool" where
  "limits_kept budget sn \<longleftrightarrow>
     as_total_requests sn \<le> max_total_requests budget
   \<and> as_active_verifications sn \<le> max_active_verifications budget
   \<and> as_request_body_bytes sn \<le> max_request_body_bytes budget
   \<and> unat (as_total_requests sn) = unat (as_passive_requests sn) + unat (as_active_verifications sn)
   \<and> unat (as_bootstrap_requests sn) + unat (as_planned_requests sn) + unat (as_adaptive_requests sn)
       + unat (as_retry_requests sn) \<le> unat (as_passive_requests sn)"

lemma unat_saturating_exact:
  "unat a + unat b < 2 ^ LENGTH('w) \<Longrightarrow> unat (saturating_add a (b :: 'w::len word)) = unat a + unat b"
  by (simp add: unat_saturating_add)

lemma count_next: "unat (a :: 'w::len word) < unat (b :: 'w word) \<Longrightarrow> unat (saturating_add a 1) = unat a + 1"
proof -
  assume "unat a < unat b"
  then have "unat a + 1 < 2 ^ LENGTH('w)" using unat_less_exp [of b] by linarith
  then show ?thesis by (simp add: unat_saturating_exact)
qed

text \<open>A dispatch that passed the limits is recorded exactly: no counter saturates.\<close>

lemma limits_passed:
  assumes "check_request_limits sn budget i stage body = Ok r"
  shows "unat (as_total_requests sn) < unat (max_total_requests budget)"
    and "unat (as_request_body_bytes sn) + unat body \<le> unat (max_request_body_bytes budget)"
    and "stage = Active \<Longrightarrow> unat (as_active_verifications sn) < unat (max_active_verifications budget)"
    and "as_response_bytes sn < max_response_bytes budget"
    and "r = saturating_sub (max_response_bytes budget) (as_response_bytes sn)"
proof -
  from assms obtain n where n: "checked_add (as_request_body_bytes sn) body = Some n" "n \<le> max_request_body_bytes budget"
    by (auto simp: check_request_limits_def not_less split: if_splits option.splits)
  then show "unat (as_request_body_bytes sn) + unat body \<le> unat (max_request_body_bytes budget)"
    by (auto simp: checked_add_Some_iff word_le_nat_alt)
  show "unat (as_total_requests sn) < unat (max_total_requests budget)"
    "as_response_bytes sn < max_response_bytes budget"
    "r = saturating_sub (max_response_bytes budget) (as_response_bytes sn)"
    using assms n by (auto simp: check_request_limits_def not_le word_less_nat_alt split: if_splits)
  show "unat (as_active_verifications sn) < unat (max_active_verifications budget)" if "stage = Active"
    using assms n that by (auto simp: check_request_limits_def not_le word_less_nat_alt split: if_splits)
qed

lemma dispatch_recorded:
  assumes "limits_kept budget sn" and "check_request_limits sn budget i stage body = Ok r"
  shows "unat (as_total_requests (record_dispatch stage origin body sn)) = unat (as_total_requests sn) + 1"
    and "unat (as_request_body_bytes (record_dispatch stage origin body sn)) =
      unat (as_request_body_bytes sn) + unat body"
    and "as_response_bytes (record_dispatch stage origin body sn) = as_response_bytes sn"
    and "limits_kept budget (record_dispatch stage origin body sn)"
proof -
  note passed = limits_passed [OF assms(2)]
  have body: "unat (saturating_add (as_request_body_bytes sn) body) = unat (as_request_body_bytes sn) + unat body"
    using passed(2) unat_less_exp [of "max_request_body_bytes budget"] by (intro unat_saturating_exact) simp
  have below: "unat (as_passive_requests sn) < unat (max_total_requests budget)"
    "unat (as_bootstrap_requests sn) < unat (max_total_requests budget)"
    "unat (as_planned_requests sn) < unat (max_total_requests budget)"
    "unat (as_adaptive_requests sn) < unat (max_total_requests budget)"
    "unat (as_retry_requests sn) < unat (max_total_requests budget)"
    using assms(1) passed(1) by (auto simp: limits_kept_def)
  note counts = count_next [OF passed(1)] below [THEN count_next] count_next [OF passed(3)] body
  show "unat (as_total_requests (record_dispatch stage origin body sn)) = unat (as_total_requests sn) + 1"
    "unat (as_request_body_bytes (record_dispatch stage origin body sn)) = unat (as_request_body_bytes sn) + unat body"
    "as_response_bytes (record_dispatch stage origin body sn) = as_response_bytes sn"
    using counts
    by (auto simp: record_dispatch_def Let_def split: execution_stage.split option.split action_origin.split)
  show "limits_kept budget (record_dispatch stage origin body sn)"
    using counts passed assms(1)
    by (auto simp: record_dispatch_def Let_def limits_kept_def word_le_nat_alt
        split: execution_stage.split option.split action_origin.split)
qed

text \<open>The sequence numbers in use and the bytes charged, over live leases and receipts.\<close>

definition used_sequences :: "accounting_system \<Rightarrow> u64 list" where
  "used_sequences sys = map le_sequence (sys_leases sys) @ map rc_sequence (ac_receipts (sys_state sys))"

definition charged_body :: "accounting_system \<Rightarrow> nat" where
  "charged_body sys = sum_list (map (unat \<circ> le_request_body_bytes) (sys_leases sys))
     + sum_list (map (unat \<circ> rc_request_body_bytes) (ac_receipts (sys_state sys)))"

definition charged_response :: "accounting_system \<Rightarrow> nat" where
  "charged_response sys = sum_list (map (unat \<circ> le_response_bytes) (sys_leases sys))
     + sum_list (map (unat \<circ> rc_response_bytes) (ac_receipts (sys_state sys)))"

definition accounting_inv :: "runtime_budget \<Rightarrow> accounting_system \<Rightarrow> bool" where
  "accounting_inv budget sys \<longleftrightarrow>
     limits_kept budget (ac_snapshot (sys_state sys))
   \<and> unat (ac_next_sequence (sys_state sys)) = unat (as_total_requests (ac_snapshot (sys_state sys)))
   \<and> length (ac_receipts (sys_state sys)) + unat (ac_omitted (sys_state sys)) + length (sys_leases sys) =
       unat (as_total_requests (ac_snapshot (sys_state sys)))
   \<and> length (ac_receipts (sys_state sys)) \<le> HARD_MAX_TRANSPORT_DISPATCH_RECEIPTS
   \<and> (ac_omitted (sys_state sys) \<noteq> 0 \<longrightarrow>
        length (ac_receipts (sys_state sys)) = HARD_MAX_TRANSPORT_DISPATCH_RECEIPTS)
   \<and> distinct (used_sequences sys)
   \<and> (\<forall>q \<in> set (used_sequences sys). q < ac_next_sequence (sys_state sys))
   \<and> (ac_omitted (sys_state sys) = 0 \<longrightarrow>
        unat (as_request_body_bytes (ac_snapshot (sys_state sys))) = charged_body sys
      \<and> unat (as_response_bytes (ac_snapshot (sys_state sys))) = min (charged_response sys) (2 ^ 64 - 1))"

lemmas accounting_simps =
  accounting_inv_def used_sequences_def charged_body_def charged_response_def

lemma accounting_inv_start: "accounting_inv budget accounting_start"
  by (simp add: accounting_simps accounting_start_def accounting_state_default_def
      accounting_snapshot_default_def limits_kept_def)

lemma dispatch_inv:
  assumes "accounting_inv budget \<lparr>sys_state = st, sys_leases = ls\<rparr>"
    and "try_begin budget i stage origin body st = (Ok lease, st')"
  shows "accounting_inv budget \<lparr>sys_state = st', sys_leases = lease # ls\<rparr>"
proof -
  from assms(2) obtain r where check: "check_request_limits (ac_snapshot st) budget i stage body = Ok r"
    and lease: "lease = \<lparr>le_sequence = ac_next_sequence st, le_action_id = i, le_stage = stage,
      le_origin = origin, le_request_body_bytes = body, le_response_bytes = 0, le_budget_reached = False,
      le_outcome = None\<rparr>"
    and st': "st' = st\<lparr>ac_snapshot := record_dispatch stage origin body (ac_snapshot st),
      ac_next_sequence := saturating_add (ac_next_sequence st) 1\<rparr>"
    by (auto simp: try_begin_def split: res.splits)
  have kept: "limits_kept budget (ac_snapshot st)" using assms(1) by (simp add: accounting_inv_def)
  note recorded = dispatch_recorded [OF kept check, of origin]
  have seq: "unat (saturating_add (ac_next_sequence st) 1) = unat (ac_next_sequence st) + 1"
  proof (rule unat_saturating_exact [THEN trans])
    have "unat (ac_next_sequence st) = unat (as_total_requests (ac_snapshot st))"
      using assms(1) by (simp add: accounting_inv_def)
    then show "unat (ac_next_sequence st) + unat (1 :: u64) < 2 ^ LENGTH(64)"
      using unat_less_exp [of "as_total_requests (ac_snapshot st)"] by simp
  qed simp
  then have "ac_next_sequence st < saturating_add (ac_next_sequence st) 1" by (simp add: word_less_nat_alt)
  moreover from this have "q < saturating_add (ac_next_sequence st) 1" if "q < ac_next_sequence st" for q
    using that by (rule order.strict_trans [rotated])
  ultimately show ?thesis
    using assms(1) recorded seq by (auto simp: accounting_simps st' lease)
qed

lemma observe_inv:
  assumes "accounting_inv budget \<lparr>sys_state = st, sys_leases = ls @ lease # ms\<rparr>"
    and "observe_response_bytes budget bytes lease st = (retained, lease', st')"
  shows "accounting_inv budget \<lparr>sys_state = st', sys_leases = ls @ lease' # ms\<rparr>"
proof -
  let ?M = "2 ^ 64 - 1 :: nat"
  define rest where "rest = sum_list (map (unat \<circ> le_response_bytes) (ls @ ms))
    + sum_list (map (unat \<circ> rc_response_bytes) (ac_receipts st))"
  from assms(2) have lease': "lease' = lease\<lparr>le_response_bytes := saturating_add (le_response_bytes lease) bytes,
      le_budget_reached := le_budget_reached lease'\<rparr>"
    and st': "st' = st\<lparr>ac_snapshot := (ac_snapshot st)\<lparr>as_response_bytes :=
      saturating_add (as_response_bytes (ac_snapshot st)) bytes\<rparr>\<rparr>"
    by (auto simp: observe_response_bytes_def Let_def)
  have fields: "le_sequence lease' = le_sequence lease" "le_request_body_bytes lease' = le_request_body_bytes lease"
    "unat (le_response_bytes lease') = min (unat (le_response_bytes lease) + unat bytes) ?M"
    by (subst lease', simp add: unat_saturating_add)+
  have "unat (as_response_bytes (ac_snapshot st')) = min (charged_response \<lparr>sys_state = st', sys_leases = ls @ lease' # ms\<rparr>) ?M"
    if "ac_omitted st = 0"
  proof -
    have "unat (as_response_bytes (ac_snapshot st)) = min (rest + unat (le_response_bytes lease)) ?M"
      using assms(1) that by (simp add: accounting_simps rest_def add_ac)
    then have "unat (as_response_bytes (ac_snapshot st')) = min (min (rest + unat (le_response_bytes lease)) ?M + unat bytes) ?M"
      by (simp add: st' unat_saturating_add)
    also have "\<dots> = min (rest + min (unat (le_response_bytes lease) + unat bytes) ?M) ?M" by linarith
    finally show ?thesis by (simp add: charged_response_def rest_def st' fields(3) add_ac)
  qed
  with assms(1) show ?thesis
    by (auto simp: accounting_inv_def used_sequences_def charged_body_def limits_kept_def fields(1,2) st')
qed

lemma release_inv:
  assumes "accounting_inv budget \<lparr>sys_state = st, sys_leases = ls @ lease # ms\<rparr>"
  shows "accounting_inv budget \<lparr>sys_state = lease_drop elapsed lease st, sys_leases = ls @ ms\<rparr>"
proof (cases "length (ac_receipts st) < HARD_MAX_TRANSPORT_DISPATCH_RECEIPTS")
  case True
  with assms show ?thesis
    by (auto simp: accounting_simps lease_drop_def record_dispatch_receipt_def)
next
  case False
  have "unat (ac_omitted st) < unat (as_total_requests (ac_snapshot st))"
    using assms by (simp add: accounting_inv_def)
  then have "unat (ac_omitted st) + 1 < 2 ^ LENGTH(64)"
    using unat_less_exp [of "as_total_requests (ac_snapshot st)"] by simp
  then have "unat (saturating_add (ac_omitted st) 1) = unat (ac_omitted st) + 1"
    by (intro unat_saturating_exact [THEN trans]) simp_all
  moreover from this have "saturating_add (ac_omitted st) 1 \<noteq> 0" by auto
  ultimately show ?thesis
    using False assms by (auto simp: accounting_simps lease_drop_def record_dispatch_receipt_def)
qed

lemma accounting_step_inv:
  assumes "accounting_step budget sys sys'" and "accounting_inv budget sys"
  shows "accounting_inv budget sys'"
  using assms
proof cases
  case (dispatch i stage origin body st lease st' ls)
  with assms(2) show ?thesis using dispatch_inv by simp
next
  case (refuse i stage origin body st e st' ls)
  then have "st' = st" by (auto simp: try_begin_def split: res.splits)
  with refuse assms(2) show ?thesis by simp
next
  case (observe bytes lease st retained lease' st' ls ms)
  with assms(2) show ?thesis using observe_inv by simp
next
  case (classify st ls lease ms outcome)
  with assms(2) show ?thesis by (simp add: accounting_simps lease_finish_def)
next
  case (release st ls lease ms elapsed)
  with assms(2) show ?thesis using release_inv by simp
qed

text \<open>Counters only grow and receipts are only appended.\<close>

definition snapshot_le :: "accounting_snapshot \<Rightarrow> accounting_snapshot \<Rightarrow> bool" where
  "snapshot_le a b \<longleftrightarrow>
     as_total_requests a \<le> as_total_requests b \<and> as_passive_requests a \<le> as_passive_requests b
   \<and> as_active_verifications a \<le> as_active_verifications b
   \<and> as_bootstrap_requests a \<le> as_bootstrap_requests b \<and> as_planned_requests a \<le> as_planned_requests b
   \<and> as_adaptive_requests a \<le> as_adaptive_requests b \<and> as_retry_requests a \<le> as_retry_requests b
   \<and> as_request_body_bytes a \<le> as_request_body_bytes b \<and> as_response_bytes a \<le> as_response_bytes b"

definition accounting_le :: "accounting_system \<Rightarrow> accounting_system \<Rightarrow> bool" where
  "accounting_le s t \<longleftrightarrow>
     snapshot_le (ac_snapshot (sys_state s)) (ac_snapshot (sys_state t))
   \<and> ac_next_sequence (sys_state s) \<le> ac_next_sequence (sys_state t)
   \<and> ac_omitted (sys_state s) \<le> ac_omitted (sys_state t)
   \<and> (\<exists>rs. ac_receipts (sys_state t) = ac_receipts (sys_state s) @ rs)"

lemma snapshot_le_refl: "snapshot_le a a"
  by (simp add: snapshot_le_def)

lemma snapshot_le_trans: "snapshot_le a b \<Longrightarrow> snapshot_le b c \<Longrightarrow> snapshot_le a c"
  unfolding snapshot_le_def by (meson order_trans)

lemma record_dispatch_le: "snapshot_le sn (record_dispatch stage origin body sn)"
  by (simp add: snapshot_le_def record_dispatch_def Let_def saturating_add_mono
      split: execution_stage.split option.split action_origin.split)

lemma accounting_step_le:
  assumes "accounting_step budget sys sys'"
  shows "accounting_le sys sys'"
  using assms
proof cases
  case (dispatch i stage origin body st lease st' ls)
  then show ?thesis
    by (auto simp: accounting_le_def try_begin_def record_dispatch_le saturating_add_mono split: res.splits)
next
  case (refuse i stage origin body st e st' ls)
  then show ?thesis
    by (auto simp: accounting_le_def try_begin_def snapshot_le_refl split: res.splits)
next
  case (observe bytes lease st retained lease' st' ls ms)
  then show ?thesis
    by (auto simp: accounting_le_def snapshot_le_def observe_response_bytes_def Let_def saturating_add_mono)
next
  case (classify st ls lease ms outcome)
  then show ?thesis by (simp add: accounting_le_def snapshot_le_refl)
next
  case (release st ls lease ms elapsed)
  then show ?thesis
    by (auto simp: accounting_le_def snapshot_le_refl lease_drop_def record_dispatch_receipt_def saturating_add_mono)
qed

interpretation accounting_machine:
  forward_machine "accounting_step budget" "accounting_inv budget" accounting_le for budget
proof unfold_locales
  show "accounting_inv budget t" if "accounting_inv budget s" "accounting_step budget s t" for s t
    using accounting_step_inv that by blast
  show "accounting_le s t" if "accounting_step budget s t" for s t
    using accounting_step_le that by blast
  show "accounting_le s s" for s by (simp add: accounting_le_def snapshot_le_refl)
  show "accounting_le s u" if "accounting_le s t" "accounting_le t u" for s t u
    using that snapshot_le_trans [of "ac_snapshot (sys_state s)"] unfolding accounting_le_def by auto
qed

abbreviation accounting_reachable :: "runtime_budget \<Rightarrow> accounting_system \<Rightarrow> bool" where
  "accounting_reachable budget sys \<equiv> (accounting_step budget)\<^sup>*\<^sup>* accounting_start sys"

lemma reachable_inv: "accounting_reachable budget sys \<Longrightarrow> accounting_inv budget sys"
  using accounting_machine.run_inv accounting_inv_start by blast

section \<open>Properties\<close>


lemma sorted_audit: "sorted_wrt (\<lambda>l r. rc_sequence l \<le> rc_sequence r) (da_receipts (dispatch_audit_of st))"
  unfolding dispatch_audit_of_def by (auto intro!: sorted_sort_by)

lemma sum_list_sort_by:
  "sum_list (map f (sort_by le xs)) = (sum_list (map f xs) :: nat)"
proof -
  have "sum_list (map f (insert_by le x ys)) = f x + sum_list (map f ys)" for x ys
    by (induction ys) auto
  then show ?thesis by (induction xs) auto
qed

text \<open>
  The audit is exact: it lists receipts in strictly increasing dispatch order, never more than
  the hard ceiling; receipts, omitted receipts and live leases add up to the dispatches counted; and
  once every lease is released and nothing was omitted, the request-body bytes of the receipts sum to
  the bytes charged, and their response bytes to the response bytes charged, up to the width.
\<close>

theorem dispatch_audit_exact:
  assumes "accounting_reachable budget sys"
  shows "sorted_wrt (<) (map rc_sequence (da_receipts (dispatch_audit_of (sys_state sys))))
    \<and> set (da_receipts (dispatch_audit_of (sys_state sys))) = set (ac_receipts (sys_state sys))
    \<and> length (da_receipts (dispatch_audit_of (sys_state sys))) \<le> 4096
    \<and> length (da_receipts (dispatch_audit_of (sys_state sys)))
        + unat (da_omitted (dispatch_audit_of (sys_state sys))) + length (sys_leases sys) =
      unat (as_total_requests (ac_snapshot (sys_state sys)))
    \<and> (sys_leases sys = [] \<and> da_omitted (dispatch_audit_of (sys_state sys)) = 0 \<longrightarrow>
        unat (as_request_body_bytes (ac_snapshot (sys_state sys))) =
          sum_list (map (unat \<circ> rc_request_body_bytes) (da_receipts (dispatch_audit_of (sys_state sys))))
      \<and> unat (as_response_bytes (ac_snapshot (sys_state sys))) =
          min (sum_list (map (unat \<circ> rc_response_bytes) (da_receipts (dispatch_audit_of (sys_state sys)))))
            (2 ^ 64 - 1))"
proof -
  note inv = reachable_inv [OF assms]
  have "distinct (map rc_sequence (ac_receipts (sys_state sys)))"
    using inv by (simp add: accounting_simps)
  then have "distinct (map rc_sequence (da_receipts (dispatch_audit_of (sys_state sys))))"
    by (simp add: dispatch_audit_of_def distinct_sort_by)
  moreover have "sorted (map rc_sequence (da_receipts (dispatch_audit_of (sys_state sys))))"
    using sorted_audit [of "sys_state sys"] by (simp add: sorted_wrt_map)
  ultimately have "sorted_wrt (<) (map rc_sequence (da_receipts (dispatch_audit_of (sys_state sys))))"
    by (simp only: strict_sorted_iff)
  then show ?thesis
    using inv
    by (simp add: accounting_simps dispatch_audit_of_def sum_list_sort_by HARD_MAX_TRANSPORT_DISPATCH_RECEIPTS_def)
qed

text \<open>
  Reporting cannot go backwards: whichever snapshots of one broker a usage record merges, in
  whatever order and however stale, once the latest is among them the record shows exactly what it
  would show after merging the latest alone.
\<close>

theorem usage_sync_stale_safe:
  assumes "accounting_reachable budget sys" and "ac_snapshot (sys_state sys) \<in> set sns"
    and "\<forall>sn \<in> set sns. \<exists>old. accounting_reachable budget old
      \<and> (accounting_step budget)\<^sup>*\<^sup>* old sys \<and> sn = ac_snapshot (sys_state old)"
  shows "fold sync_request_accounting sns u = sync_request_accounting (ac_snapshot (sys_state sys)) u"
proof -
  let ?now = "ac_snapshot (sys_state sys)"
  have older: "snapshot_le sn ?now" if "sn \<in> set sns" for sn
  proof -
    from assms(3) that obtain old where "accounting_reachable budget old"
      "(accounting_step budget)\<^sup>*\<^sup>* old sys" "sn = ac_snapshot (sys_state old)" by blast
    then show ?thesis
      using accounting_machine.run_le [OF _ reachable_inv] by (auto simp: accounting_le_def)
  qed
  have absorb: "sync_request_accounting ?now (sync_request_accounting sn u) = sync_request_accounting ?now u"
    "sync_request_accounting sn (sync_request_accounting ?now u) = sync_request_accounting ?now u"
    if "snapshot_le sn ?now" for sn u
    using that by (simp_all add: sync_request_accounting_def snapshot_le_def max.absorb2 max.absorb1 max.assoc
        max.coboundedI2)
  have final: "fold sync_request_accounting sns (sync_request_accounting ?now u) = sync_request_accounting ?now u"
    if "\<forall>sn \<in> set sns. snapshot_le sn ?now" for sns u
    using that by (induction sns) (simp_all add: absorb)
  have "?now \<in> set sns \<Longrightarrow> \<forall>sn \<in> set sns. snapshot_le sn ?now \<Longrightarrow>
      fold sync_request_accounting sns u = sync_request_accounting ?now u" for sns u
  proof (induction sns arbitrary: u)
    case (Cons sn sns)
    then show ?case
    proof (cases "?now \<in> set sns")
      case False
      with Cons.prems have "sn = ?now" by simp
      with final [of sns u] Cons.prems(2) show ?thesis by simp
    qed (simp add: absorb)
  qed simp
  with assms(2) older show ?thesis by blast
qed

text \<open>A run: one passive dispatch that reads five bytes and is dropped unclassified.\<close>

definition sample_budget :: runtime_budget where
  "sample_budget = runtime_budget_new 1 1000 8 0 3 4"

definition sample_lease :: accounting_lease where
  "sample_lease =
     \<lparr>le_sequence = 0, le_action_id = ''a'', le_stage = Passive, le_origin = Some Planned,
      le_request_body_bytes = 3, le_response_bytes = 0, le_budget_reached = False, le_outcome = None\<rparr>"

definition sample_dispatched :: accounting_state where
  "sample_dispatched = snd (try_begin sample_budget ''a'' Passive (Some Planned) 3 accounting_state_default)"

definition sample_released :: accounting_system where
  "sample_released =
     \<lparr>sys_state = lease_drop 0 (fst (snd (observe_response_bytes sample_budget 5 sample_lease sample_dispatched)))
        (snd (snd (observe_response_bytes sample_budget 5 sample_lease sample_dispatched))), sys_leases = []\<rparr>"

lemma sample_released_reachable: "accounting_reachable sample_budget sample_released"
proof -
  let ?o = "observe_response_bytes sample_budget 5 sample_lease sample_dispatched"
  have "try_begin sample_budget ''a'' Passive (Some Planned) 3 accounting_state_default =
      (Ok sample_lease, sample_dispatched)"
    by (simp add: sample_dispatched_def) code_simp
  then have one: "accounting_step sample_budget accounting_start \<lparr>sys_state = sample_dispatched, sys_leases = [sample_lease]\<rparr>"
    unfolding accounting_start_def by (rule accounting_step.dispatch)
  have two: "accounting_step sample_budget \<lparr>sys_state = sample_dispatched, sys_leases = [] @ sample_lease # []\<rparr>
      \<lparr>sys_state = snd (snd ?o), sys_leases = [] @ fst (snd ?o) # []\<rparr>"
    by (rule accounting_step.observe [where retained = "fst ?o" and bytes = 5]) simp
  have three: "accounting_step sample_budget \<lparr>sys_state = snd (snd ?o), sys_leases = [] @ fst (snd ?o) # []\<rparr>
      \<lparr>sys_state = lease_drop 0 (fst (snd ?o)) (snd (snd ?o)), sys_leases = [] @ []\<rparr>"
    by (rule accounting_step.release)
  from one two three show ?thesis
    unfolding sample_released_def append_Nil by (meson rtranclp.rtrancl_into_rtrancl rtranclp.rtrancl_refl)
qed

lemmas sample_run_defs =
  sample_released_def sample_dispatched_def sample_lease_def sample_budget_def runtime_budget_new_def
  try_begin_def check_request_limits_def record_dispatch_def observe_response_bytes_def lease_drop_def
  record_dispatch_receipt_def accounting_state_default_def accounting_snapshot_default_def
  checked_add_def saturating_add_def saturating_sub_def limit_exceeded_new_def
  DEFAULT_MAX_REQUEST_BODY_BYTES_def HARD_MAX_TRANSPORT_DISPATCH_RECEIPTS_def

lemma sample_released_values:
  "as_total_requests (ac_snapshot (sys_state sample_released)) = 1"
  "ac_omitted (sys_state sample_released) = 0" "sys_leases sample_released = []"
  by (simp_all add: sample_run_defs)


definition sample_usage :: runtime_usage where
  "sample_usage =
     \<lparr>ru_total_requests = 0, ru_passive_requests = 0, ru_active_verifications = 0, ru_bootstrap_requests = 0,
      ru_planned_requests = 0, ru_adaptive_requests = 0, ru_retry_requests = 0, ru_request_body_bytes = 0,
      ru_response_bytes = 0, ru_completed_turns = 0, ru_no_progress_turns = 0, ru_attempts = [], ru_elapsed_ms = 0\<rparr>"

end
