(* ===== verification/Outcome.thy ===== *)
theory Outcome
  imports Records
begin

text \<open>
  Verification outcomes (\<open>src/crates/termivar-core/src/outcome.rs\<close>): the stage and status
  vocabulary, the two constructors of an outcome and its wire decoding. An outcome is built by
  \<open>outcome_verified\<close> or \<open>outcome_unknown\<close> only, so every outcome satisfies \<open>outcome_ok\<close>; the
  decoder accepts exactly these records.
\<close>

section \<open>Statuses\<close>

datatype verification_stage = PassiveStage | ActiveStage

fun stage_as_str :: "verification_stage \<Rightarrow> string" where
  "stage_as_str PassiveStage = ''passive''"
| "stage_as_str ActiveStage = ''active''"

datatype outcome_status =
    Success | Blocked | Unknown | FalsePositive | NeedsReview | ConfirmedNegative

definition is_terminal :: "outcome_status \<Rightarrow> bool" where
  "is_terminal s \<longleftrightarrow> s \<in> {Success, Blocked, FalsePositive, ConfirmedNegative}"

fun status_hypothesis_state :: "outcome_status \<Rightarrow> hypothesis_state option" where
  "status_hypothesis_state Success = Some Confirmed"
| "status_hypothesis_state FalsePositive = Some Rejected"
| "status_hypothesis_state ConfirmedNegative = Some Rejected"
| "status_hypothesis_state Blocked = None"
| "status_hypothesis_state Unknown = None"
| "status_hypothesis_state NeedsReview = None"

datatype outcome_error =
    OutcomeEmptyValue string
  | InvalidUnknown
  | ConfirmedNegativeRequiresActive
  | MissingEvidence outcome_status
  | ZeroConfidence outcome_status

type_synonym 'a outcome_res = "('a, outcome_error) res"

definition outcome_non_empty :: "string \<Rightarrow> string \<Rightarrow> string outcome_res" where
  "outcome_non_empty v field = (if blank v then Err (OutcomeEmptyValue field) else Ok v)"

section \<open>Outcomes\<close>

record outcome =
  oc_case_id :: string
  oc_subject :: entity_id
  oc_action_id :: string
  oc_hypothesis_id :: string
  oc_rule_id :: "string option"
  oc_stage :: verification_stage
  oc_status :: outcome_status
  oc_confidence :: probability
  oc_rationale :: string
  oc_evidence_ids :: "evidence_id list"

definition outcome_verified ::
  "string \<Rightarrow> entity_id \<Rightarrow> string \<Rightarrow> string \<Rightarrow> string \<Rightarrow> verification_stage \<Rightarrow> outcome_status \<Rightarrow>
   probability \<Rightarrow> string \<Rightarrow> evidence_id list \<Rightarrow> outcome outcome_res" where
  "outcome_verified case_id subject action_id hypothesis_id verifier_rule_id stage status confidence
     rationale evidence_ids =
     (if status = Unknown then Err InvalidUnknown
      else if status = ConfirmedNegative \<and> stage \<noteq> ActiveStage then Err ConfirmedNegativeRequiresActive
      else if evidence_ids = [] then Err (MissingEvidence status)
      else if confidence = 0 then Err (ZeroConfidence status)
      else
        and_then (outcome_non_empty case_id ''verification case id'') (\<lambda>case_id.
        and_then (outcome_non_empty action_id ''verification action id'') (\<lambda>action_id.
        and_then (outcome_non_empty hypothesis_id ''verification hypothesis id'') (\<lambda>hypothesis_id.
        and_then (outcome_non_empty verifier_rule_id ''verifier rule id'') (\<lambda>verifier_rule_id.
        and_then (outcome_non_empty rationale ''verification rationale'') (\<lambda>rationale.
          Ok \<lparr>oc_case_id = case_id, oc_subject = subject, oc_action_id = action_id,
              oc_hypothesis_id = hypothesis_id, oc_rule_id = Some verifier_rule_id, oc_stage = stage,
              oc_status = status, oc_confidence = confidence, oc_rationale = rationale,
              oc_evidence_ids = evidence_ids\<rparr>))))))"

definition outcome_unknown ::
  "string \<Rightarrow> entity_id \<Rightarrow> string \<Rightarrow> string \<Rightarrow> verification_stage \<Rightarrow> string \<Rightarrow> outcome outcome_res" where
  "outcome_unknown case_id subject action_id hypothesis_id stage rationale =
     and_then (outcome_non_empty case_id ''verification case id'') (\<lambda>case_id.
     and_then (outcome_non_empty action_id ''verification action id'') (\<lambda>action_id.
     and_then (outcome_non_empty hypothesis_id ''verification hypothesis id'') (\<lambda>hypothesis_id.
     and_then (outcome_non_empty rationale ''verification rationale'') (\<lambda>rationale.
       Ok \<lparr>oc_case_id = case_id, oc_subject = subject, oc_action_id = action_id,
           oc_hypothesis_id = hypothesis_id, oc_rule_id = None, oc_stage = stage,
           oc_status = Unknown, oc_confidence = 0, oc_rationale = rationale,
           oc_evidence_ids = []\<rparr>))))"

text \<open>The wire form has the fields of an outcome, not yet validated.\<close>

datatype outcome_wire_error = InvalidOutcome outcome_error | MissingVerifierRule

definition outcome_from_wire :: "outcome \<Rightarrow> (outcome, outcome_wire_error) res" where
  "outcome_from_wire w =
     (if oc_status w = Unknown
      then if oc_rule_id w \<noteq> None \<or> oc_confidence w \<noteq> 0 \<or> oc_evidence_ids w \<noteq> []
           then Err (InvalidOutcome InvalidUnknown)
           else map_err InvalidOutcome
             (outcome_unknown (oc_case_id w) (oc_subject w) (oc_action_id w) (oc_hypothesis_id w)
               (oc_stage w) (oc_rationale w))
      else case oc_rule_id w of
          None \<Rightarrow> Err MissingVerifierRule
        | Some r \<Rightarrow> map_err InvalidOutcome
            (outcome_verified (oc_case_id w) (oc_subject w) (oc_action_id w) (oc_hypothesis_id w) r
              (oc_stage w) (oc_status w) (oc_confidence w) (oc_rationale w) (oc_evidence_ids w)))"

section \<open>Well-formed outcomes\<close>

definition outcome_ok :: "outcome \<Rightarrow> bool" where
  "outcome_ok oc \<longleftrightarrow>
     \<not> blank (oc_case_id oc) \<and> \<not> blank (oc_action_id oc) \<and> \<not> blank (oc_hypothesis_id oc)
   \<and> \<not> blank (oc_rationale oc)
   \<and> (if oc_status oc = Unknown
      then oc_rule_id oc = None \<and> oc_confidence oc = 0 \<and> oc_evidence_ids oc = []
      else (case oc_rule_id oc of None \<Rightarrow> False | Some r \<Rightarrow> \<not> blank r) \<and> oc_confidence oc \<noteq> 0 \<and> oc_evidence_ids oc \<noteq> [])
   \<and> (oc_status oc = ConfirmedNegative \<longrightarrow> oc_stage oc = ActiveStage)"

lemma outcome_non_empty_Ok [res_simps]:
  "outcome_non_empty v f = Ok w \<longleftrightarrow> w = v \<and> \<not> blank v"
  by (auto simp: outcome_non_empty_def)

lemma outcome_non_empty_not_Panic [simp]: "outcome_non_empty v f \<noteq> Panic"
  by (simp add: outcome_non_empty_def)

text \<open>What the two constructors accept, and the record they build.\<close>

lemma outcome_verified_Ok_iff:
  "outcome_verified c s a h r stage status conf why ids = Ok oc \<longleftrightarrow>
     oc = \<lparr>oc_case_id = c, oc_subject = s, oc_action_id = a, oc_hypothesis_id = h, oc_rule_id = Some r,
           oc_stage = stage, oc_status = status, oc_confidence = conf, oc_rationale = why,
           oc_evidence_ids = ids\<rparr> \<and> status \<noteq> Unknown \<and> outcome_ok oc"
  by (auto simp: outcome_verified_def outcome_ok_def res_simps)

lemma outcome_unknown_Ok_iff:
  "outcome_unknown c s a h stage why = Ok oc \<longleftrightarrow>
     oc = \<lparr>oc_case_id = c, oc_subject = s, oc_action_id = a, oc_hypothesis_id = h, oc_rule_id = None,
           oc_stage = stage, oc_status = Unknown, oc_confidence = 0, oc_rationale = why,
           oc_evidence_ids = []\<rparr> \<and> outcome_ok oc"
  by (auto simp: outcome_unknown_def outcome_ok_def res_simps)

lemma outcome_constructors_total [simp]:
  "outcome_verified c s a h r stage status conf why ids \<noteq> Panic"
  "outcome_unknown c s a h stage why \<noteq> Panic"
  by (auto simp: outcome_verified_def outcome_unknown_def res_simps)

lemma outcome_from_wire_Ok_iff: "outcome_from_wire w = Ok oc \<longleftrightarrow> oc = w \<and> outcome_ok w"
proof (cases "oc_status w = Unknown")
  case True
  then show ?thesis
    by (cases w) (auto simp: outcome_from_wire_def res_simps outcome_unknown_Ok_iff outcome_ok_def)
next
  case False
  then show ?thesis
    by (cases w)
      (auto simp: outcome_from_wire_def res_simps outcome_verified_Ok_iff outcome_ok_def split: option.splits)
qed

text \<open>
  Outcome decoding is exact: a document decodes to an outcome if and only if it is that outcome
  and satisfies the contract of the constructors. In particular \<open>Unknown\<close> carries no rule, no
  confidence and no evidence, every other status names its rule and cites evidence with a non-zero
  confidence, and a confirmed negative comes from the active stage. Decoding never panics.
\<close>

theorem outcome_wire_exact:
  "(outcome_from_wire w = Ok oc \<longleftrightarrow> oc = w \<and> outcome_ok w) \<and> outcome_from_wire w \<noteq> Panic"
  by (auto simp: outcome_from_wire_Ok_iff) (auto simp: outcome_from_wire_def res_simps split: if_splits option.splits)

definition sample_outcome :: outcome where
  "sample_outcome =
     \<lparr>oc_case_id = ''c'', oc_subject = ''s'', oc_action_id = ''a'', oc_hypothesis_id = ''h'',
      oc_rule_id = Some ''r'', oc_stage = ActiveStage, oc_status = ConfirmedNegative, oc_confidence = 900000,
      oc_rationale = ''w'', oc_evidence_ids = [''e'']\<rparr>"

lemma sample_outcome_ok: "outcome_ok sample_outcome"
  by code_simp

end
