(* ===== verification/Choice.thy ===== *)
theory Choice
  imports Registry
begin

text \<open>
  The contract of a deterministic winner: candidates are sorted with a total comparator and the first
  one is taken. The providers are the adaptive pipeline and the verifier registries, which rank rule
  identities by priority, then confidence where rules have one, then identity.
\<close>

locale ranked_choice =
  fixes before :: "'a \<Rightarrow> 'a \<Rightarrow> bool"
  assumes before_total: "\<not> before a b \<Longrightarrow> before b a"
    and before_trans: "before a b \<Longrightarrow> before b c \<Longrightarrow> before a c"
    and before_antisym: "before a b \<Longrightarrow> before b a \<Longrightarrow> a = b"
begin

definition is_best :: "'a set \<Rightarrow> 'a \<Rightarrow> bool" where
  "is_best A x \<longleftrightarrow> x \<in> A \<and> (\<forall>y \<in> A. before x y)"

lemma before_refl: "before a a"
  using before_total by blast

lemma best_unique: "is_best A x \<Longrightarrow> is_best A y \<Longrightarrow> x = y"
  by (auto simp: is_best_def intro: before_antisym)

lemma first_best:
  assumes "sort_by before xs = x # rest"
  shows "is_best (set xs) x"
proof -
  have "sorted_wrt before (x # rest)"
    unfolding assms [symmetric] by (rule sorted_sort_by [OF before_total before_trans])
  moreover have "set xs = set (x # rest)"
    unfolding assms [symmetric] by simp
  ultimately show ?thesis using before_refl by (simp add: is_best_def)
qed

lemma first_iff_best: "(\<exists>rest. sort_by before xs = x # rest) \<longleftrightarrow> is_best (set xs) x"
proof
  assume best: "is_best (set xs) x"
  then have "sort_by before xs \<noteq> []" by (metis empty_iff is_best_def list.set(1) set_sort_by)
  then obtain y rest where "sort_by before xs = y # rest" by (meson neq_Nil_conv)
  with best_unique [OF best first_best [OF this]] show "\<exists>rest. sort_by before xs = x # rest" by simp
qed (auto intro: first_best)

lemma none_iff_empty: "sort_by before xs = [] \<longleftrightarrow> xs = []"
  by (metis set_empty set_sort_by)

end

end
