(* ===== verification/Adaptive.thy ===== *)
theory Adaptive
  imports Outcome Expressions Choice
begin

text \<open>
  The adaptive pipeline (\<open>src/crates/termivar-scanner/src/adaptive/pipeline.rs\<close>): outcome selectors,
  directives and rules with their wire guards, the ledger of one session with its checked counters,
  the rule registry and the decision for one outcome. A decision is pure; recording it in the ledger
  is the only state change.
\<close>

section \<open>Selectors and directives\<close>

datatype adaptive_error =
    AdaptiveEmptyValue string
  | EmptyStatuses
  | EmptyStages
  | ZeroRuleApplications string
  | EmptyScheduledAction
  | ZeroThrottleDelay
  | AdaptiveRuleIdentityConflict string
  | AdaptiveSubjectMismatch entity_id entity_id
  | MissingOutcomeEvidence evidence_id
  | AdaptiveMissingContributingEvidence string
  | ZeroTransitions
  | ZeroActionSchedules
  | DecisionSequenceMismatch u32 u32
  | CounterOverflow
  | InvalidLedgerEntry string
  | AdaptiveRule rule_engine_error

type_synonym 'a adaptive_res = "('a, adaptive_error) res"

definition adaptive_non_empty :: "string \<Rightarrow> string \<Rightarrow> string adaptive_res" where
  "adaptive_non_empty v field = (if blank v then Err (AdaptiveEmptyValue field) else Ok v)"

record outcome_selector =
  os_statuses :: "outcome_status set"
  os_stages :: "verification_stage set"

definition outcome_selector_new ::
  "outcome_status set \<Rightarrow> verification_stage set \<Rightarrow> outcome_selector adaptive_res" where
  "outcome_selector_new statuses stages =
     (if statuses = {} then Err EmptyStatuses
      else if stages = {} then Err EmptyStages
      else Ok \<lparr>os_statuses = statuses, os_stages = stages\<rparr>)"

definition any_stage :: "outcome_status set \<Rightarrow> outcome_selector adaptive_res" where
  "any_stage statuses = outcome_selector_new statuses {PassiveStage, ActiveStage}"

definition outcome_selector_matches :: "outcome_selector \<Rightarrow> outcome \<Rightarrow> bool" where
  "outcome_selector_matches sel oc \<longleftrightarrow> oc_status oc \<in> os_statuses sel \<and> oc_stage oc \<in> os_stages sel"

definition outcome_selector_from_wire :: "outcome_selector \<Rightarrow> outcome_selector adaptive_res" where
  "outcome_selector_from_wire w = outcome_selector_new (os_statuses w) (os_stages w)"

datatype pipeline_directive =
    Complete
  | ScheduleAction string
  | Replan bool
  | Throttle u64 bool
  | AwaitActiveVerification
  | AwaitHumanReview
  | Halt

fun directive_validate :: "pipeline_directive \<Rightarrow> unit adaptive_res" where
  "directive_validate (ScheduleAction a) = (if blank a then Err EmptyScheduledAction else Ok ())"
| "directive_validate (Throttle delay_ms retry) = (if delay_ms = 0 then Err ZeroThrottleDelay else Ok ())"
| "directive_validate _ = Ok ()"

definition directive_from_wire :: "pipeline_directive \<Rightarrow> pipeline_directive adaptive_res" where
  "directive_from_wire d = and_then (directive_validate d) (\<lambda>_. Ok d)"

fun scheduled_action_id :: "pipeline_directive \<Rightarrow> string option" where
  "scheduled_action_id (ScheduleAction a) = Some a"
| "scheduled_action_id _ = None"

fun repeated_action_id :: "pipeline_directive \<Rightarrow> string \<Rightarrow> string option" where
  "repeated_action_id (ScheduleAction a) source = Some a"
| "repeated_action_id (Throttle _ True) source = Some source"
| "repeated_action_id _ source = None"

section \<open>Rules\<close>

record adaptation_rule =
  ar_id :: string
  ar_selector :: outcome_selector
  ar_priority :: u16
  ar_condition :: "expression option"
  ar_guard :: bool
  ar_directive :: pipeline_directive
  ar_rationale :: string
  ar_max_applications :: u16

definition adaptation_rule_new ::
  "string \<Rightarrow> outcome_selector \<Rightarrow> u16 \<Rightarrow> expression option \<Rightarrow> pipeline_directive \<Rightarrow> string \<Rightarrow> u16 \<Rightarrow>
   adaptation_rule adaptive_res" where
  "adaptation_rule_new i selector priority condition directive rationale max_applications =
     and_then (adaptive_non_empty i ''adaptation rule id'') (\<lambda>i.
       if max_applications = 0 then Err (ZeroRuleApplications i)
       else and_then (directive_validate directive) (\<lambda>_.
       and_then (adaptive_non_empty rationale ''adaptation rationale'') (\<lambda>rationale.
         Ok \<lparr>ar_id = i, ar_selector = selector, ar_priority = priority, ar_condition = condition,
             ar_guard = (condition \<noteq> None), ar_directive = directive, ar_rationale = rationale,
             ar_max_applications = max_applications\<rparr>)))"

text \<open>The wire form after its fields are decoded; an absent guard is \<open>None\<close>.\<close>

record wire_adaptation_rule =
  war_id :: string
  war_selector :: outcome_selector
  war_priority :: u16
  war_condition :: "expression option"
  war_guard :: "bool option"
  war_directive :: pipeline_directive
  war_rationale :: string
  war_max_applications :: u16

datatype adaptation_wire_error = ConditionGuardInconsistent | InvalidAdaptation adaptive_error

definition adaptation_rule_from_wire ::
  "wire_adaptation_rule \<Rightarrow> (adaptation_rule, adaptation_wire_error) res" where
  "adaptation_rule_from_wire w =
     (if (case war_guard w of None \<Rightarrow> False | Some g \<Rightarrow> \<not> g \<or> war_condition w = None)
      then Err ConditionGuardInconsistent
      else map_err InvalidAdaptation
        (adaptation_rule_new (war_id w) (war_selector w) (war_priority w) (war_condition w)
          (war_directive w) (war_rationale w) (war_max_applications w)))"

definition adaptation_rule_to_wire :: "adaptation_rule \<Rightarrow> wire_adaptation_rule" where
  "adaptation_rule_to_wire r =
     \<lparr>war_id = ar_id r, war_selector = ar_selector r, war_priority = ar_priority r,
      war_condition = ar_condition r, war_guard = (if ar_guard r then Some True else None),
      war_directive = ar_directive r, war_rationale = ar_rationale r,
      war_max_applications = ar_max_applications r\<rparr>"

section \<open>Limits and ledger\<close>

record adaptation_limits =
  al_max_transitions :: u32
  al_max_action_schedules :: u16

definition adaptation_limits_new :: "u32 \<Rightarrow> u16 \<Rightarrow> adaptation_limits adaptive_res" where
  "adaptation_limits_new max_transitions max_action_schedules =
     (if max_transitions = 0 then Err ZeroTransitions
      else if max_action_schedules = 0 then Err ZeroActionSchedules
      else Ok \<lparr>al_max_transitions = max_transitions, al_max_action_schedules = max_action_schedules\<rparr>)"

definition adaptation_limits_default :: adaptation_limits where
  "adaptation_limits_default = \<lparr>al_max_transitions = 64, al_max_action_schedules = 3\<rparr>"

definition adaptation_limits_from_wire :: "adaptation_limits \<Rightarrow> adaptation_limits adaptive_res" where
  "adaptation_limits_from_wire w = adaptation_limits_new (al_max_transitions w) (al_max_action_schedules w)"

type_synonym counters = "(string, u16) bmap"

record adaptation_ledger =
  lg_transitions :: u32
  lg_rule_applications :: counters
  lg_action_schedules :: counters
  lg_suppressed :: "string list"

definition ledger_new :: adaptation_ledger where
  "ledger_new = \<lparr>lg_transitions = 0, lg_rule_applications = [], lg_action_schedules = [], lg_suppressed = []\<rparr>"

definition count_of :: "counters \<Rightarrow> string \<Rightarrow> u16" where
  "count_of m i = (case map_of m i of None \<Rightarrow> 0 | Some n \<Rightarrow> n)"

definition increment :: "string \<Rightarrow> counters \<Rightarrow> counters adaptive_res" where
  "increment i m =
     (case checked_add (count_of m i) 1 of
        None \<Rightarrow> Err CounterOverflow
      | Some next_count \<Rightarrow> Ok (bmap_insert i next_count m))"

section \<open>Decisions\<close>

record adaptation_evaluation =
  ae_rule_id :: string
  ae_selector_matched :: bool
  ae_condition :: "expression_trace option"
  ae_outcome_evidence_matched :: bool
  ae_rule_limit_exhausted :: bool
  ae_action_limit_exhausted :: bool
  ae_policy_suppressed :: bool
  ae_eligible :: bool
  ae_selected :: bool

record adaptive_decision =
  ad_sequence :: u32
  ad_subject :: entity_id
  ad_case_id :: string
  ad_source_action_id :: string
  ad_outcome_status :: outcome_status
  ad_outcome_stage :: verification_stage
  ad_selected_rule_id :: "string option"
  ad_directive :: pipeline_directive
  ad_rationale :: string
  ad_evaluations :: "adaptation_evaluation list"
  ad_transition_limit_reached :: bool

definition ledger_record ::
  "adaptive_decision \<Rightarrow> adaptation_ledger \<Rightarrow> unit adaptive_res \<times> adaptation_ledger" where
  "ledger_record d ledger =
     (if ad_sequence d \<noteq> lg_transitions ledger
      then (Err (DecisionSequenceMismatch (lg_transitions ledger) (ad_sequence d)), ledger)
      else if ad_transition_limit_reached d then (Ok (), ledger)
      else case checked_add (lg_transitions ledger) 1 of
          None \<Rightarrow> (Err CounterOverflow, ledger)
        | Some transitions \<Rightarrow>
            (case and_then
                (case ad_selected_rule_id d of
                   None \<Rightarrow> Ok (lg_rule_applications ledger)
                 | Some r \<Rightarrow> increment r (lg_rule_applications ledger)) (\<lambda>applications.
              and_then
                (case scheduled_action_id (ad_directive d) of
                   None \<Rightarrow> Ok (lg_action_schedules ledger)
                 | Some a \<Rightarrow> increment a (lg_action_schedules ledger)) (\<lambda>schedules.
              Ok \<lparr>lg_transitions = transitions, lg_rule_applications = applications,
                  lg_action_schedules = schedules,
                  lg_suppressed =
                    (if ad_directive d = Replan True
                     then bset_insert (ad_source_action_id d) (lg_suppressed ledger)
                     else lg_suppressed ledger)\<rparr>)) of
               Ok candidate \<Rightarrow> (Ok (), candidate)
             | Err e \<Rightarrow> (Err e, ledger)
             | Panic \<Rightarrow> (Panic, ledger)))"

text \<open>Ledger decoding; the sums are in \<^verbatim>\<open>u64\<close>.\<close>

definition validate_counter_map :: "counters \<Rightarrow> string \<Rightarrow> unit adaptive_res" where
  "validate_counter_map m field =
     (if list_ex (\<lambda>(i, n). blank i \<or> n = 0) m then Err (InvalidLedgerEntry field) else Ok ())"

definition counter_total :: "counters \<Rightarrow> u64" where
  "counter_total m = sum_list (map (\<lambda>(i, n). ucast n) m)"

definition ledger_from_wire :: "adaptation_ledger \<Rightarrow> adaptation_ledger adaptive_res" where
  "ledger_from_wire w =
     and_then (validate_counter_map (lg_rule_applications w) ''rule applications'') (\<lambda>_.
     and_then (validate_counter_map (lg_action_schedules w) ''action schedules'') (\<lambda>_.
       let transitions = (ucast (lg_transitions w) :: u64)
       in if transitions < counter_total (lg_rule_applications w)
             \<or> transitions < counter_total (lg_action_schedules w)
             \<or> transitions < word_of_nat (length (lg_suppressed w))
          then Err (InvalidLedgerEntry ''counters exceed transitions'')
          else if list_ex blank (lg_suppressed w) then Err (InvalidLedgerEntry ''suppressed actions'')
          else Ok w))"

section \<open>The pipeline\<close>

type_synonym adaptive_pipeline = "(string, adaptation_rule) bmap"

datatype adaptive_rule_write = AdaptationInserted | AdaptationUnchanged

definition adaptive_register ::
  "adaptation_rule \<Rightarrow> adaptive_pipeline \<Rightarrow> adaptive_rule_write adaptive_res \<times> adaptive_pipeline" where
  "adaptive_register rule rules =
     (case map_of rules (ar_id rule) of
        Some existing \<Rightarrow>
          if existing = rule then (Ok AdaptationUnchanged, rules)
          else (Err (AdaptiveRuleIdentityConflict (ar_id rule)), rules)
      | None \<Rightarrow> (Ok AdaptationInserted, bmap_insert (ar_id rule) rule rules))"

interpretation adaptation_registry: registry map_of ar_id adaptive_register AdaptationInserted
    AdaptationUnchanged "\<lambda>rule. AdaptiveRuleIdentityConflict (ar_id rule)"
  by unfold_locales (auto simp: adaptive_register_def)

fun adaptive_check_evidence :: "evidence_id list \<Rightarrow> evidence_id set \<Rightarrow> unit adaptive_res" where
  "adaptive_check_evidence [] known = Ok ()"
| "adaptive_check_evidence (i # is) known =
     (if i \<notin> known then Err (MissingOutcomeEvidence i) else adaptive_check_evidence is known)"

definition adaptive_validate_snapshot :: "outcome \<Rightarrow> knowledge_snapshot \<Rightarrow> unit adaptive_res" where
  "adaptive_validate_snapshot oc sn =
     (if oc_subject oc \<noteq> sn_subject sn then Err (AdaptiveSubjectMismatch (oc_subject oc) (sn_subject sn))
      else adaptive_check_evidence (oc_evidence_ids oc) (e_id ` set (sn_evidence sn)))"

definition evaluate_adaptation ::
  "outcome \<Rightarrow> knowledge_snapshot \<Rightarrow> adaptation_ledger \<Rightarrow> adaptation_limits \<Rightarrow> string list \<Rightarrow>
   adaptation_rule \<Rightarrow> adaptation_evaluation adaptive_res" where
  "evaluate_adaptation oc sn ledger limits suppressed rule =
     (let selector_matched = outcome_selector_matches (ar_selector rule) oc
      in and_then
           (case (if selector_matched then ar_condition rule else None) of
              None \<Rightarrow> Ok None
            | Some c \<Rightarrow> and_then (map_err AdaptiveRule (evaluate_node sn c)) (\<lambda>t. Ok (Some t))) (\<lambda>condition.
         if (case condition of None \<Rightarrow> False | Some t \<Rightarrow> tr_matched t \<and> tr_evidence_ids t = [])
         then Err (AdaptiveMissingContributingEvidence (ar_id rule))
         else
           (let condition_matched =
                  (case condition of None \<Rightarrow> ar_condition rule = None | Some t \<Rightarrow> tr_matched t);
                outcome_evidence_matched =
                  (case condition of None \<Rightarrow> True
                   | Some t \<Rightarrow> set (tr_evidence_ids t) \<inter> set (oc_evidence_ids oc) \<noteq> {});
                rule_limit_exhausted =
                  ar_max_applications rule \<le> count_of (lg_rule_applications ledger) (ar_id rule);
                action_limit_exhausted =
                  (case scheduled_action_id (ar_directive rule) of None \<Rightarrow> False
                   | Some a \<Rightarrow> al_max_action_schedules limits \<le> count_of (lg_action_schedules ledger) a);
                policy_suppressed =
                  (case repeated_action_id (ar_directive rule) (oc_action_id oc) of None \<Rightarrow> False
                   | Some a \<Rightarrow> a \<in> set suppressed \<or> a \<in> set (lg_suppressed ledger))
            in Ok \<lparr>ae_rule_id = ar_id rule, ae_selector_matched = selector_matched,
                   ae_condition = condition, ae_outcome_evidence_matched = outcome_evidence_matched,
                   ae_rule_limit_exhausted = rule_limit_exhausted,
                   ae_action_limit_exhausted = action_limit_exhausted,
                   ae_policy_suppressed = policy_suppressed,
                   ae_eligible = (selector_matched \<and> condition_matched \<and> outcome_evidence_matched
                     \<and> \<not> rule_limit_exhausted \<and> \<not> action_limit_exhausted \<and> \<not> policy_suppressed),
                   ae_selected = False\<rparr>)))"

definition adaptation_priority :: "adaptive_pipeline \<Rightarrow> string \<Rightarrow> u16" where
  "adaptation_priority rules i = (case map_of rules i of None \<Rightarrow> 0 | Some r \<Rightarrow> ar_priority r)"

definition adaptation_before :: "adaptive_pipeline \<Rightarrow> string \<Rightarrow> string \<Rightarrow> bool" where
  "adaptation_before rules l r \<longleftrightarrow>
     adaptation_priority rules r < adaptation_priority rules l
   \<or> adaptation_priority rules r = adaptation_priority rules l \<and> l \<le> r"

text \<open>
  The comparator and the final lookup index the rule map with the candidate identities, so the
  selection panics when one of them is not registered.
\<close>

definition select_adaptation ::
  "adaptive_pipeline \<Rightarrow> adaptation_evaluation list \<Rightarrow> string option adaptive_res" where
  "select_adaptation rules evaluations =
     (let candidates = map ae_rule_id (filter ae_eligible evaluations)
      in if \<not> list_all (\<lambda>i. map_of rules i \<noteq> None) candidates then Panic
         else Ok (case sort_by (adaptation_before rules) candidates of [] \<Rightarrow> None | i # _ \<Rightarrow> Some i))"

fun mark_selected :: "string \<Rightarrow> adaptation_evaluation list \<Rightarrow> adaptation_evaluation list" where
  "mark_selected i [] = []"
| "mark_selected i (e # es) = (if ae_rule_id e = i then e\<lparr>ae_selected := True\<rparr> # es else e # mark_selected i es)"

definition adaptive_fallback :: "outcome \<Rightarrow> pipeline_directive \<times> string" where
  "adaptive_fallback oc =
     (case oc_status oc of
        Success \<Rightarrow> (Complete, ''verified objective completed'')
      | FalsePositive \<Rightarrow> (Replan True, ''negative conclusion suppresses the source action before replanning'')
      | ConfirmedNegative \<Rightarrow> (Replan True, ''negative conclusion suppresses the source action before replanning'')
      | Blocked \<Rightarrow> (AwaitHumanReview, ''no eligible automated adaptation policy remains'')
      | _ \<Rightarrow>
          if oc_stage oc = PassiveStage then (AwaitActiveVerification, ''passive evidence is inconclusive'')
          else (AwaitHumanReview, ''no eligible automated adaptation policy remains''))"

definition adaptive_directive ::
  "adaptive_pipeline \<Rightarrow> outcome \<Rightarrow> string option \<Rightarrow> pipeline_directive \<times> string" where
  "adaptive_directive rules oc selected =
     (case selected of
        None \<Rightarrow> adaptive_fallback oc
      | Some i \<Rightarrow> (case map_of rules i of
          None \<Rightarrow> adaptive_fallback oc
        | Some rule \<Rightarrow> (ar_directive rule, ar_rationale rule)))"

definition decide_with_suppressed_actions ::
  "adaptive_pipeline \<Rightarrow> outcome \<Rightarrow> knowledge_snapshot \<Rightarrow> adaptation_ledger \<Rightarrow> adaptation_limits \<Rightarrow>
   string list \<Rightarrow> adaptive_decision adaptive_res" where
  "decide_with_suppressed_actions rules oc sn ledger limits suppressed =
     and_then (adaptive_validate_snapshot oc sn) (\<lambda>_.
       if al_max_transitions limits \<le> lg_transitions ledger
       then Ok \<lparr>ad_sequence = lg_transitions ledger, ad_subject = oc_subject oc, ad_case_id = oc_case_id oc,
                ad_source_action_id = oc_action_id oc, ad_outcome_status = oc_status oc,
                ad_outcome_stage = oc_stage oc, ad_selected_rule_id = None, ad_directive = Halt,
                ad_rationale = ''adaptive transition budget exhausted'', ad_evaluations = [],
                ad_transition_limit_reached = True\<rparr>
       else
         and_then (collect_res (evaluate_adaptation oc sn ledger limits suppressed) (map snd rules)) (\<lambda>evaluations.
         and_then (select_adaptation rules evaluations) (\<lambda>selected.
           (let chosen = adaptive_directive rules oc selected
            in Ok \<lparr>ad_sequence = lg_transitions ledger, ad_subject = oc_subject oc, ad_case_id = oc_case_id oc,
                   ad_source_action_id = oc_action_id oc, ad_outcome_status = oc_status oc,
                   ad_outcome_stage = oc_stage oc, ad_selected_rule_id = selected, ad_directive = fst chosen,
                   ad_rationale = snd chosen,
                   ad_evaluations = (case selected of None \<Rightarrow> evaluations | Some i \<Rightarrow> mark_selected i evaluations),
                   ad_transition_limit_reached = False\<rparr>))))"

definition adaptive_decide ::
  "adaptive_pipeline \<Rightarrow> outcome \<Rightarrow> knowledge_snapshot \<Rightarrow> adaptation_ledger \<Rightarrow> adaptation_limits \<Rightarrow>
   adaptive_decision adaptive_res" where
  "adaptive_decide rules oc sn ledger limits = decide_with_suppressed_actions rules oc sn ledger limits []"

definition decide_and_record_with_suppressed_actions ::
  "adaptive_pipeline \<Rightarrow> outcome \<Rightarrow> knowledge_snapshot \<Rightarrow> adaptation_ledger \<Rightarrow> adaptation_limits \<Rightarrow>
   string list \<Rightarrow> adaptive_decision adaptive_res \<times> adaptation_ledger" where
  "decide_and_record_with_suppressed_actions rules oc sn ledger limits suppressed =
     (case decide_with_suppressed_actions rules oc sn ledger limits suppressed of
        Err e \<Rightarrow> (Err e, ledger)
      | Panic \<Rightarrow> (Panic, ledger)
      | Ok d \<Rightarrow>
          (case ledger_record d ledger of
             (Ok _, ledger') \<Rightarrow> (Ok d, ledger')
           | (Err e, ledger') \<Rightarrow> (Err e, ledger')
           | (Panic, ledger') \<Rightarrow> (Panic, ledger')))"

definition decide_and_record ::
  "adaptive_pipeline \<Rightarrow> outcome \<Rightarrow> knowledge_snapshot \<Rightarrow> adaptation_ledger \<Rightarrow> adaptation_limits \<Rightarrow>
   adaptive_decision adaptive_res \<times> adaptation_ledger" where
  "decide_and_record rules oc sn ledger limits =
     decide_and_record_with_suppressed_actions rules oc sn ledger limits []"

section \<open>Standard policies\<close>

definition RESPONSE_STATUS :: knowledge_predicate where
  "RESPONSE_STATUS = \<lparr>kp_namespace = ''http.response'', kp_name = ''status''\<rparr>"

definition status_policy ::
  "string \<Rightarrow> outcome_selector \<Rightarrow> u16 \<Rightarrow> u64 \<Rightarrow> pipeline_directive \<Rightarrow> string \<Rightarrow> u16 \<Rightarrow> adaptation_rule adaptive_res" where
  "status_policy i selector priority status directive rationale max_applications =
     adaptation_rule_new i selector priority
       (Some (expression_equals EvidenceLayer RESPONSE_STATUS (Unsigned status))) directive rationale max_applications"

definition register_new ::
  "adaptation_rule adaptive_res \<Rightarrow> adaptive_pipeline \<Rightarrow> adaptive_pipeline adaptive_res" where
  "register_new rule rules =
     and_then rule (\<lambda>r. case adaptive_register r rules of (w, rules') \<Rightarrow> and_then w (\<lambda>_. Ok rules'))"

definition with_standard_policies :: "adaptive_pipeline adaptive_res" where
  "with_standard_policies =
     and_then (any_stage {Blocked, Unknown, NeedsReview}) (\<lambda>unresolved.
     and_then (register_new (status_policy ''http.429.throttle'' unresolved 300 429 (Throttle 2000 True)
         ''rate limiting requires backpressure before retry'' 3) []) (\<lambda>p.
     and_then (register_new (status_policy ''http.403.bypass'' unresolved 200 403 (ScheduleAction ''http.403-bypass'')
         ''access control response requires a dedicated bypass action'' 2) p) (\<lambda>p.
     register_new (status_policy ''http.404.enumerate'' unresolved 100 404 (ScheduleAction ''http.enumeration'')
         ''missing resource response redirects discovery to enumeration'' 1) p)))"

interpretation adaptation_choice: ranked_choice "adaptation_before rules" for rules
  by unfold_locales (auto simp: adaptation_before_def)

end
