(* ===== verification/Verification.thy ===== *)
theory Verification
  imports Outcome Expressions Choice Payload
begin

text \<open>
  Passive and active verification (\<open>src/crates/termivar-scanner/src/verification.rs\<close>): cases and
  rules with their wire guards, the rule registry of a stage, the evaluation of a registry on a
  snapshot with its winner, the passive-to-active pipeline, and the application of a report to the
  knowledge base under its commit token. Where the source reads the shared knowledge base several
  times, \<open>gap n\<close> is what other threads write before read \<open>n\<close>, and the last gap precedes the
  transition itself.
\<close>

section \<open>Cases\<close>

datatype verification_error =
    VerificationEmptyValue string
  | ReservedUnknownStatus string
  | RuleZeroConfidence string
  | RuleConfirmedNegativeRequiresActive string
  | CaseCorrelationRequiresEvidenceOnly string
  | WrongStage string verification_stage verification_stage
  | VerifierIdentityConflict string
  | SnapshotSubjectMismatch entity_id entity_id
  | UnknownHypothesis string
  | MissingContributingEvidence string
  | NonMonotonicSnapshot evidence_id
  | UnknownEvidence evidence_id
  | EvidenceSubjectMismatch evidence_id entity_id
  | ConflictingTerminalState string hypothesis_state hypothesis_state
  | VerificationRuleError rule_engine_error
  | VerificationOutcome outcome_error
  | VerificationKnowledge knowledge_base_error

type_synonym 'a verification_res = "('a, verification_error) res"

definition verification_non_empty :: "string \<Rightarrow> string \<Rightarrow> string verification_res" where
  "verification_non_empty v field = (if blank v then Err (VerificationEmptyValue field) else Ok v)"

record verification_case =
  vc_id :: string
  vc_subject :: entity_id
  vc_action_id :: string
  vc_hypothesis_id :: string
  vc_payload :: "payload_strategy_ref option"
  vc_applies :: bool
  vc_guard :: bool

definition verification_case_new ::
  "string \<Rightarrow> entity_id \<Rightarrow> string \<Rightarrow> string \<Rightarrow> verification_case verification_res" where
  "verification_case_new i subject action_id hypothesis_id =
     and_then (verification_non_empty i ''verification case id'') (\<lambda>i.
     and_then (verification_non_empty action_id ''verification action id'') (\<lambda>action_id.
     and_then (verification_non_empty hypothesis_id ''verification hypothesis id'') (\<lambda>hypothesis_id.
       Ok \<lparr>vc_id = i, vc_subject = subject, vc_action_id = action_id, vc_hypothesis_id = hypothesis_id,
           vc_payload = None, vc_applies = True, vc_guard = False\<rparr>)))"

definition case_with_payload_strategy ::
  "payload_strategy_ref option \<Rightarrow> verification_case \<Rightarrow> verification_case" where
  "case_with_payload_strategy strategy c = c\<lparr>vc_payload := strategy\<rparr>"

definition without_hypothesis_transition :: "verification_case \<Rightarrow> verification_case" where
  "without_hypothesis_transition c = c\<lparr>vc_applies := False, vc_guard := True\<rparr>"

text \<open>The wire form of a case; absent optional fields are \<open>None\<close>, unknown fields are named.\<close>

record wire_case =
  wv_id :: string
  wv_subject :: entity_id
  wv_action_id :: string
  wv_hypothesis_id :: string
  wv_payload :: "payload_strategy_ref option"
  wv_applies :: "bool option"
  wv_guard :: "bool option"
  wv_extensions :: "string list"

datatype case_wire_error = ReservedCaseField | CaseGuardInconsistent | InvalidCase verification_error

definition default_applies_transition :: bool where
  "default_applies_transition = True"

definition case_from_wire :: "wire_case \<Rightarrow> (verification_case, case_wire_error) res" where
  "case_from_wire w =
     (let applies = (case wv_applies w of None \<Rightarrow> default_applies_transition | Some b \<Rightarrow> b);
          guard = (case wv_guard w of None \<Rightarrow> False | Some b \<Rightarrow> b)
      in if list_ex (\<lambda>f. starts_with f ''payload_'' \<or> starts_with f ''applies_hypothesis_''
              \<or> starts_with f ''verification_'') (wv_extensions w)
         then Err ReservedCaseField
         else if guard = applies then Err CaseGuardInconsistent
         else and_then (map_err InvalidCase
             (verification_case_new (wv_id w) (wv_subject w) (wv_action_id w) (wv_hypothesis_id w))) (\<lambda>c.
           let c = case_with_payload_strategy (wv_payload w) c
           in Ok (if applies then c else without_hypothesis_transition c)))"

text \<open>Serialisation leaves out an absent strategy, a default transition policy and a false guard.\<close>

definition case_to_wire :: "verification_case \<Rightarrow> wire_case" where
  "case_to_wire c =
     \<lparr>wv_id = vc_id c, wv_subject = vc_subject c, wv_action_id = vc_action_id c,
      wv_hypothesis_id = vc_hypothesis_id c, wv_payload = vc_payload c,
      wv_applies = (if vc_applies c then None else Some False),
      wv_guard = (if vc_guard c then Some True else None), wv_extensions = []\<rparr>"

section \<open>Rules\<close>

datatype scope_guard = ActionScope | CaseScope | ActionAndCaseScope

definition scope_guard_for :: "string option \<Rightarrow> bool \<Rightarrow> scope_guard option" where
  "scope_guard_for action_id case_correlated =
     (case (action_id \<noteq> None, case_correlated) of
        (True, False) \<Rightarrow> Some ActionScope
      | (False, True) \<Rightarrow> Some CaseScope
      | (True, True) \<Rightarrow> Some ActionAndCaseScope
      | (False, False) \<Rightarrow> None)"

record verification_rule =
  vr_id :: string
  vr_stage :: verification_stage
  vr_priority :: u16
  vr_condition :: expression
  vr_outcome :: outcome_status
  vr_confidence :: probability
  vr_rationale :: string
  vr_action_id :: "string option"
  vr_case_correlated :: bool
  vr_scope_guard :: "scope_guard option"

definition verification_rule_new ::
  "string \<Rightarrow> verification_stage \<Rightarrow> u16 \<Rightarrow> expression \<Rightarrow> outcome_status \<Rightarrow> probability \<Rightarrow> string \<Rightarrow>
   verification_rule verification_res" where
  "verification_rule_new i stage priority condition status confidence rationale =
     and_then (verification_non_empty i ''verification rule id'') (\<lambda>i.
       if status = Unknown then Err (ReservedUnknownStatus i)
       else if status = ConfirmedNegative \<and> stage \<noteq> ActiveStage
       then Err (RuleConfirmedNegativeRequiresActive i)
       else if confidence = 0 then Err (RuleZeroConfidence i)
       else and_then (verification_non_empty rationale ''verification rule rationale'') (\<lambda>rationale.
         Ok \<lparr>vr_id = i, vr_stage = stage, vr_priority = priority, vr_condition = condition,
             vr_outcome = status, vr_confidence = confidence, vr_rationale = rationale,
             vr_action_id = None, vr_case_correlated = False, vr_scope_guard = None\<rparr>))"

definition refresh_scope_guard :: "verification_rule \<Rightarrow> verification_rule" where
  "refresh_scope_guard r = r\<lparr>vr_scope_guard := scope_guard_for (vr_action_id r) (vr_case_correlated r)\<rparr>"

definition scoped_to_action :: "string \<Rightarrow> verification_rule \<Rightarrow> verification_rule verification_res" where
  "scoped_to_action action_id r =
     and_then (verification_non_empty action_id ''verification rule action id'') (\<lambda>a.
       Ok (refresh_scope_guard (r\<lparr>vr_action_id := Some a\<rparr>)))"

definition with_case_correlated_evidence :: "verification_rule \<Rightarrow> verification_rule verification_res" where
  "with_case_correlated_evidence r =
     (if \<not> uses_only_evidence (vr_condition r) then Err (CaseCorrelationRequiresEvidenceOnly (vr_id r))
      else Ok (refresh_scope_guard (r\<lparr>vr_case_correlated := True\<rparr>)))"

datatype verifier_wire_error = ScopeGuardInconsistent | InvalidVerifier verification_error

text \<open>The wire form of a rule has its fields; an absent field has its default.\<close>

definition verification_rule_from_wire ::
  "verification_rule \<Rightarrow> (verification_rule, verifier_wire_error) res" where
  "verification_rule_from_wire w =
     (if vr_scope_guard w \<noteq> None \<and> vr_scope_guard w \<noteq> scope_guard_for (vr_action_id w) (vr_case_correlated w)
      then Err ScopeGuardInconsistent
      else map_err InvalidVerifier
        (and_then (verification_rule_new (vr_id w) (vr_stage w) (vr_priority w) (vr_condition w) (vr_outcome w)
            (vr_confidence w) (vr_rationale w)) (\<lambda>r.
         and_then (case vr_action_id w of None \<Rightarrow> Ok r | Some a \<Rightarrow> scoped_to_action a r) (\<lambda>r.
           if vr_case_correlated w then with_case_correlated_evidence r else Ok r))))"

section \<open>Registries\<close>

record rule_registry =
  rg_stage :: verification_stage
  rg_rules :: "(string, verification_rule) bmap"

definition rule_registry_new :: "verification_stage \<Rightarrow> rule_registry" where
  "rule_registry_new stage = \<lparr>rg_stage = stage, rg_rules = []\<rparr>"

datatype verifier_write = VerifierInserted | VerifierUnchanged

definition verifier_register ::
  "verification_rule \<Rightarrow> rule_registry \<Rightarrow> verifier_write verification_res \<times> rule_registry" where
  "verifier_register rule rg =
     (if vr_stage rule \<noteq> rg_stage rg then (Err (WrongStage (vr_id rule) (rg_stage rg) (vr_stage rule)), rg)
      else case map_of (rg_rules rg) (vr_id rule) of
          Some existing \<Rightarrow>
            if existing = rule then (Ok VerifierUnchanged, rg)
            else (Err (VerifierIdentityConflict (vr_id rule)), rg)
        | None \<Rightarrow> (Ok VerifierInserted, rg\<lparr>rg_rules := bmap_insert (vr_id rule) rule (rg_rules rg)\<rparr>))"

section \<open>Evaluation\<close>

record verification_evaluation =
  ve_rule_id :: string
  ve_stage :: verification_stage
  ve_priority :: u16
  ve_condition :: expression_trace
  ve_fresh_evidence_ids :: "evidence_id list"
  ve_action_matched :: bool
  ve_eligible :: bool
  ve_selected :: bool

record commit_token =
  ct_authority :: knowledge_authority
  ct_subject_revision :: u64
  ct_ontology_revision :: u64

record verification_report =
  vp_case :: verification_case
  vp_stage :: verification_stage
  vp_outcome :: outcome
  vp_evaluations :: "verification_evaluation list"
  vp_token :: commit_token

definition verification_validate_snapshot ::
  "verification_case \<Rightarrow> knowledge_snapshot \<Rightarrow> unit verification_res" where
  "verification_validate_snapshot c sn =
     (if sn_subject sn \<noteq> vc_subject c then Err (SnapshotSubjectMismatch (vc_subject c) (sn_subject sn))
      else if \<not> list_ex (\<lambda>h. h_id h = vc_hypothesis_id c) (sn_hypotheses sn)
      then Err (UnknownHypothesis (vc_hypothesis_id c))
      else Ok ())"

fun check_baseline :: "evidence list \<Rightarrow> evidence_id set \<Rightarrow> unit verification_res" where
  "check_baseline [] after_ids = Ok ()"
| "check_baseline (e # es) after_ids =
     (if e_id e \<notin> after_ids then Err (NonMonotonicSnapshot (e_id e)) else check_baseline es after_ids)"

definition validate_monotonic :: "knowledge_snapshot \<Rightarrow> knowledge_snapshot \<Rightarrow> unit verification_res" where
  "validate_monotonic baseline after_probe =
     (if sn_authority baseline \<noteq> sn_authority after_probe
      then Err (VerificationKnowledge (SnapshotAuthorityMismatch (sn_subject after_probe)))
      else check_baseline (sn_evidence baseline) (e_id ` set (sn_evidence after_probe)))"

definition evaluate_verifier ::
  "verification_stage \<Rightarrow> verification_case \<Rightarrow> knowledge_snapshot \<Rightarrow> evidence_id set \<Rightarrow> verification_rule \<Rightarrow>
   verification_evaluation verification_res" where
  "evaluate_verifier stage c sn baseline_ids rule =
     (let scoped = (if vr_case_correlated rule then with_evidence_correlation sn (vc_id c) else sn)
      in and_then (map_err VerificationRuleError (evaluate_node scoped (vr_condition rule))) (\<lambda>condition.
        if tr_matched condition \<and> tr_evidence_ids condition = []
        then Err (MissingContributingEvidence (vr_id rule))
        else
          (let fresh = filter (\<lambda>i. i \<notin> baseline_ids) (tr_evidence_ids condition);
               action_matched = (case vr_action_id rule of None \<Rightarrow> True | Some a \<Rightarrow> a = vc_action_id c)
           in Ok \<lparr>ve_rule_id = vr_id rule, ve_stage = vr_stage rule, ve_priority = vr_priority rule,
                  ve_condition = condition, ve_fresh_evidence_ids = fresh, ve_action_matched = action_matched,
                  ve_eligible = (action_matched \<and> tr_matched condition \<and> (stage = PassiveStage \<or> fresh \<noteq> [])),
                  ve_selected = False\<rparr>)))"

definition verifier_rank :: "(string, verification_rule) bmap \<Rightarrow> string \<Rightarrow> u16 \<times> probability" where
  "verifier_rank rules i =
     (case map_of rules i of None \<Rightarrow> (0, 0) | Some r \<Rightarrow> (vr_priority r, vr_confidence r))"

definition verifier_before :: "(string, verification_rule) bmap \<Rightarrow> string \<Rightarrow> string \<Rightarrow> bool" where
  "verifier_before rules l r \<longleftrightarrow>
     (let pl = fst (verifier_rank rules l); pr = fst (verifier_rank rules r);
          cl = snd (verifier_rank rules l); cr = snd (verifier_rank rules r)
      in pr < pl \<or> pr = pl \<and> (cr < cl \<or> cr = cl \<and> l \<le> r))"

text \<open>As in the adaptive pipeline, an unregistered candidate would panic in the rule map.\<close>

definition select_verifier ::
  "(string, verification_rule) bmap \<Rightarrow> verification_evaluation list \<Rightarrow> string option verification_res" where
  "select_verifier rules evaluations =
     (let candidates = map ve_rule_id (filter ve_eligible evaluations)
      in if \<not> list_all (\<lambda>i. map_of rules i \<noteq> None) candidates then Panic
         else Ok (case sort_by (verifier_before rules) candidates of [] \<Rightarrow> None | i # _ \<Rightarrow> Some i))"

fun mark_verifier :: "string \<Rightarrow> verification_evaluation list \<Rightarrow> verification_evaluation list" where
  "mark_verifier i [] = []"
| "mark_verifier i (e # es) = (if ve_rule_id e = i then e\<lparr>ve_selected := True\<rparr> # es else e # mark_verifier i es)"

definition selected_evidence :: "string \<Rightarrow> verification_evaluation list \<Rightarrow> evidence_id list" where
  "selected_evidence i evaluations =
     (case find (\<lambda>e. ve_rule_id e = i) evaluations of None \<Rightarrow> [] | Some e \<Rightarrow> tr_evidence_ids (ve_condition e))"

definition no_rule_rationale :: "verification_stage \<Rightarrow> string" where
  "no_rule_rationale stage =
     ''no eligible '' @ stage_as_str stage @ '' verification rule matched current evidence''"

definition conclude_outcome ::
  "rule_registry \<Rightarrow> verification_case \<Rightarrow> verification_evaluation list \<Rightarrow> string option \<Rightarrow> outcome verification_res" where
  "conclude_outcome rg c evaluations selected =
     map_err VerificationOutcome
       (case selected of
          None \<Rightarrow> outcome_unknown (vc_id c) (vc_subject c) (vc_action_id c) (vc_hypothesis_id c)
            (rg_stage rg) (no_rule_rationale (rg_stage rg))
        | Some i \<Rightarrow>
            (case map_of (rg_rules rg) i of
               None \<Rightarrow> Panic
             | Some rule \<Rightarrow>
                 outcome_verified (vc_id c) (vc_subject c) (vc_action_id c) (vc_hypothesis_id c) (vr_id rule)
                   (rg_stage rg) (vr_outcome rule) (vr_confidence rule) (vr_rationale rule)
                   (selected_evidence i evaluations)))"

definition evaluate_registry ::
  "rule_registry \<Rightarrow> verification_case \<Rightarrow> knowledge_snapshot \<Rightarrow> knowledge_snapshot option \<Rightarrow>
   verification_report verification_res" where
  "evaluate_registry rg c sn baseline =
     and_then (verification_validate_snapshot c sn) (\<lambda>_.
       let baseline_ids = (case baseline of None \<Rightarrow> {} | Some b \<Rightarrow> e_id ` set (sn_evidence b))
       in and_then (collect_res (evaluate_verifier (rg_stage rg) c sn baseline_ids) (map snd (rg_rules rg))) (\<lambda>evaluations.
          and_then (select_verifier (rg_rules rg) evaluations) (\<lambda>selected.
          and_then (conclude_outcome rg c evaluations selected) (\<lambda>oc.
            Ok \<lparr>vp_case = c, vp_stage = rg_stage rg, vp_outcome = oc,
                vp_evaluations = (case selected of None \<Rightarrow> evaluations | Some i \<Rightarrow> mark_verifier i evaluations),
                vp_token = \<lparr>ct_authority = sn_authority sn, ct_subject_revision = sn_subject_revision sn,
                            ct_ontology_revision = sn_ontology_revision sn\<rparr>\<rparr>))))"

section \<open>Verifiers and the pipeline\<close>

definition passive_verify_snapshot ::
  "rule_registry \<Rightarrow> verification_case \<Rightarrow> knowledge_snapshot \<Rightarrow> verification_report verification_res" where
  "passive_verify_snapshot rg c sn = evaluate_registry rg c sn None"

definition passive_verify ::
  "rule_registry \<Rightarrow> knowledge_base \<Rightarrow> verification_case \<Rightarrow> verification_report verification_res" where
  "passive_verify rg kb c = passive_verify_snapshot rg c (snapshot_for_subject kb (vc_subject c))"

definition active_verify_snapshots ::
  "rule_registry \<Rightarrow> verification_case \<Rightarrow> knowledge_snapshot \<Rightarrow> knowledge_snapshot \<Rightarrow>
   verification_report verification_res" where
  "active_verify_snapshots rg c baseline after_probe =
     and_then (verification_validate_snapshot c baseline) (\<lambda>_.
     and_then (validate_monotonic baseline after_probe) (\<lambda>_.
       evaluate_registry rg c after_probe (Some baseline)))"

record verification_pipeline =
  vl_passive :: rule_registry
  vl_active :: rule_registry

definition verification_pipeline_default :: verification_pipeline where
  "verification_pipeline_default =
     \<lparr>vl_passive = rule_registry_new PassiveStage, vl_active = rule_registry_new ActiveStage\<rparr>"

record pipeline_report =
  pr_passive :: verification_report
  pr_active :: "verification_report option"

definition pipeline_verify_snapshots ::
  "verification_pipeline \<Rightarrow> verification_case \<Rightarrow> knowledge_snapshot \<Rightarrow> knowledge_snapshot option \<Rightarrow>
   pipeline_report verification_res" where
  "pipeline_verify_snapshots vl c passive_snapshot active_snapshot =
     and_then (passive_verify_snapshot (vl_passive vl) c passive_snapshot) (\<lambda>first.
     and_then
       (if is_terminal (oc_status (vp_outcome first)) then Ok None
        else case active_snapshot of
            None \<Rightarrow> Ok None
          | Some sn \<Rightarrow> and_then (active_verify_snapshots (vl_active vl) c passive_snapshot sn) (\<lambda>r. Ok (Some r)))
       (\<lambda>second. Ok \<lparr>pr_passive = first, pr_active = second\<rparr>))"

definition final_outcome :: "pipeline_report \<Rightarrow> outcome" where
  "final_outcome r = (case pr_active r of None \<Rightarrow> vp_outcome (pr_passive r) | Some a \<Rightarrow> vp_outcome a)"

definition requires_active :: "pipeline_report \<Rightarrow> bool" where
  "requires_active r \<longleftrightarrow> \<not> is_terminal (oc_status (vp_outcome (pr_passive r))) \<and> pr_active r = None"

section \<open>Application\<close>

definition validate_commit_token ::
  "knowledge_base \<Rightarrow> entity_id \<Rightarrow> commit_token \<Rightarrow> unit verification_res" where
  "validate_commit_token kb subject token =
     map_err VerificationKnowledge
       (and_then (validate_snapshot_authority kb (ct_authority token) subject) (\<lambda>_.
         validate_snapshot_revisions kb subject (ct_subject_revision token) (ct_ontology_revision token)))"

fun check_outcome_evidence ::
  "(nat \<Rightarrow> knowledge_state \<Rightarrow> knowledge_state) \<Rightarrow> nat \<Rightarrow> entity_id \<Rightarrow> evidence_id list \<Rightarrow> knowledge_state \<Rightarrow>
   unit verification_res \<times> knowledge_state" where
  "check_outcome_evidence gap n subject [] st = (Ok (), st)"
| "check_outcome_evidence gap n subject (i # is) st =
     (let st' = gap n st
      in case ks_evidence st' i of
           None \<Rightarrow> (Err (UnknownEvidence i), st')
         | Some e \<Rightarrow>
             if e_subject e \<noteq> subject then (Err (EvidenceSubjectMismatch i subject), st')
             else check_outcome_evidence gap (Suc n) subject is st')"

fun conclude_transition ::
  "outcome \<Rightarrow> hypothesis_state_transition kb_res \<Rightarrow> knowledge_write option verification_res" where
  "conclude_transition oc (Ok TransitionMissing) = Err (UnknownHypothesis (oc_hypothesis_id oc))"
| "conclude_transition oc (Ok (TransitionSubjectMismatch actual)) =
     Err (SnapshotSubjectMismatch (oc_subject oc) actual)"
| "conclude_transition oc (Ok (TransitionStaleSnapshot e)) = Err (VerificationKnowledge e)"
| "conclude_transition oc (Ok (TerminalConflict current attempted)) =
     Err (ConflictingTerminalState (oc_hypothesis_id oc) current attempted)"
| "conclude_transition oc (Ok (Written w)) = Ok (Some w)"
| "conclude_transition oc (Err e) = Err (VerificationKnowledge e)"
| "conclude_transition oc Panic = Panic"

definition apply_outcome_with_token ::
  "(nat \<Rightarrow> knowledge_state \<Rightarrow> knowledge_state) \<Rightarrow> u64 \<Rightarrow> knowledge_authority \<Rightarrow> outcome \<Rightarrow> commit_token option \<Rightarrow>
   knowledge_state \<Rightarrow> knowledge_write option verification_res \<times> knowledge_state" where
  "apply_outcome_with_token gap now auth oc token st =
     (case status_hypothesis_state (oc_status oc) of
        None \<Rightarrow>
          (case token of
             None \<Rightarrow> (Ok None, st)
           | Some t \<Rightarrow>
               (let st' = gap 0 st
                in (and_then (validate_commit_token \<lparr>kb_authority = auth, kb_state = st'\<rparr> (oc_subject oc) t)
                      (\<lambda>_. Ok None), st')))
      | Some state \<Rightarrow>
          (case (case token of
                   None \<Rightarrow> Ok ()
                 | Some t \<Rightarrow> validate_snapshot_authority \<lparr>kb_authority = auth, kb_state = st\<rparr>
                     (ct_authority t) (oc_subject oc)) of
             Err e \<Rightarrow> (Err (VerificationKnowledge e), st)
           | Panic \<Rightarrow> (Panic, st)
           | Ok _ \<Rightarrow>
               (let st1 = gap 0 st
                in case ks_hypotheses st1 (oc_hypothesis_id oc) of
                     None \<Rightarrow> (Err (UnknownHypothesis (oc_hypothesis_id oc)), st1)
                   | Some h \<Rightarrow>
                       if h_subject h \<noteq> oc_subject oc
                       then (Err (SnapshotSubjectMismatch (oc_subject oc) (h_subject h)), st1)
                       else
                         (case check_outcome_evidence gap 1 (oc_subject oc) (oc_evidence_ids oc) st1 of
                            (Err e, st2) \<Rightarrow> (Err e, st2)
                          | (Panic, st2) \<Rightarrow> (Panic, st2)
                          | (Ok _, st2) \<Rightarrow>
                              (case transition_hypothesis_state now (oc_hypothesis_id oc) (oc_subject oc) state
                                  (map_option (\<lambda>t. (ct_subject_revision t, ct_ontology_revision t)) token)
                                  (gap (Suc (length (oc_evidence_ids oc))) st2) of
                                 (r, st3) \<Rightarrow> (conclude_transition oc r, st3))))))"

definition apply_outcome ::
  "(nat \<Rightarrow> knowledge_state \<Rightarrow> knowledge_state) \<Rightarrow> u64 \<Rightarrow> knowledge_authority \<Rightarrow> outcome \<Rightarrow> knowledge_state \<Rightarrow>
   knowledge_write option verification_res \<times> knowledge_state" where
  "apply_outcome gap now auth oc st = apply_outcome_with_token gap now auth oc None st"

definition report_apply ::
  "(nat \<Rightarrow> knowledge_state \<Rightarrow> knowledge_state) \<Rightarrow> u64 \<Rightarrow> knowledge_authority \<Rightarrow> verification_report \<Rightarrow> knowledge_state \<Rightarrow>
   knowledge_write option verification_res \<times> knowledge_state" where
  "report_apply gap now auth report st =
     (if \<not> vc_applies (vp_case report)
      then
        (let st' = gap 0 st
         in (and_then (validate_commit_token \<lparr>kb_authority = auth, kb_state = st'\<rparr> (vc_subject (vp_case report))
               (vp_token report)) (\<lambda>_. Ok None), st'))
      else apply_outcome_with_token gap now auth (vp_outcome report) (Some (vp_token report)) st)"

definition prospective_snapshot ::
  "u64 \<Rightarrow> verification_report \<Rightarrow> knowledge_snapshot \<Rightarrow> knowledge_snapshot verification_res" where
  "prospective_snapshot now report sn =
     (if \<not> vc_applies (vp_case report) then Ok sn
      else case status_hypothesis_state (oc_status (vp_outcome report)) of
          None \<Rightarrow> Ok sn
        | Some state \<Rightarrow>
            (case with_projected_hypothesis_state now sn (oc_hypothesis_id (vp_outcome report)) state of
               None \<Rightarrow> Err (UnknownHypothesis (oc_hypothesis_id (vp_outcome report)))
             | Some sn' \<Rightarrow> Ok sn'))"

interpretation verifier_choice: ranked_choice "verifier_before rules" for rules
  by unfold_locales (auto simp: verifier_before_def Let_def)

end
