(* ===== verification/Experience.thy ===== *)
theory Experience
  imports Outcome
begin

text \<open>
  The experience store (\<open>src/crates/termivar-scanner/src/experience.rs\<close>): dispositions, the
  append-only store of observed outcomes, the assessment of one action and the set of actions that
  repeated verified negatives suppress, and the wire decoding of a store. The properties say that a
  store is append-only and keyed by subject, action, case and stage, that decoding accepts exactly
  the stores the operations build, and that suppression counts the verified negatives since the last
  success.
\<close>

section \<open>Dispositions and policy\<close>

datatype experience_disposition =
    ConfirmedPositive
  | NotApplicable
  | BlockedByTarget
  | BlockedByPolicy
  | TransportFailure
  | ExecutorFailure
  | VerificationRejected
  | VerificationInconclusive
  | NegativeConfirmed

datatype experience_error =
    ZeroFailureLimit
  | IdentityConflict entity_id string string verification_stage
  | SequenceOverflow
  | InvalidSequence u64 u64
  | InvalidNextSequence u64 u64
  | DuplicateObservation
  | IncompatibleDisposition outcome_status experience_disposition

type_synonym 'a experience_res = "('a, experience_error) res"

datatype experience_write = ExperienceInserted | ExperienceUnchanged

fun disposition_from_status :: "outcome_status \<Rightarrow> experience_disposition" where
  "disposition_from_status Success = ConfirmedPositive"
| "disposition_from_status Blocked = BlockedByTarget"
| "disposition_from_status Unknown = VerificationInconclusive"
| "disposition_from_status NeedsReview = VerificationInconclusive"
| "disposition_from_status FalsePositive = VerificationRejected"
| "disposition_from_status ConfirmedNegative = NegativeConfirmed"

fun disposition_accepts :: "experience_disposition \<Rightarrow> outcome_status \<Rightarrow> bool" where
  "disposition_accepts ConfirmedPositive s \<longleftrightarrow> s = Success"
| "disposition_accepts VerificationRejected s \<longleftrightarrow> s = FalsePositive"
| "disposition_accepts NegativeConfirmed s \<longleftrightarrow> s = ConfirmedNegative"
| "disposition_accepts BlockedByTarget s \<longleftrightarrow> s = Blocked"
| "disposition_accepts NotApplicable s \<longleftrightarrow> s = Unknown \<or> s = NeedsReview"
| "disposition_accepts BlockedByPolicy s \<longleftrightarrow> s = Unknown \<or> s = NeedsReview"
| "disposition_accepts TransportFailure s \<longleftrightarrow> s = Unknown \<or> s = NeedsReview"
| "disposition_accepts ExecutorFailure s \<longleftrightarrow> s = Unknown \<or> s = NeedsReview"
| "disposition_accepts VerificationInconclusive s \<longleftrightarrow> s = Unknown \<or> s = NeedsReview"

datatype suppression_effect = Increment | Reset | Neutral

fun suppression_effect_of :: "experience_disposition \<Rightarrow> suppression_effect" where
  "suppression_effect_of ConfirmedPositive = Reset"
| "suppression_effect_of VerificationRejected = Increment"
| "suppression_effect_of NegativeConfirmed = Increment"
| "suppression_effect_of NotApplicable = Neutral"
| "suppression_effect_of BlockedByTarget = Neutral"
| "suppression_effect_of BlockedByPolicy = Neutral"
| "suppression_effect_of TransportFailure = Neutral"
| "suppression_effect_of ExecutorFailure = Neutral"
| "suppression_effect_of VerificationInconclusive = Neutral"

record experience_policy =
  ep_limit :: u16

definition experience_policy_new :: "u16 \<Rightarrow> experience_policy experience_res" where
  "experience_policy_new limit = (if limit = 0 then Err ZeroFailureLimit else Ok \<lparr>ep_limit = limit\<rparr>)"

definition experience_policy_default :: experience_policy where
  "experience_policy_default = \<lparr>ep_limit = 10\<rparr>"

definition experience_policy_from_wire :: "experience_policy \<Rightarrow> experience_policy experience_res" where
  "experience_policy_from_wire w = experience_policy_new (ep_limit w)"

section \<open>The store\<close>

record experience_record =
  xr_sequence :: u64
  xr_outcome :: outcome
  xr_disposition :: experience_disposition

record experience_store =
  xs_next_sequence :: u64
  xs_records :: "experience_record list"

definition experience_store_new :: experience_store where
  "experience_store_new = \<lparr>xs_next_sequence = 0, xs_records = []\<rparr>"

definition same_identity :: "outcome \<Rightarrow> outcome \<Rightarrow> bool" where
  "same_identity l r \<longleftrightarrow>
     oc_subject l = oc_subject r \<and> oc_action_id l = oc_action_id r \<and>
     oc_case_id l = oc_case_id r \<and> oc_stage l = oc_stage r"

definition validate_disposition :: "outcome \<Rightarrow> experience_disposition \<Rightarrow> unit experience_res" where
  "validate_disposition oc d =
     (if disposition_accepts d (oc_status oc) then Ok () else Err (IncompatibleDisposition (oc_status oc) d))"

definition observe_with_disposition ::
  "outcome \<Rightarrow> experience_disposition \<Rightarrow> experience_store \<Rightarrow> experience_write experience_res \<times> experience_store" where
  "observe_with_disposition oc d store =
     (case validate_disposition oc d of
        Err e \<Rightarrow> (Err e, store)
      | Panic \<Rightarrow> (Panic, store)
      | Ok _ \<Rightarrow>
          (case find (\<lambda>r. same_identity (xr_outcome r) oc) (xs_records store) of
             Some existing \<Rightarrow>
               if xr_outcome existing = oc \<and> xr_disposition existing = d then (Ok ExperienceUnchanged, store)
               else (Err (IdentityConflict (oc_subject oc) (oc_action_id oc) (oc_case_id oc) (oc_stage oc)), store)
           | None \<Rightarrow>
               (case checked_add (xs_next_sequence store) 1 of
                  None \<Rightarrow> (Err SequenceOverflow, store)
                | Some following \<Rightarrow>
                    (Ok ExperienceInserted,
                     \<lparr>xs_next_sequence = following,
                      xs_records = xs_records store @
                        [\<lparr>xr_sequence = xs_next_sequence store, xr_outcome = oc, xr_disposition = d\<rparr>]\<rparr>))))"

definition experience_observe ::
  "outcome \<Rightarrow> experience_store \<Rightarrow> experience_write experience_res \<times> experience_store" where
  "experience_observe oc store = observe_with_disposition oc (disposition_from_status (oc_status oc)) store"

definition history :: "experience_store \<Rightarrow> entity_id \<Rightarrow> string \<Rightarrow> experience_record list" where
  "history store subject action_id =
     filter (\<lambda>r. oc_subject (xr_outcome r) = subject \<and> oc_action_id (xr_outcome r) = action_id) (xs_records store)"

section \<open>Assessment\<close>

datatype experience_recommendation = Explore | Continue | Suppress

record experience_assessment =
  xa_subject :: entity_id
  xa_action_id :: string
  xa_completed_attempts :: nat
  xa_consecutive_failures :: u16
  xa_last_status :: "outcome_status option"
  xa_last_stage :: "verification_stage option"
  xa_last_disposition :: "experience_disposition option"
  xa_recommendation :: experience_recommendation
  xa_rationale :: string

definition is_completed_attempt :: "outcome \<Rightarrow> bool" where
  "is_completed_attempt oc \<longleftrightarrow>
     (case oc_status oc of
        Unknown \<Rightarrow> oc_stage oc = ActiveStage
      | NeedsReview \<Rightarrow> oc_stage oc = ActiveStage
      | _ \<Rightarrow> True)"

text \<open>\<^verbatim>\<open>entry(case).and_modify(..).or_insert(record)\<close> for every record of a history.\<close>

definition keep_latest ::
  "experience_record \<Rightarrow> (string, experience_record) bmap \<Rightarrow> (string, experience_record) bmap" where
  "keep_latest r m =
     (case map_of m (oc_case_id (xr_outcome r)) of
        None \<Rightarrow> bmap_insert (oc_case_id (xr_outcome r)) r m
      | Some existing \<Rightarrow>
          if oc_stage (xr_outcome existing) = PassiveStage \<and> oc_stage (xr_outcome r) = ActiveStage
          then bmap_insert (oc_case_id (xr_outcome r)) r m else m)"

definition latest_by_case :: "experience_record list \<Rightarrow> (string, experience_record) bmap" where
  "latest_by_case rs = fold keep_latest rs []"

fun count_failures :: "experience_record list \<Rightarrow> u16 \<Rightarrow> u16" where
  "count_failures [] n = n"
| "count_failures (r # rs) n =
     (case suppression_effect_of (xr_disposition r) of
        Increment \<Rightarrow> count_failures rs (saturating_add n 1)
      | Reset \<Rightarrow> n
      | Neutral \<Rightarrow> count_failures rs n)"

definition completed_records :: "experience_store \<Rightarrow> entity_id \<Rightarrow> string \<Rightarrow> experience_record list" where
  "completed_records store subject action_id =
     sort_by (\<lambda>a b. xr_sequence a \<le> xr_sequence b)
       (filter (\<lambda>r. is_completed_attempt (xr_outcome r))
         (map snd (latest_by_case (history store subject action_id))))"

definition last_of :: "'a list \<Rightarrow> 'a option" where
  "last_of xs = (if xs = [] then None else Some (last xs))"

definition assess ::
  "experience_store \<Rightarrow> entity_id \<Rightarrow> string \<Rightarrow> experience_policy \<Rightarrow> experience_assessment" where
  "assess store subject action_id policy =
     (let completed = completed_records store subject action_id;
          failures = count_failures (rev completed) 0;
          recommendation =
            (if ep_limit policy \<le> failures then Suppress
             else if completed = [] then Explore else Continue)
      in \<lparr>xa_subject = subject, xa_action_id = action_id, xa_completed_attempts = length completed,
          xa_consecutive_failures = failures,
          xa_last_status = map_option (\<lambda>r. oc_status (xr_outcome r)) (last_of completed),
          xa_last_stage = map_option (\<lambda>r. oc_stage (xr_outcome r)) (last_of completed),
          xa_last_disposition = map_option xr_disposition (last_of completed),
          xa_recommendation = recommendation,
          xa_rationale =
            (case recommendation of
               Explore \<Rightarrow> ''no completed experience exists for this subject and action''
             | Continue \<Rightarrow> decimal (unat failures) @
                 '' suppression-eligible verified negatives remain below the policy limit of '' @
                 decimal (unat (ep_limit policy))
             | Suppress \<Rightarrow> decimal (unat failures) @
                 '' suppression-eligible verified negatives reached the policy limit of '' @
                 decimal (unat (ep_limit policy)))\<rparr>)"

definition is_suppressed :: "experience_assessment \<Rightarrow> bool" where
  "is_suppressed a \<longleftrightarrow> xa_recommendation a = Suppress"

definition suppressed_actions :: "experience_store \<Rightarrow> entity_id \<Rightarrow> experience_policy \<Rightarrow> string list" where
  "suppressed_actions store subject policy =
     filter (\<lambda>a. is_suppressed (assess store subject a policy))
       (bset_of_list (map (\<lambda>r. oc_action_id (xr_outcome r))
         (filter (\<lambda>r. oc_subject (xr_outcome r) = subject) (xs_records store))))"

section \<open>Wire decoding\<close>

record wire_experience_record =
  wx_sequence :: u64
  wx_outcome :: outcome
  wx_disposition :: "experience_disposition option"

datatype experience_wire_error =
    ExperienceOutcome outcome_wire_error
  | ExperienceInvalid experience_error
  | ExperienceIndex

definition record_from_wire ::
  "wire_experience_record \<Rightarrow> (experience_record, experience_wire_error) res" where
  "record_from_wire w =
     and_then (map_err ExperienceOutcome (outcome_from_wire (wx_outcome w))) (\<lambda>oc.
       let d = (case wx_disposition w of None \<Rightarrow> disposition_from_status (oc_status oc) | Some d \<Rightarrow> d)
       in and_then (map_err ExperienceInvalid (validate_disposition oc d)) (\<lambda>_.
         Ok \<lparr>xr_sequence = wx_sequence w, xr_outcome = oc, xr_disposition = d\<rparr>))"

definition record_to_wire :: "experience_record \<Rightarrow> wire_experience_record" where
  "record_to_wire r =
     \<lparr>wx_sequence = xr_sequence r, wx_outcome = xr_outcome r, wx_disposition = Some (xr_disposition r)\<rparr>"

text \<open>A position of a \<^verbatim>\<open>Vec\<close> as a \<^verbatim>\<open>u64\<close>.\<close>

definition u64_of_index :: "nat \<Rightarrow> u64 option" where
  "u64_of_index n = (if n < 2 ^ 64 then Some (word_of_nat n) else None)"

fun check_sequences :: "nat \<Rightarrow> experience_record list \<Rightarrow> (unit, experience_wire_error) res" where
  "check_sequences n [] = Ok ()"
| "check_sequences n (r # rs) =
     (case u64_of_index n of
        None \<Rightarrow> Err ExperienceIndex
      | Some expected \<Rightarrow>
          if xr_sequence r \<noteq> expected then Err (ExperienceInvalid (InvalidSequence expected (xr_sequence r)))
          else check_sequences (Suc n) rs)"

fun replay_records ::
  "experience_record list \<Rightarrow> experience_store \<Rightarrow> (experience_store, experience_wire_error) res" where
  "replay_records [] store = Ok store"
| "replay_records (r # rs) store =
     (case observe_with_disposition (xr_outcome r) (xr_disposition r) store of
        (Ok ExperienceInserted, store') \<Rightarrow> replay_records rs store'
      | (Ok ExperienceUnchanged, _) \<Rightarrow> Err (ExperienceInvalid DuplicateObservation)
      | (Err e, _) \<Rightarrow> Err (ExperienceInvalid e)
      | (Panic, _) \<Rightarrow> Panic)"

definition store_from_wire ::
  "u64 \<Rightarrow> wire_experience_record list \<Rightarrow> (experience_store, experience_wire_error) res" where
  "store_from_wire next_sequence wire =
     and_then (collect_res record_from_wire wire) (\<lambda>records.
     and_then (check_sequences 0 records) (\<lambda>_.
       case u64_of_index (length records) of
         None \<Rightarrow> Err ExperienceIndex
       | Some expected \<Rightarrow>
           if next_sequence \<noteq> expected
           then Err (ExperienceInvalid (InvalidNextSequence expected next_sequence))
           else replay_records records experience_store_new))"

end
