(* ===== verification/Decision_Loop.thy ===== *)
theory Decision_Loop
  imports Rules Planner Adaptive Verification Experience Budget
begin

text \<open>
  The decision loop (\<open>src/crates/termivar-scanner/src/decision_loop.rs\<close> and
  \<open>decision_loop/{command,state,policy,receipts}.rs\<close>): the commands it emits, the replayable
  session with its wire decoder, its configuration, and the three turns that compose rules, planner,
  verification, adaptation and experience. A turn returns its result with the session, the
  experience store and the knowledge state it leaves behind. The knowledge base is shared: what
  other threads and the test hooks write between two accesses is part of the environment records
  \<open>planning_env\<close> and \<open>submit_env\<close>, which also carry the clock readings.
\<close>

section \<open>Commands\<close>

datatype decision_stop_reason =
    ObjectiveComplete
  | NoEligibleAction
  | HumanReview
  | AdaptationLimit
  | ActionCycleLimit
  | RuntimeBudgetLimit
  | CancelledByHost

datatype decision_loop_command =
    CmdExecuteAction verification_case "string option" action_origin "u64 option"
  | CmdCollectActiveEvidence verification_case
  | CmdReplan
  | CmdComplete verification_case
  | CmdAwaitHumanReview verification_case
  | CmdHalt decision_stop_reason

fun command_requiring_host_policy_context :: "decision_loop_command \<Rightarrow> string option" where
  "command_requiring_host_policy_context (CmdExecuteAction c executor origin delay) =
     (case origin of
        Adaptive \<Rightarrow> Some ''adaptive_execute_action''
      | Retry \<Rightarrow> Some ''retry_execute_action''
      | _ \<Rightarrow> None)"
| "command_requiring_host_policy_context (CmdCollectActiveEvidence c) = Some ''collect_active_evidence''"
| "command_requiring_host_policy_context CmdReplan = Some ''replan''"
| "command_requiring_host_policy_context _ = None"

fun execution_command_action_id :: "decision_loop_command \<Rightarrow> string option" where
  "execution_command_action_id (CmdExecuteAction c _ _ _) = Some (vc_action_id c)"
| "execution_command_action_id (CmdCollectActiveEvidence c) = Some (vc_action_id c)"
| "execution_command_action_id _ = None"

section \<open>Errors, configuration, sessions\<close>

record reasoning_receipt =
  rc_subject :: entity_id
  rc_subject_revision :: u64
  rc_ontology_revision :: u64
  rc_applications :: "rule_application list"

datatype decision_loop_error =
    ZeroActionCycles
  | InvalidTransition string string
  | CaseSubjectMismatch entity_id entity_id
  | AwaitingWithoutAction
  | ActionCycleOverflow
  | NoEligibleScheduledVerificationTarget string
  | NoEligibleScheduledMotivationHypothesis string
  | AdaptiveExecutionRequiresHostPolicyContext string
  | UnregisteredDecisionAction string
  | DecisionCaseAuthorityExceeded string
  | IneligibleAdaptiveAction string
  | DefenseSuppressedAction string
  | AdaptiveActionRequiresPlanning string
  | LoopRules rule_engine_error
  | LoopPlanner planner_error
  | LoopVerification verification_error
  | LoopAdaptive adaptive_error
  | LoopExperience experience_error
  | StalePlanningSnapshot knowledge_base_error
  | PlanningAfterReasoningCommit reasoning_receipt decision_loop_error

type_synonym 'a loop_res = "('a, decision_loop_error) res"

fun committed_reasoning :: "decision_loop_error \<Rightarrow> reasoning_receipt option" where
  "committed_reasoning (PlanningAfterReasoningCommit receipt source) = Some receipt"
| "committed_reasoning _ = None"

record decision_loop_config =
  dc_planning :: planning_context
  dc_adaptation :: adaptation_limits
  dc_experience :: experience_policy
  dc_max_action_cycles :: u32

definition decision_loop_config_new ::
  "planning_context \<Rightarrow> adaptation_limits \<Rightarrow> experience_policy \<Rightarrow> u32 \<Rightarrow> decision_loop_config loop_res" where
  "decision_loop_config_new planning adaptation experience max_action_cycles =
     (if max_action_cycles = 0 then Err ZeroActionCycles
      else Ok \<lparr>dc_planning = planning, dc_adaptation = adaptation, dc_experience = experience,
               dc_max_action_cycles = max_action_cycles\<rparr>)"

text \<open>Decoding validates the nested limits and policy with their own decoders first.\<close>

datatype config_wire_error =
    ConfigLimits adaptive_error
  | ConfigPolicy experience_error
  | InvalidConfig decision_loop_error

definition decision_loop_config_from_wire ::
  "decision_loop_config \<Rightarrow> (decision_loop_config, config_wire_error) res" where
  "decision_loop_config_from_wire w =
     and_then (map_err ConfigLimits (adaptation_limits_from_wire (dc_adaptation w))) (\<lambda>limits.
     and_then (map_err ConfigPolicy (experience_policy_from_wire (dc_experience w))) (\<lambda>policy.
       map_err InvalidConfig
         (decision_loop_config_new (dc_planning w) limits policy (dc_max_action_cycles w))))"

datatype decision_loop_state =
    Ready
  | AwaitingPassive verification_case
  | AwaitingActive verification_case
  | Completed
  | Halted decision_stop_reason

fun loop_state_name :: "decision_loop_state \<Rightarrow> string" where
  "loop_state_name Ready = ''ready''"
| "loop_state_name (AwaitingPassive c) = ''awaiting_passive''"
| "loop_state_name (AwaitingActive c) = ''awaiting_active''"
| "loop_state_name Completed = ''completed''"
| "loop_state_name (Halted reason) = ''halted''"

fun loop_state_case :: "decision_loop_state \<Rightarrow> verification_case option" where
  "loop_state_case (AwaitingPassive c) = Some c"
| "loop_state_case (AwaitingActive c) = Some c"
| "loop_state_case _ = None"

record decision_session =
  ds_subject :: entity_id
  ds_action_cycles :: u32
  ds_state :: decision_loop_state
  ds_adaptation :: adaptation_ledger

definition decision_session_new :: "entity_id \<Rightarrow> decision_session" where
  "decision_session_new subject =
     \<lparr>ds_subject = subject, ds_action_cycles = 0, ds_state = Ready, ds_adaptation = ledger_new\<rparr>"

definition halt_for_runtime_budget :: "decision_session \<Rightarrow> decision_session" where
  "halt_for_runtime_budget s = s\<lparr>ds_state := Halted RuntimeBudgetLimit\<rparr>"

definition halt_for_host_cancellation :: "decision_session \<Rightarrow> decision_session" where
  "halt_for_host_cancellation s = s\<lparr>ds_state := Halted CancelledByHost\<rparr>"

definition replan_after_defense_suppression :: "decision_session \<Rightarrow> unit loop_res \<times> decision_session" where
  "replan_after_defense_suppression s =
     (case loop_state_case (ds_state s) of
        Some _ \<Rightarrow> (Ok (), s\<lparr>ds_state := Ready\<rparr>)
      | None \<Rightarrow> (Err (InvalidTransition ''replan after defense suppression'' (loop_state_name (ds_state s))), s))"

definition finalize_objective_complete :: "decision_session \<Rightarrow> decision_session" where
  "finalize_objective_complete s = s\<lparr>ds_state := Completed\<rparr>"

definition finalize_human_review :: "decision_session \<Rightarrow> decision_session" where
  "finalize_human_review s = s\<lparr>ds_state := Halted HumanReview\<rparr>"

record session_summary =
  su_state :: decision_loop_state
  su_action_cycles :: u32
  su_adaptation_transitions :: u32

definition transition_summary :: "decision_session \<Rightarrow> session_summary" where
  "transition_summary s =
     \<lparr>su_state = ds_state s, su_action_cycles = ds_action_cycles s,
      su_adaptation_transitions = lg_transitions (ds_adaptation s)\<rparr>"

record session_transition =
  tr_before :: session_summary
  tr_after :: session_summary

definition session_transition_of :: "decision_session \<Rightarrow> decision_session \<Rightarrow> session_transition" where
  "session_transition_of s t = \<lparr>tr_before = transition_summary s, tr_after = transition_summary t\<rparr>"

text \<open>
  The wire form of a session. Its case and its ledger are decoded by their own decoders; the
  session's checks follow.
\<close>

datatype wire_loop_state =
    WireReady
  | WireAwaitingPassive wire_case
  | WireAwaitingActive wire_case
  | WireCompleted
  | WireHalted decision_stop_reason

record wire_session =
  ws_subject :: entity_id
  ws_action_cycles :: u32
  ws_state :: wire_loop_state
  ws_adaptation :: adaptation_ledger

datatype session_wire_error =
    SessionCase case_wire_error
  | SessionLedger adaptive_error
  | InvalidSession decision_loop_error

fun loop_state_from_wire :: "wire_loop_state \<Rightarrow> (decision_loop_state, case_wire_error) res" where
  "loop_state_from_wire WireReady = Ok Ready"
| "loop_state_from_wire (WireAwaitingPassive w) = and_then (case_from_wire w) (\<lambda>c. Ok (AwaitingPassive c))"
| "loop_state_from_wire (WireAwaitingActive w) = and_then (case_from_wire w) (\<lambda>c. Ok (AwaitingActive c))"
| "loop_state_from_wire WireCompleted = Ok Completed"
| "loop_state_from_wire (WireHalted reason) = Ok (Halted reason)"

fun loop_state_to_wire :: "decision_loop_state \<Rightarrow> wire_loop_state" where
  "loop_state_to_wire Ready = WireReady"
| "loop_state_to_wire (AwaitingPassive c) = WireAwaitingPassive (case_to_wire c)"
| "loop_state_to_wire (AwaitingActive c) = WireAwaitingActive (case_to_wire c)"
| "loop_state_to_wire Completed = WireCompleted"
| "loop_state_to_wire (Halted reason) = WireHalted reason"

definition check_session_case :: "decision_session \<Rightarrow> unit loop_res" where
  "check_session_case s =
     (case loop_state_case (ds_state s) of
        None \<Rightarrow> Ok ()
      | Some c \<Rightarrow>
          if vc_subject c \<noteq> ds_subject s then Err (CaseSubjectMismatch (ds_subject s) (vc_subject c))
          else if ds_action_cycles s = 0 then Err AwaitingWithoutAction
          else Ok ())"

definition session_from_wire :: "wire_session \<Rightarrow> (decision_session, session_wire_error) res" where
  "session_from_wire w =
     and_then (map_err SessionCase (loop_state_from_wire (ws_state w))) (\<lambda>state.
     and_then (map_err SessionLedger (ledger_from_wire (ws_adaptation w))) (\<lambda>ledger.
       let s = \<lparr>ds_subject = ws_subject w, ds_action_cycles = ws_action_cycles w, ds_state = state,
                ds_adaptation = ledger\<rparr>
       in and_then (map_err InvalidSession (check_session_case s)) (\<lambda>_. Ok s)))"

definition session_to_wire :: "decision_session \<Rightarrow> wire_session" where
  "session_to_wire s =
     \<lparr>ws_subject = ds_subject s, ws_action_cycles = ds_action_cycles s,
      ws_state = loop_state_to_wire (ds_state s), ws_adaptation = ds_adaptation s\<rparr>"

section \<open>The coordinator\<close>

record decision_loop =
  dl_config :: decision_loop_config
  dl_rules :: rule_engine
  dl_planner :: attack_planner
  dl_verification :: verification_pipeline
  dl_adaptive :: adaptive_pipeline

definition decision_loop_new :: "decision_loop_config \<Rightarrow> decision_loop" where
  "decision_loop_new config =
     \<lparr>dl_config = config, dl_rules = [], dl_planner = [], dl_verification = verification_pipeline_default,
      dl_adaptive = []\<rparr>"

definition require_state ::
  "decision_session \<Rightarrow> string \<Rightarrow> (decision_loop_state \<Rightarrow> bool) \<Rightarrow> unit loop_res" where
  "require_state s operation predicate =
     (if predicate (ds_state s) then Ok ()
      else Err (InvalidTransition operation (loop_state_name (ds_state s))))"

definition combined_suppressions ::
  "experience_store \<Rightarrow> decision_session \<Rightarrow> experience_policy \<Rightarrow> suppression_context \<Rightarrow> suppression_context" where
  "combined_suppressions experience s policy host =
     \<lparr>sup_policy =
        bset_union
          (bset_union (suppressed_actions experience (ds_subject s) policy) (lg_suppressed (ds_adaptation s)))
          (sup_policy host),
      sup_defense = sup_defense host\<rparr>"

definition next_case_with_policy ::
  "decision_session \<Rightarrow> string \<Rightarrow> string \<Rightarrow> bool \<Rightarrow> payload_strategy_ref option \<Rightarrow> string \<Rightarrow>
   verification_case loop_res" where
  "next_case_with_policy s action_id hypothesis_id applies payload origin =
     (case checked_add (ds_action_cycles s) 1 of
        None \<Rightarrow> Err ActionCycleOverflow
      | Some next_cycle \<Rightarrow>
          and_then (map_err LoopVerification
            (verification_case_new
              (''case:decision:'' @ decimal (unat next_cycle) @ '':'' @ origin @ '':'' @ action_id)
              (ds_subject s) action_id hypothesis_id)) (\<lambda>c.
            let c' = case_with_payload_strategy payload c
            in Ok (if applies then c' else without_hypothesis_transition c')))"

definition next_case ::
  "decision_session \<Rightarrow> string \<Rightarrow> string \<Rightarrow> resolved_target \<Rightarrow> payload_strategy_ref option \<Rightarrow> string \<Rightarrow>
   verification_case loop_res" where
  "next_case s action_id motivation_id target payload origin =
     (case target of
        TargetHypothesis hypothesis_id \<Rightarrow>
          next_case_with_policy s action_id hypothesis_id True payload origin
      | TargetKnowledgeOnly \<Rightarrow> next_case_with_policy s action_id motivation_id False payload origin)"

definition issue_action ::
  "decision_session \<Rightarrow> u32 \<Rightarrow> verification_case \<Rightarrow> string option \<Rightarrow> action_origin \<Rightarrow> u64 option \<Rightarrow>
   decision_loop_command \<times> decision_session" where
  "issue_action s max_action_cycles c executor origin delay_ms =
     (if max_action_cycles \<le> ds_action_cycles s
      then (CmdHalt ActionCycleLimit, s\<lparr>ds_state := Halted ActionCycleLimit\<rparr>)
      else (CmdExecuteAction c executor origin delay_ms,
            s\<lparr>ds_action_cycles := ds_action_cycles s + 1, ds_state := AwaitingPassive c\<rparr>))"

fun adaptive_authorization_error :: "bool \<Rightarrow> scheduled_error \<Rightarrow> decision_loop_error" where
  "adaptive_authorization_error preserve (ScheduledPlanner source) = LoopPlanner source"
| "adaptive_authorization_error preserve (Unregistered i) = UnregisteredDecisionAction i"
| "adaptive_authorization_error preserve (HasPrerequisites i) = AdaptiveActionRequiresPlanning i"
| "adaptive_authorization_error preserve (ScheduledExcluded i reason) =
     (if reason = DefenseSuppressed then DefenseSuppressedAction i
      else if preserve \<and> reason = NoEligibleHypothesis then NoEligibleScheduledMotivationHypothesis i
      else if preserve \<and> reason = NoEligibleVerificationTarget then NoEligibleScheduledVerificationTarget i
      else IneligibleAdaptiveAction i)"

definition authorize_adaptive_action ::
  "attack_planner \<Rightarrow> knowledge_snapshot \<Rightarrow> planning_context \<Rightarrow> suppression_context \<Rightarrow> string \<Rightarrow> bool \<Rightarrow>
   plan_step loop_res" where
  "authorize_adaptive_action planner sn context suppr action_id preserve =
     map_err (adaptive_authorization_error preserve)
       (authorize_scheduled_action planner sn context suppr action_id)"

definition transition_from_adaptive ::
  "decision_session \<Rightarrow> u32 \<Rightarrow> attack_planner \<Rightarrow> planning_context \<Rightarrow> knowledge_snapshot \<Rightarrow> verification_case \<Rightarrow>
   outcome \<Rightarrow> pipeline_directive \<Rightarrow> suppression_context \<Rightarrow>
   (decision_loop_command \<times> decision_session) loop_res" where
  "transition_from_adaptive s max_action_cycles planner context sn current oc directive suppr =
     (case directive of
        Complete \<Rightarrow> Ok (CmdComplete current, s\<lparr>ds_state := Completed\<rparr>)
      | ScheduleAction action_id \<Rightarrow>
          if max_action_cycles \<le> ds_action_cycles s
          then Ok (CmdHalt ActionCycleLimit, s\<lparr>ds_state := Halted ActionCycleLimit\<rparr>)
          else if action_id \<in> set (sup_defense suppr) then Ok (CmdReplan, s\<lparr>ds_state := Ready\<rparr>)
          else
            and_then (authorize_adaptive_action planner sn context suppr action_id True) (\<lambda>step.
            and_then (next_case s (st_action_id step) (st_confidence_id step) (st_target step)
                (st_payload step) ''adaptive'') (\<lambda>c.
              Ok (issue_action s max_action_cycles c (Some (st_executor step)) Adaptive None)))
      | Replan _ \<Rightarrow> Ok (CmdReplan, s\<lparr>ds_state := Ready\<rparr>)
      | Throttle delay_ms retry_current_action \<Rightarrow>
          if \<not> retry_current_action then Ok (CmdReplan, s\<lparr>ds_state := Ready\<rparr>)
          else if max_action_cycles \<le> ds_action_cycles s
          then Ok (CmdHalt ActionCycleLimit, s\<lparr>ds_state := Halted ActionCycleLimit\<rparr>)
          else if oc_action_id oc \<in> set (sup_defense suppr) then Ok (CmdReplan, s\<lparr>ds_state := Ready\<rparr>)
          else
            and_then (authorize_adaptive_action planner sn context suppr (oc_action_id oc) False) (\<lambda>step.
            and_then (next_case_with_policy s (oc_action_id oc) (vc_hypothesis_id current)
                (vc_applies current) (vc_payload current) ''retry'') (\<lambda>c.
              Ok (issue_action s max_action_cycles c (Some (st_executor step)) Retry (Some delay_ms))))
      | AwaitActiveVerification \<Rightarrow>
          if vc_action_id current \<in> set (sup_defense suppr) then Ok (CmdReplan, s\<lparr>ds_state := Ready\<rparr>)
          else
            and_then (authorize_adaptive_action planner sn context suppr (vc_action_id current) False) (\<lambda>_.
              Ok (CmdCollectActiveEvidence current, s\<lparr>ds_state := AwaitingActive current\<rparr>))
      | AwaitHumanReview \<Rightarrow> Ok (CmdAwaitHumanReview current, s\<lparr>ds_state := Halted HumanReview\<rparr>)
      | Halt \<Rightarrow> Ok (CmdHalt AdaptationLimit, s\<lparr>ds_state := Halted AdaptationLimit\<rparr>))"

section \<open>Planning turns\<close>

record planning_env =
  pe_clock :: "nat \<Rightarrow> u64"
  pe_gap :: "nat \<Rightarrow> knowledge_state \<Rightarrow> knowledge_state"
  pe_apply :: "nat \<Rightarrow> knowledge_state \<Rightarrow> knowledge_state"
  pe_before_snapshot :: "knowledge_state \<Rightarrow> knowledge_state"
  pe_before_commit :: "knowledge_state \<Rightarrow> knowledge_state"

record planning_report =
  pn_applications :: "rule_application list"
  pn_plan :: attack_plan
  pn_policy_authorized :: attack_plan
  pn_suppressed :: "string list"
  pn_transition :: session_transition
  pn_command :: decision_loop_command

text \<open>The report of a turn on a snapshot, with the candidate session that its commit would install.\<close>

definition cycle_limit_turn ::
  "decision_loop \<Rightarrow> experience_store \<Rightarrow> suppression_context \<Rightarrow> knowledge_snapshot \<Rightarrow> decision_session \<Rightarrow>
   (planning_report \<times> decision_session) loop_res" where
  "cycle_limit_turn dl experience host sn s =
     (let candidate = s\<lparr>ds_state := Halted ActionCycleLimit\<rparr>;
          suppr = combined_suppressions experience candidate (dc_experience (dl_config dl)) host
      in and_then (map_err LoopPlanner
           (plan_with_action_suppressions_and_baseline (dl_planner dl) sn (dc_planning (dl_config dl)) suppr))
         (\<lambda>(authorized, plan).
           Ok (\<lparr>pn_applications = [], pn_plan = plan, pn_policy_authorized = authorized,
                pn_suppressed = sup_policy suppr, pn_transition = session_transition_of s candidate,
                pn_command = CmdHalt ActionCycleLimit\<rparr>, candidate)))"

definition first_step_command ::
  "decision_loop \<Rightarrow> attack_plan \<Rightarrow> decision_session \<Rightarrow> (decision_loop_command \<times> decision_session) loop_res" where
  "first_step_command dl plan s =
     (case ap_steps plan of
        [] \<Rightarrow> Ok (CmdHalt NoEligibleAction, s\<lparr>ds_state := Halted NoEligibleAction\<rparr>)
      | step # _ \<Rightarrow>
          and_then (next_case s (st_action_id step) (st_confidence_id step) (st_target step)
              (st_payload step) ''planned'') (\<lambda>c.
            Ok (issue_action s (dc_max_action_cycles (dl_config dl)) c (Some (st_executor step)) Planned None)))"

definition planning_turn ::
  "decision_loop \<Rightarrow> experience_store \<Rightarrow> suppression_context \<Rightarrow> rule_application list \<Rightarrow> knowledge_snapshot \<Rightarrow>
   decision_session \<Rightarrow> (planning_report \<times> decision_session) loop_res" where
  "planning_turn dl experience host applications sn s =
     (let suppr = combined_suppressions experience s (dc_experience (dl_config dl)) host
      in and_then (map_err LoopPlanner
           (plan_with_action_suppressions_and_baseline (dl_planner dl) sn (dc_planning (dl_config dl)) suppr))
         (\<lambda>(authorized, plan).
         and_then (first_step_command dl plan s) (\<lambda>(command, candidate).
           Ok (\<lparr>pn_applications = applications, pn_plan = plan, pn_policy_authorized = authorized,
                pn_suppressed = sup_policy suppr, pn_transition = session_transition_of s candidate,
                pn_command = command\<rparr>, candidate))))"

definition reasoning_changed :: "rule_application list \<Rightarrow> bool" where
  "reasoning_changed applications \<longleftrightarrow>
     list_ex (\<lambda>a. case ra_write a of None \<Rightarrow> False | Some w \<Rightarrow> w \<noteq> Unchanged) applications"

text \<open>
  The commit of a turn: the session is replaced only while the snapshot it was computed from is
  current. A failure after reasoning wrote hypotheses carries the receipt of those writes.
\<close>

definition commit_turn ::
  "planning_env \<Rightarrow> knowledge_authority \<Rightarrow> (decision_loop_error \<Rightarrow> decision_loop_error) \<Rightarrow>
   knowledge_snapshot \<Rightarrow> (planning_report \<times> decision_session) loop_res \<Rightarrow> decision_session \<Rightarrow> knowledge_state \<Rightarrow>
   planning_report loop_res \<times> decision_session \<times> knowledge_state" where
  "commit_turn env auth wrap sn turn s st =
     (case turn of
        Err source \<Rightarrow> (Err (wrap source), s, st)
      | Panic \<Rightarrow> (Panic, s, st)
      | Ok (report, candidate) \<Rightarrow>
          (let st' = pe_before_commit env st
           in case commit_if_snapshot_current \<lparr>kb_authority = auth, kb_state = st'\<rparr> sn (\<lambda>_. candidate) of
                Ok s' \<Rightarrow> (Ok report, s', st')
              | Err source \<Rightarrow> (Err (wrap (StalePlanningSnapshot source)), s, st')
              | Panic \<Rightarrow> (Panic, s, st')))"

definition after_reasoning ::
  "decision_session \<Rightarrow> knowledge_snapshot \<Rightarrow> rule_application list \<Rightarrow> decision_loop_error \<Rightarrow> decision_loop_error" where
  "after_reasoning s sn applications source =
     (if reasoning_changed applications
      then PlanningAfterReasoningCommit
        \<lparr>rc_subject = ds_subject s, rc_subject_revision = sn_subject_revision sn,
         rc_ontology_revision = sn_ontology_revision sn, rc_applications = applications\<rparr> source
      else source)"

definition plan_next_with_action_suppressions ::
  "planning_env \<Rightarrow> decision_loop \<Rightarrow> knowledge_authority \<Rightarrow> experience_store \<Rightarrow> suppression_context \<Rightarrow>
   decision_session \<Rightarrow> knowledge_state \<Rightarrow> planning_report loop_res \<times> decision_session \<times> knowledge_state" where
  "plan_next_with_action_suppressions env dl auth experience host s st =
     (case require_state s ''plan'' (\<lambda>state. state = Ready) of
        Err e \<Rightarrow> (Err e, s, st)
      | Panic \<Rightarrow> (Panic, s, st)
      | Ok _ \<Rightarrow>
          if dc_max_action_cycles (dl_config dl) \<le> ds_action_cycles s
          then
            (let st1 = pe_before_snapshot env st;
                 sn = snapshot_for_subject \<lparr>kb_authority = auth, kb_state = st1\<rparr> (ds_subject s)
             in commit_turn env auth id sn (cycle_limit_turn dl experience host sn s) s st1)
          else
            (case rule_apply (pe_clock env) (pe_gap env) (pe_apply env) (dl_rules dl)
                \<lparr>kb_authority = auth, kb_state = st\<rparr> (ds_subject s) of
               (Err e, st1) \<Rightarrow> (Err (LoopRules e), s, st1)
             | (Panic, st1) \<Rightarrow> (Panic, s, st1)
             | (Ok applications, st1) \<Rightarrow>
                 (let st2 = pe_before_snapshot env st1;
                      sn = snapshot_for_subject \<lparr>kb_authority = auth, kb_state = st2\<rparr> (ds_subject s)
                  in commit_turn env auth (after_reasoning s sn applications) sn
                       (planning_turn dl experience host applications sn s) s st2)))"

definition plan_next_with_suppressed_actions ::
  "planning_env \<Rightarrow> decision_loop \<Rightarrow> knowledge_authority \<Rightarrow> experience_store \<Rightarrow> string list \<Rightarrow>
   decision_session \<Rightarrow> knowledge_state \<Rightarrow> planning_report loop_res \<times> decision_session \<times> knowledge_state" where
  "plan_next_with_suppressed_actions env dl auth experience host s st =
     plan_next_with_action_suppressions env dl auth experience (policy_only host) s st"

definition plan_next ::
  "planning_env \<Rightarrow> decision_loop \<Rightarrow> knowledge_authority \<Rightarrow> experience_store \<Rightarrow> decision_session \<Rightarrow>
   knowledge_state \<Rightarrow> planning_report loop_res \<times> decision_session \<times> knowledge_state" where
  "plan_next env dl auth experience s st =
     plan_next_with_suppressed_actions env dl auth experience [] s st"

section \<open>Submission turns\<close>

record submit_env =
  se_before_snapshot :: "knowledge_state \<Rightarrow> knowledge_state"
  se_projected_at :: u64
  se_gap :: "nat \<Rightarrow> knowledge_state \<Rightarrow> knowledge_state"
  se_now :: u64

record outcome_report =
  or_verification :: verification_report
  or_adaptive :: adaptive_decision
  or_experience_write :: experience_write
  or_hypothesis_write :: "knowledge_write option"
  or_transition :: session_transition
  or_command :: decision_loop_command

definition validate_outstanding_case_authority ::
  "attack_planner \<Rightarrow> knowledge_snapshot \<Rightarrow> verification_case \<Rightarrow> unit loop_res" where
  "validate_outstanding_case_authority planner sn c =
     (case map_of planner (vc_action_id c) of
        None \<Rightarrow> Err (UnregisteredDecisionAction (vc_action_id c))
      | Some action \<Rightarrow>
          if \<not> vc_applies c then Ok ()
          else
            (let authorized =
               Option.bind (selector_select (act_confidence action) (sn_hypotheses sn)) (\<lambda>motivation.
               Option.bind (target_resolve (act_target action) (sn_hypotheses sn) (h_id motivation))
                 target_hypothesis_id)
             in if authorized \<noteq> Some (vc_hypothesis_id c)
                then Err (DecisionCaseAuthorityExceeded (vc_action_id c)) else Ok ()))"

fun validate_execution_command_authority ::
  "attack_planner \<Rightarrow> knowledge_base \<Rightarrow> decision_loop_command \<Rightarrow> unit loop_res" where
  "validate_execution_command_authority planner kb (CmdExecuteAction c executor origin delay) =
     (if origin \<noteq> Bootstrap
      then validate_outstanding_case_authority planner (snapshot_for_subject kb (vc_subject c)) c
      else Ok ())"
| "validate_execution_command_authority planner kb (CmdCollectActiveEvidence c) =
     validate_outstanding_case_authority planner (snapshot_for_subject kb (vc_subject c)) c"
| "validate_execution_command_authority planner kb _ = Ok ()"

text \<open>
  What \<open>finalize_outcome\<close> computes before it touches the knowledge base: the candidate experience
  store, the adaptive decision, the next command and the candidate session.
\<close>

record outcome_candidate =
  cn_experience :: experience_store
  cn_experience_write :: experience_write
  cn_adaptive :: adaptive_decision
  cn_command :: decision_loop_command
  cn_session :: decision_session

fun ends_automation :: "pipeline_directive \<Rightarrow> bool" where
  "ends_automation Complete = True"
| "ends_automation AwaitHumanReview = True"
| "ends_automation Halt = True"
| "ends_automation _ = False"

fun continued_action_id :: "pipeline_directive \<Rightarrow> outcome \<Rightarrow> string" where
  "continued_action_id (ScheduleAction action_id) oc = action_id"
| "continued_action_id _ oc = oc_action_id oc"

definition conclude_candidate ::
  "submit_env \<Rightarrow> decision_loop \<Rightarrow> suppression_context option \<Rightarrow> knowledge_snapshot \<Rightarrow> verification_report \<Rightarrow>
   experience_store \<Rightarrow> decision_session \<Rightarrow> outcome_candidate loop_res" where
  "conclude_candidate env dl host sn report experience s =
     (case experience_observe (vp_outcome report) experience of
        (Err e, _) \<Rightarrow> Err (LoopExperience e)
      | (Panic, _) \<Rightarrow> Panic
      | (Ok write, experience') \<Rightarrow>
          (let oc = vp_outcome report;
               config = dl_config dl;
               suppr = combined_suppressions experience' s (dc_experience config)
                 (case host of None \<Rightarrow> policy_only [] | Some h \<Rightarrow> h)
           in case decide_and_record_with_suppressed_actions (dl_adaptive dl) oc sn (ds_adaptation s)
                     (dc_adaptation config) (sup_policy suppr) of
                (Err e, _) \<Rightarrow> Err (LoopAdaptive e)
              | (Panic, _) \<Rightarrow> Panic
              | (Ok d, ledger) \<Rightarrow>
                  if host = None \<and> \<not> ends_automation (ad_directive d)
                  then Err (AdaptiveExecutionRequiresHostPolicyContext (continued_action_id (ad_directive d) oc))
                  else
                    and_then (map_err LoopVerification (prospective_snapshot (se_projected_at env) report sn))
                      (\<lambda>authorization.
                    and_then (transition_from_adaptive (s\<lparr>ds_adaptation := ledger\<rparr>) (dc_max_action_cycles config)
                        (dl_planner dl) (dc_planning config) authorization (vp_case report) oc (ad_directive d) suppr)
                      (\<lambda>(command, candidate).
                      Ok \<lparr>cn_experience = experience', cn_experience_write = write, cn_adaptive = d,
                          cn_command = command, cn_session = candidate\<rparr>))))"

definition finalize_outcome ::
  "submit_env \<Rightarrow> decision_loop \<Rightarrow> knowledge_authority \<Rightarrow> suppression_context option \<Rightarrow> knowledge_snapshot \<Rightarrow>
   verification_report \<Rightarrow> experience_store \<Rightarrow> decision_session \<Rightarrow> knowledge_state \<Rightarrow>
   outcome_report loop_res \<times> experience_store \<times> decision_session \<times> knowledge_state" where
  "finalize_outcome env dl auth host sn report experience s st =
     (case conclude_candidate env dl host sn report experience s of
        Err e \<Rightarrow> (Err e, experience, s, st)
      | Panic \<Rightarrow> (Panic, experience, s, st)
      | Ok cn \<Rightarrow>
          (case report_apply (se_gap env) (se_now env) auth report st of
             (Err e, st') \<Rightarrow> (Err (LoopVerification e), experience, s, st')
           | (Panic, st') \<Rightarrow> (Panic, experience, s, st')
           | (Ok write, st') \<Rightarrow>
               (Ok \<lparr>or_verification = report, or_adaptive = cn_adaptive cn,
                    or_experience_write = cn_experience_write cn, or_hypothesis_write = write,
                    or_transition = session_transition_of s (cn_session cn), or_command = cn_command cn\<rparr>,
                cn_experience cn, cn_session cn, st')))"

definition submit_passive_with_optional_suppressions ::
  "submit_env \<Rightarrow> decision_loop \<Rightarrow> knowledge_authority \<Rightarrow> suppression_context option \<Rightarrow> experience_store \<Rightarrow>
   decision_session \<Rightarrow> knowledge_state \<Rightarrow>
   outcome_report loop_res \<times> experience_store \<times> decision_session \<times> knowledge_state" where
  "submit_passive_with_optional_suppressions env dl auth host experience s st =
     (case ds_state s of
        AwaitingPassive c \<Rightarrow>
          (let st1 = se_before_snapshot env st;
               sn = snapshot_for_subject \<lparr>kb_authority = auth, kb_state = st1\<rparr> (ds_subject s)
           in case and_then (validate_outstanding_case_authority (dl_planner dl) sn c) (\<lambda>_.
                map_err LoopVerification (passive_verify_snapshot (vl_passive (dl_verification dl)) c sn)) of
                Err e \<Rightarrow> (Err e, experience, s, st1)
              | Panic \<Rightarrow> (Panic, experience, s, st1)
              | Ok report \<Rightarrow> finalize_outcome env dl auth host sn report experience s st1)
      | state \<Rightarrow>
          (Err (InvalidTransition ''submit passive evidence'' (loop_state_name state)), experience, s, st))"

definition submit_active_with_optional_suppressions ::
  "submit_env \<Rightarrow> decision_loop \<Rightarrow> knowledge_authority \<Rightarrow> suppression_context option \<Rightarrow> knowledge_snapshot \<Rightarrow>
   knowledge_snapshot \<Rightarrow> experience_store \<Rightarrow> decision_session \<Rightarrow> knowledge_state \<Rightarrow>
   outcome_report loop_res \<times> experience_store \<times> decision_session \<times> knowledge_state" where
  "submit_active_with_optional_suppressions env dl auth host baseline after_probe experience s st =
     (case ds_state s of
        AwaitingActive c \<Rightarrow>
          (case and_then (validate_outstanding_case_authority (dl_planner dl) after_probe c) (\<lambda>_.
                map_err LoopVerification
                  (active_verify_snapshots (vl_active (dl_verification dl)) c baseline after_probe)) of
             Err e \<Rightarrow> (Err e, experience, s, st)
           | Panic \<Rightarrow> (Panic, experience, s, st)
           | Ok report \<Rightarrow> finalize_outcome env dl auth host after_probe report experience s st)
      | state \<Rightarrow>
          (Err (InvalidTransition ''submit active evidence'' (loop_state_name state)), experience, s, st))"

definition submit_passive ::
  "submit_env \<Rightarrow> decision_loop \<Rightarrow> knowledge_authority \<Rightarrow> experience_store \<Rightarrow> decision_session \<Rightarrow> knowledge_state \<Rightarrow>
   outcome_report loop_res \<times> experience_store \<times> decision_session \<times> knowledge_state" where
  "submit_passive env dl auth experience s st =
     submit_passive_with_optional_suppressions env dl auth None experience s st"

definition submit_passive_with_suppressed_actions ::
  "submit_env \<Rightarrow> decision_loop \<Rightarrow> knowledge_authority \<Rightarrow> string list \<Rightarrow> experience_store \<Rightarrow> decision_session \<Rightarrow>
   knowledge_state \<Rightarrow> outcome_report loop_res \<times> experience_store \<times> decision_session \<times> knowledge_state" where
  "submit_passive_with_suppressed_actions env dl auth host experience s st =
     submit_passive_with_optional_suppressions env dl auth (Some (policy_only host)) experience s st"

definition submit_active ::
  "submit_env \<Rightarrow> decision_loop \<Rightarrow> knowledge_authority \<Rightarrow> knowledge_snapshot \<Rightarrow> knowledge_snapshot \<Rightarrow>
   experience_store \<Rightarrow> decision_session \<Rightarrow> knowledge_state \<Rightarrow>
   outcome_report loop_res \<times> experience_store \<times> decision_session \<times> knowledge_state" where
  "submit_active env dl auth baseline after_probe experience s st =
     submit_active_with_optional_suppressions env dl auth None baseline after_probe experience s st"

definition submit_active_with_suppressed_actions ::
  "submit_env \<Rightarrow> decision_loop \<Rightarrow> knowledge_authority \<Rightarrow> string list \<Rightarrow> knowledge_snapshot \<Rightarrow>
   knowledge_snapshot \<Rightarrow> experience_store \<Rightarrow> decision_session \<Rightarrow> knowledge_state \<Rightarrow>
   outcome_report loop_res \<times> experience_store \<times> decision_session \<times> knowledge_state" where
  "submit_active_with_suppressed_actions env dl auth host baseline after_probe experience s st =
     submit_active_with_optional_suppressions env dl auth (Some (policy_only host)) baseline after_probe
       experience s st"

end
