(* ===== verification/Adaptive_Properties.thy ===== *)
theory Adaptive_Properties
  imports Adaptive Machine
begin

text \<open>
  Laws of the adaptive pipeline: which rule wins, against a reference definition of eligibility over
  the semantics of conditions, and that the counters of a ledger stay within the limits, so that the
  ledger of any session decodes and its counters never overflow.
\<close>

section \<open>Eligibility\<close>

definition adaptation_rule_ok :: "adaptation_rule \<Rightarrow> bool" where
  "adaptation_rule_ok r \<longleftrightarrow>
     \<not> blank (ar_id r) \<and> ar_max_applications r \<noteq> 0 \<and> directive_validate (ar_directive r) = Ok ()
   \<and> \<not> blank (ar_rationale r) \<and> ar_guard r = (ar_condition r \<noteq> None)"

definition pipeline_ok :: "adaptive_pipeline \<Rightarrow> bool" where
  "pipeline_ok rules \<longleftrightarrow>
     bmap_ok rules \<and> list_all (\<lambda>(i, r). i = ar_id r \<and> adaptation_rule_ok r) rules"

text \<open>A rule may win on an outcome: its selector and condition hold on evidence of the outcome, and no limit or suppression is in its way.\<close>

definition may_win ::
  "outcome \<Rightarrow> knowledge_snapshot \<Rightarrow> adaptation_ledger \<Rightarrow> adaptation_limits \<Rightarrow> string list \<Rightarrow> adaptation_rule \<Rightarrow> bool" where
  "may_win oc sn ledger limits suppressed r \<longleftrightarrow>
     oc_status oc \<in> os_statuses (ar_selector r) \<and> oc_stage oc \<in> os_stages (ar_selector r)
   \<and> (\<forall>c. ar_condition r = Some c \<longrightarrow> holds sn c \<and> support sn c \<inter> set (oc_evidence_ids oc) \<noteq> {})
   \<and> count_of (lg_rule_applications ledger) (ar_id r) < ar_max_applications r
   \<and> (\<forall>a. ar_directive r = ScheduleAction a \<longrightarrow>
        count_of (lg_action_schedules ledger) a < al_max_action_schedules limits)
   \<and> (\<forall>a. repeated_action_id (ar_directive r) (oc_action_id oc) = Some a \<longrightarrow>
        a \<notin> set suppressed \<and> a \<notin> set (lg_suppressed ledger))"

lemma adaptation_rule_new_ok: "adaptation_rule_new i sel p c d why n = Ok r \<Longrightarrow> adaptation_rule_ok r"
  by (auto simp: adaptation_rule_new_def adaptation_rule_ok_def adaptive_non_empty_def res_simps split: if_splits)

lemma pipeline_ok_member:
  assumes "pipeline_ok rules" and "map_of rules i = Some r"
  shows "ar_id r = i" and "adaptation_rule_ok r" and "r \<in> set (map snd rules)"
  using assms map_of_SomeD [OF assms(2)] by (force simp: pipeline_ok_def list_all_iff)+

lemma pipeline_ok_lookup:
  assumes "pipeline_ok rules" and "r \<in> set (map snd rules)"
  shows "map_of rules (ar_id r) = Some r"
proof -
  have "(ar_id r, r) \<in> set rules" using assms by (force simp: pipeline_ok_def list_all_iff)
  then show ?thesis using assms(1) by (simp add: pipeline_ok_def bmap_ok_distinct)
qed

lemma pipeline_ok_register:
  assumes "pipeline_ok rules" and "adaptation_rule_ok r"
  shows "pipeline_ok (snd (adaptive_register r rules))"
proof (cases "map_of rules (ar_id r)")
  case None
  have "\<forall>x \<in> set (bmap_insert (ar_id r) r rules). case x of (i, r) \<Rightarrow> i = ar_id r \<and> adaptation_rule_ok r"
    using assms set_bmap_insert_subset [of "ar_id r" r rules]
    unfolding pipeline_ok_def list_all_iff by blast
  with None assms show ?thesis
    by (simp add: adaptive_register_def pipeline_ok_def list_all_iff bmap_ok_insert)
next
  case (Some x)
  then show ?thesis using assms by (simp add: adaptive_register_def)
qed

lemma scheduled_action_iff: "scheduled_action_id d = Some a \<longleftrightarrow> d = ScheduleAction a"
  by (cases d) auto

lemma evaluate_adaptation_Ok:
  assumes "evaluate_adaptation oc sn ledger limits suppressed r = Ok e"
  shows "ae_rule_id e = ar_id r" and "ae_eligible e \<longleftrightarrow> may_win oc sn ledger limits suppressed r"
    and "\<not> ae_selected e"
proof -
  show "ae_rule_id e = ar_id r" and "\<not> ae_selected e"
    using assms by (auto simp: evaluate_adaptation_def Let_def res_simps split: if_splits)
  have limits: "(case scheduled_action_id (ar_directive r) of None \<Rightarrow> False
      | Some a \<Rightarrow> al_max_action_schedules limits \<le> count_of (lg_action_schedules ledger) a) \<longleftrightarrow>
      (\<exists>a. ar_directive r = ScheduleAction a \<and> al_max_action_schedules limits \<le> count_of (lg_action_schedules ledger) a)"
    by (auto simp: scheduled_action_iff split: option.split)
  have blocked: "(case repeated_action_id (ar_directive r) (oc_action_id oc) of None \<Rightarrow> False
      | Some a \<Rightarrow> a \<in> set suppressed \<or> a \<in> set (lg_suppressed ledger)) \<longleftrightarrow>
      (\<exists>a. repeated_action_id (ar_directive r) (oc_action_id oc) = Some a \<and>
        (a \<in> set suppressed \<or> a \<in> set (lg_suppressed ledger)))"
    by (auto split: option.split)
  show "ae_eligible e \<longleftrightarrow> may_win oc sn ledger limits suppressed r"
  proof (cases "outcome_selector_matches (ar_selector r) oc")
    case False
    then show ?thesis
      using assms by (auto simp: evaluate_adaptation_def Let_def may_win_def outcome_selector_matches_def)
  next
    case True
    show ?thesis
    proof (cases "ar_condition r")
      case None
      with True assms show ?thesis
        unfolding evaluate_adaptation_def Let_def limits blocked
        by (auto simp: may_win_def outcome_selector_matches_def not_le)
    next
      case (Some c)
      with True assms obtain t where t: "evaluate_node sn c = Ok t"
        and e: "ae_eligible e \<longleftrightarrow> tr_matched t \<and> set (tr_evidence_ids t) \<inter> set (oc_evidence_ids oc) \<noteq> {}
          \<and> count_of (lg_rule_applications ledger) (ar_id r) < ar_max_applications r
          \<and> \<not> (\<exists>a. ar_directive r = ScheduleAction a \<and> al_max_action_schedules limits \<le> count_of (lg_action_schedules ledger) a)
          \<and> \<not> (\<exists>a. repeated_action_id (ar_directive r) (oc_action_id oc) = Some a \<and>
               (a \<in> set suppressed \<or> a \<in> set (lg_suppressed ledger)))"
        unfolding evaluate_adaptation_def Let_def limits blocked
        by (auto simp: res_simps not_le split: if_splits)
      from evaluate_node_trace_ok [OF t] have "tr_matched t \<longleftrightarrow> holds sn c" "set (tr_evidence_ids t) = support sn c"
        by (simp_all add: trace_ok_def)
      with e True Some show ?thesis
        by (auto simp: may_win_def outcome_selector_matches_def not_le)
    qed
  qed
qed

lemma evaluate_node_not_Panic: "evaluate_node sn e \<noteq> Panic"
  using evaluate_node_defined by blast

lemma evaluate_adaptation_not_Panic: "evaluate_adaptation oc sn ledger limits suppressed r \<noteq> Panic"
  using evaluate_node_not_Panic [of sn]
  by (auto simp: evaluate_adaptation_def Let_def res_simps split: option.split)

section \<open>Decisions\<close>

text \<open>The candidates of a decision are the rules that may win.\<close>

lemma evaluations_candidates:
  assumes "list_all2 (\<lambda>r e. evaluate_adaptation oc sn ledger limits suppressed r = Ok e) rs es"
  shows "map ae_rule_id (filter ae_eligible es) = map ar_id (filter (may_win oc sn ledger limits suppressed) rs)"
  using assms by (induction) (auto simp: evaluate_adaptation_Ok)

lemma candidates_registered:
  assumes "pipeline_ok rules"
  shows "list_all (\<lambda>i. map_of rules i \<noteq> None) (map ar_id (filter P (map snd rules)))"
  using pipeline_ok_lookup [OF assms] by (auto simp: list_all_iff)

definition eligible_ids ::
  "adaptive_pipeline \<Rightarrow> outcome \<Rightarrow> knowledge_snapshot \<Rightarrow> adaptation_ledger \<Rightarrow> adaptation_limits \<Rightarrow> string list \<Rightarrow> string set" where
  "eligible_ids rules oc sn ledger limits suppressed =
     {i. \<exists>r. map_of rules i = Some r \<and> may_win oc sn ledger limits suppressed r}"

lemma eligible_ids_eq:
  assumes "pipeline_ok rules"
  shows "set (map ar_id (filter (may_win oc sn ledger limits suppressed) (map snd rules))) =
    eligible_ids rules oc sn ledger limits suppressed"
proof (intro set_eqI iffI)
  fix i
  assume "i \<in> eligible_ids rules oc sn ledger limits suppressed"
  then obtain r where "map_of rules i = Some r" "may_win oc sn ledger limits suppressed r"
    by (auto simp: eligible_ids_def)
  then show "i \<in> set (map ar_id (filter (may_win oc sn ledger limits suppressed) (map snd rules)))"
    using pipeline_ok_member [OF assms, of i r] by force
next
  fix i
  assume "i \<in> set (map ar_id (filter (may_win oc sn ledger limits suppressed) (map snd rules)))"
  then obtain r where "r \<in> set (map snd rules)" "may_win oc sn ledger limits suppressed r" "i = ar_id r" by auto
  then show "i \<in> eligible_ids rules oc sn ledger limits suppressed"
    using pipeline_ok_lookup [OF assms, of r] by (auto simp: eligible_ids_def)
qed

lemma select_adaptation_exact:
  assumes "pipeline_ok rules"
    and "list_all2 (\<lambda>r e. evaluate_adaptation oc sn ledger limits suppressed r = Ok e) (map snd rules) es"
  shows "\<exists>sel. select_adaptation rules es = Ok sel \<and>
    (case sel of
       None \<Rightarrow> eligible_ids rules oc sn ledger limits suppressed = {}
     | Some i \<Rightarrow> adaptation_choice.is_best rules (eligible_ids rules oc sn ledger limits suppressed) i)"
proof -
  let ?c = "map ar_id (filter (may_win oc sn ledger limits suppressed) (map snd rules))"
  have "select_adaptation rules es = Ok (case sort_by (adaptation_before rules) ?c of [] \<Rightarrow> None | i # _ \<Rightarrow> Some i)"
    unfolding select_adaptation_def evaluations_candidates [OF assms(2)] Let_def
    using candidates_registered [OF assms(1)] by simp
  moreover have "eligible_ids rules oc sn ledger limits suppressed = {}" if "sort_by (adaptation_before rules) ?c = []"
    using that unfolding adaptation_choice.none_iff_empty eligible_ids_eq [OF assms(1), symmetric] by simp
  moreover have "adaptation_choice.is_best rules (eligible_ids rules oc sn ledger limits suppressed) i"
    if "sort_by (adaptation_before rules) ?c = i # rest" for i rest
    using adaptation_choice.first_best [OF that] eligible_ids_eq [OF assms(1)] by simp
  ultimately show ?thesis by (cases "sort_by (adaptation_before rules) ?c") simp_all
qed

lemma decide_cases:
  assumes "pipeline_ok rules" and "decide_with_suppressed_actions rules oc sn ledger limits suppressed = Ok d"
  shows "ad_sequence d = lg_transitions ledger \<and> ad_source_action_id d = oc_action_id oc
    \<and> (if al_max_transitions limits \<le> lg_transitions ledger
       then ad_transition_limit_reached d \<and> ad_directive d = Halt \<and> ad_selected_rule_id d = None
       else \<not> ad_transition_limit_reached d \<and>
         (case ad_selected_rule_id d of
            None \<Rightarrow> eligible_ids rules oc sn ledger limits suppressed = {}
              \<and> ad_directive d = fst (adaptive_fallback oc)
          | Some i \<Rightarrow> adaptation_choice.is_best rules (eligible_ids rules oc sn ledger limits suppressed) i
              \<and> (\<exists>r. map_of rules i = Some r \<and> ad_directive d = ar_directive r \<and> ad_rationale d = ar_rationale r)))"
proof (cases "al_max_transitions limits \<le> lg_transitions ledger")
  case True
  with assms(2) show ?thesis by (auto simp: decide_with_suppressed_actions_def res_simps)
next
  case False
  with assms(2) obtain es sel where
    es: "list_all2 (\<lambda>r e. evaluate_adaptation oc sn ledger limits suppressed r = Ok e) (map snd rules) es"
    and sel: "select_adaptation rules es = Ok sel"
    and d: "ad_sequence d = lg_transitions ledger" "ad_source_action_id d = oc_action_id oc"
      "\<not> ad_transition_limit_reached d" "ad_selected_rule_id d = sel"
      "ad_directive d = fst (adaptive_directive rules oc sel)" "ad_rationale d = snd (adaptive_directive rules oc sel)"
    by (auto simp: decide_with_suppressed_actions_def res_simps Let_def collect_res_Ok_iff)
  from select_adaptation_exact [OF assms(1) es] sel have best: "case sel of
      None \<Rightarrow> eligible_ids rules oc sn ledger limits suppressed = {}
    | Some i \<Rightarrow> adaptation_choice.is_best rules (eligible_ids rules oc sn ledger limits suppressed) i" by auto
  show ?thesis
  proof (cases sel)
    case None
    with False d best show ?thesis by (simp add: adaptive_directive_def)
  next
    case (Some i)
    with best obtain r where "map_of rules i = Some r"
      by (auto simp: adaptation_choice.is_best_def eligible_ids_def)
    with False d best Some show ?thesis by (simp add: adaptive_directive_def)
  qed
qed

lemma decide_not_Panic:
  assumes "pipeline_ok rules"
  shows "decide_with_suppressed_actions rules oc sn ledger limits suppressed \<noteq> Panic"
proof -
  have check: "adaptive_check_evidence ids known \<noteq> Panic" for ids known
    by (induction ids) auto
  have "collect_res (evaluate_adaptation oc sn ledger limits suppressed) rs \<noteq> Panic" for rs
    using collect_res_Panic evaluate_adaptation_not_Panic by blast
  moreover have "select_adaptation rules es \<noteq> Panic"
    if "collect_res (evaluate_adaptation oc sn ledger limits suppressed) (map snd rules) = Ok es" for es
    using select_adaptation_exact [OF assms] that by (force simp: collect_res_Ok_iff)
  ultimately show ?thesis
    by (auto simp: decide_with_suppressed_actions_def res_simps adaptive_validate_snapshot_def check Let_def)
qed

section \<open>The ledger\<close>

definition counters_ok :: "nat \<Rightarrow> counters \<Rightarrow> bool" where
  "counters_ok t m \<longleftrightarrow>
     bmap_ok m \<and> list_all (\<lambda>(i, n). \<not> blank i \<and> n \<noteq> 0) m \<and> sum_list (map (\<lambda>(i, n). unat n) m) \<le> t"

definition ledger_ok :: "adaptation_ledger \<Rightarrow> bool" where
  "ledger_ok l \<longleftrightarrow>
     counters_ok (unat (lg_transitions l)) (lg_rule_applications l)
   \<and> counters_ok (unat (lg_transitions l)) (lg_action_schedules l)
   \<and> bset_ok (lg_suppressed l) \<and> \<not> list_ex blank (lg_suppressed l)
   \<and> length (lg_suppressed l) \<le> unat (lg_transitions l)"

definition ledger_within :: "adaptive_pipeline \<Rightarrow> adaptation_limits \<Rightarrow> adaptation_ledger \<Rightarrow> bool" where
  "ledger_within rules limits l \<longleftrightarrow>
     lg_transitions l \<le> al_max_transitions limits
   \<and> (\<forall>i r. map_of rules i = Some r \<longrightarrow> count_of (lg_rule_applications l) i \<le> ar_max_applications r)
   \<and> (\<forall>a. count_of (lg_action_schedules l) a \<le> al_max_action_schedules limits)"

lemma ledger_ok_new: "ledger_ok ledger_new"
  by (simp add: ledger_ok_def ledger_new_def counters_ok_def bmap_ok_def)

lemma ledger_within_new: "ledger_within rules limits ledger_new"
  by (simp add: ledger_within_def ledger_new_def count_of_def)

lemma count_of_insert: "count_of (bmap_insert i n m) j = (if j = i then n else count_of m j)"
  by (simp add: count_of_def)

lemma increment_Ok: "count_of m i < bound \<Longrightarrow> increment i m = Ok (bmap_insert i (count_of m i + 1) m)"
proof -
  assume "count_of m i < bound"
  then have "unat (count_of m i) < unat bound" by (simp add: word_less_nat_alt)
  then have "unat (count_of m i) + unat (1 :: u16) < 2 ^ LENGTH(16)" using unat_less_exp [of bound] by simp
  then show ?thesis unfolding increment_def checked_add_def no_overflow_iff by simp
qed

lemma unat_count_Suc: "count_of m i < bound \<Longrightarrow> unat (count_of m i + 1) = unat (count_of m i) + 1"
  using unat_less_exp [of bound] by (subst unat_add_exact) (simp_all add: word_less_nat_alt)

lemma sum_bmap_insert:
  "bmap_ok m \<Longrightarrow>
   sum_list (map (\<lambda>(i, n). unat n) (bmap_insert i n m)) + unat (count_of m i) =
   sum_list (map (\<lambda>(i, n). unat n) m) + unat n"
proof (induction m)
  case (Cons x m)
  obtain j k where x: "x = (j, k)" by (cases x)
  have ok: "bmap_ok m" and larger: "\<forall>l \<in> fst ` set m. j < l" using Cons.prems by (auto simp: x bmap_ok_def)
  have "map_of m i = None" if "i \<le> j" using larger that by (auto simp: map_of_eq_None_iff)
  with Cons.IH [OF ok] show ?case by (auto simp: x count_of_def)
qed (simp add: count_of_def)

lemma counters_ok_mono: "counters_ok s m \<Longrightarrow> s \<le> t \<Longrightarrow> counters_ok t m"
  by (auto simp: counters_ok_def)

lemma counters_ok_increment:
  assumes "counters_ok t m" and "\<not> blank i" and "count_of m i < bound"
  shows "counters_ok (Suc t) (bmap_insert i (count_of m i + 1) m)"
proof -
  have "unat (count_of m i + 1) = unat (count_of m i) + 1" by (rule unat_count_Suc [OF assms(3)])
  then have "sum_list (map (\<lambda>(i, n). unat n) (bmap_insert i (count_of m i + 1) m)) =
      sum_list (map (\<lambda>(i, n). unat n) m) + 1" and "count_of m i + 1 \<noteq> 0"
    using sum_bmap_insert [of m i "count_of m i + 1"] assms(1) by (auto simp: counters_ok_def)
  then show ?thesis
    using assms set_bmap_insert_subset [of i "count_of m i + 1" m]
    unfolding counters_ok_def list_all_iff by (auto simp: bmap_ok_insert)
qed

text \<open>What recording does to a map of counters.\<close>

definition bumped :: "string option \<Rightarrow> counters \<Rightarrow> counters" where
  "bumped sel m = (case sel of None \<Rightarrow> m | Some i \<Rightarrow> bmap_insert i (count_of m i + 1) m)"

lemma bump_counters:
  assumes "counters_ok t m" and "\<And>i. sel = Some i \<Longrightarrow> \<not> blank i \<and> count_of m i < bound i"
  shows "(case sel of None \<Rightarrow> Ok m | Some i \<Rightarrow> increment i m) = Ok (bumped sel m)"
    and "counters_ok (Suc t) (bumped sel m)"
    and "\<And>j. count_of m j \<le> bound j \<Longrightarrow> count_of (bumped sel m) j \<le> bound j"
proof -
  show "(case sel of None \<Rightarrow> Ok m | Some i \<Rightarrow> increment i m) = Ok (bumped sel m)"
    using assms(2) increment_Ok by (auto simp: bumped_def split: option.split)
  show "counters_ok (Suc t) (bumped sel m)"
    using assms counters_ok_increment counters_ok_mono [of t m "Suc t"]
    by (auto simp: bumped_def split: option.split)
  show "count_of (bumped sel m) j \<le> bound j" if "count_of m j \<le> bound j" for j
  proof (cases "sel = Some j")
    case True
    then have less: "count_of m j < bound j" using assms(2) by simp
    then have "unat (count_of m j + 1) \<le> unat (bound j)"
      using unat_count_Suc [OF less] by (simp add: word_less_nat_alt)
    with True show ?thesis by (simp add: bumped_def count_of_insert word_le_nat_alt)
  next
    case False
    with that show ?thesis by (auto simp: bumped_def count_of_insert split: option.split)
  qed
qed

lemma length_bset_insert_le: "length (bset_insert x s) \<le> Suc (length s)"
  by (induction s) auto

text \<open>What a decision counts: a rule that may win, and a scheduled action below its limit.\<close>

lemma decision_counts:
  assumes "pipeline_ok rules" and "decide_with_suppressed_actions rules oc sn l limits suppressed = Ok d"
    and "\<not> al_max_transitions limits \<le> lg_transitions l"
  shows "ad_selected_rule_id d = Some i \<Longrightarrow>
      \<exists>r. map_of rules i = Some r \<and> \<not> blank i \<and> count_of (lg_rule_applications l) i < ar_max_applications r"
    and "scheduled_action_id (ad_directive d) = Some a \<Longrightarrow>
      \<not> blank a \<and> count_of (lg_action_schedules l) a < al_max_action_schedules limits"
proof -
  have fallback: "fst (adaptive_fallback oc) \<noteq> ScheduleAction a" for a
    by (simp add: adaptive_fallback_def split: outcome_status.split)
  have winner: "\<exists>r. map_of rules i = Some r \<and> may_win oc sn l limits suppressed r \<and> ad_directive d = ar_directive r"
    if "ad_selected_rule_id d = Some i" for i
    using decide_cases [OF assms(1,2)] assms(3) that by (auto simp: adaptation_choice.is_best_def eligible_ids_def)
  show "\<exists>r. map_of rules i = Some r \<and> \<not> blank i \<and> count_of (lg_rule_applications l) i < ar_max_applications r"
    if "ad_selected_rule_id d = Some i"
    using winner [OF that] pipeline_ok_member [OF assms(1)] by (auto simp: may_win_def adaptation_rule_ok_def)
  show "\<not> blank a \<and> count_of (lg_action_schedules l) a < al_max_action_schedules limits"
    if "scheduled_action_id (ad_directive d) = Some a"
  proof (cases "ad_selected_rule_id d")
    case None
    with decide_cases [OF assms(1,2)] assms(3) that fallback show ?thesis by (simp add: scheduled_action_iff)
  next
    case (Some i)
    from winner [OF Some] that obtain r where "map_of rules i = Some r" "may_win oc sn l limits suppressed r"
      "ar_directive r = ScheduleAction a" by (auto simp: scheduled_action_iff)
    with pipeline_ok_member(2) [OF assms(1), of i r] show ?thesis
      by (auto simp: may_win_def adaptation_rule_ok_def split: if_splits)
  qed
qed

text \<open>A decision is always recordable, and recording it keeps the ledger within its limits.\<close>

lemma record_decision:
  assumes rules: "pipeline_ok rules" and oc: "outcome_ok oc" and l: "ledger_ok l" "ledger_within rules limits l"
    and d: "decide_with_suppressed_actions rules oc sn l limits suppressed = Ok d"
  shows "\<exists>l'. ledger_record d l = (Ok (), l') \<and> ledger_ok l' \<and> ledger_within rules limits l'
    \<and> (if al_max_transitions limits \<le> lg_transitions l then l' = l
       else unat (lg_transitions l') = Suc (unat (lg_transitions l)) \<and> set (lg_suppressed l) \<subseteq> set (lg_suppressed l'))"
proof (cases "al_max_transitions limits \<le> lg_transitions l")
  case True
  with decide_cases [OF rules d] l show ?thesis by (simp add: ledger_record_def)
next
  case False
  note facts = decide_cases [OF rules d]
  note counts = decision_counts [OF rules d False]
  have less: "lg_transitions l < al_max_transitions limits" using False by simp
  have Suc_t: "unat (lg_transitions l + 1) = Suc (unat (lg_transitions l))"
    using less unat_less_exp [of "al_max_transitions limits"]
    by (subst unat_add_exact) (simp_all add: word_less_nat_alt)
  have add_t: "checked_add (lg_transitions l) 1 = Some (lg_transitions l + 1)"
    using less unat_less_exp [of "al_max_transitions limits"]
    unfolding checked_add_def no_overflow_iff by (simp add: word_less_nat_alt)
  let ?bound = "\<lambda>i. case map_of rules i of None \<Rightarrow> - 1 | Some r \<Rightarrow> ar_max_applications r"
  have apps: "\<not> blank i \<and> count_of (lg_rule_applications l) i < ?bound i" if "ad_selected_rule_id d = Some i" for i
    using counts(1) [OF that] by auto
  note bump_apps = bump_counters [OF l(1) [unfolded ledger_ok_def, THEN conjunct1] apps]
  note bump_scheds = bump_counters [OF l(1) [unfolded ledger_ok_def, THEN conjunct2, THEN conjunct1] counts(2)]
  let ?sup = "if ad_directive d = Replan True then bset_insert (ad_source_action_id d) (lg_suppressed l) else lg_suppressed l"
  let ?l = "\<lparr>lg_transitions = lg_transitions l + 1,
      lg_rule_applications = bumped (ad_selected_rule_id d) (lg_rule_applications l),
      lg_action_schedules = bumped (scheduled_action_id (ad_directive d)) (lg_action_schedules l),
      lg_suppressed = ?sup\<rparr>"
  have "ledger_record d l = (Ok (), ?l)"
    using facts False add_t bump_apps(1) bump_scheds(1) by (simp add: ledger_record_def)
  moreover have "bset_ok ?sup \<and> \<not> list_ex blank ?sup \<and> length ?sup \<le> Suc (unat (lg_transitions l))"
    using l(1) oc facts length_bset_insert_le [of "ad_source_action_id d" "lg_suppressed l"]
    by (auto simp: ledger_ok_def outcome_ok_def list_ex_iff intro: bset_ok_insert)
  then have "ledger_ok ?l" using Suc_t bump_apps(2) bump_scheds(2) by (simp add: ledger_ok_def)
  moreover have "ledger_within rules limits ?l"
  proof -
    have "count_of (bumped (ad_selected_rule_id d) (lg_rule_applications l)) i \<le> ar_max_applications r"
      if "map_of rules i = Some r" for i r
      using bump_apps(3) [where j = i] that l(2) by (simp add: ledger_within_def)
    moreover have "lg_transitions l + 1 \<le> al_max_transitions limits"
      using less Suc_t by (simp add: word_less_nat_alt word_le_nat_alt)
    ultimately show ?thesis using bump_scheds(3) l(2) by (simp add: ledger_within_def)
  qed
  ultimately show ?thesis using False Suc_t by auto
qed

section \<open>Sessions\<close>

inductive ledger_step :: "adaptive_pipeline \<Rightarrow> adaptation_limits \<Rightarrow> adaptation_ledger \<Rightarrow> adaptation_ledger \<Rightarrow> bool"
  for rules limits where
  decided: "outcome_ok oc \<Longrightarrow>
    decide_and_record_with_suppressed_actions rules oc sn l limits suppressed = (r, l') \<Longrightarrow>
    ledger_step rules limits l l'"

inductive_cases ledger_stepE: "ledger_step rules limits l l'"

lemma decide_and_record_keeps:
  assumes "pipeline_ok rules" and "outcome_ok oc" and "ledger_ok l" and "ledger_within rules limits l"
    and "decide_and_record_with_suppressed_actions rules oc sn l limits suppressed = (r, l')"
  shows "ledger_ok l' \<and> ledger_within rules limits l' \<and> lg_transitions l \<le> lg_transitions l'
    \<and> set (lg_suppressed l) \<subseteq> set (lg_suppressed l') \<and> r \<noteq> Panic
    \<and> (\<forall>e. r = Err e \<longrightarrow> l' = l)
    \<and> (\<forall>d. r = Ok d \<longrightarrow> decide_with_suppressed_actions rules oc sn l limits suppressed = Ok d
        \<and> (if al_max_transitions limits \<le> lg_transitions l then l' = l \<and> ad_directive d = Halt
           else unat (lg_transitions l') = Suc (unat (lg_transitions l))))"
proof (cases "decide_with_suppressed_actions rules oc sn l limits suppressed")
  case (Ok d)
  obtain k where "ledger_record d l = (Ok (), k)" "ledger_ok k" "ledger_within rules limits k"
    and k: "if al_max_transitions limits \<le> lg_transitions l then k = l
       else unat (lg_transitions k) = Suc (unat (lg_transitions l)) \<and> set (lg_suppressed l) \<subseteq> set (lg_suppressed k)"
    using record_decision [OF assms(1-4) Ok] by blast
  then have "r = Ok d" and "l' = k"
    using assms(5) Ok by (simp_all add: decide_and_record_with_suppressed_actions_def)
  moreover have "ad_directive d = Halt" if "al_max_transitions limits \<le> lg_transitions l"
    using decide_cases [OF assms(1) Ok] that by simp
  ultimately show ?thesis
    using k Ok \<open>ledger_ok k\<close> \<open>ledger_within rules limits k\<close> by (auto simp: word_le_nat_alt split: if_splits)
next
  case (Err e)
  then show ?thesis using assms(3-5) by (auto simp: decide_and_record_with_suppressed_actions_def)
next
  case Panic
  then show ?thesis using decide_not_Panic [OF assms(1)] by blast
qed

interpretation ledger_machine: forward_machine "ledger_step rules limits"
    "\<lambda>l. pipeline_ok rules \<and> ledger_ok l \<and> ledger_within rules limits l"
    "\<lambda>l l'. lg_transitions l \<le> lg_transitions l' \<and> set (lg_suppressed l) \<subseteq> set (lg_suppressed l')"
  for rules limits
  by unfold_locales (auto elim!: ledger_stepE dest: decide_and_record_keeps)

lemma counter_total_exact:
  assumes "counters_ok t m" and "t < 2 ^ 32"
  shows "unat (counter_total m) = sum_list (map (\<lambda>(i, n). unat n) m)"
proof -
  have eq: "map unat (map (\<lambda>(i, n). ucast n :: u64) m) = map (\<lambda>(i, n). unat n) m"
    by (auto simp: unat_ucast_widen)
  have "sum_list (map unat (map (\<lambda>(i, n). ucast n :: u64) m)) < 2 ^ LENGTH(64)"
    using assms unfolding eq by (simp add: counters_ok_def)
  from unat_sum_list [OF this] show ?thesis unfolding eq counter_total_def .
qed

lemma ledger_decodes:
  assumes "ledger_ok l"
  shows "ledger_from_wire l = Ok l"
proof -
  have small: "unat (lg_transitions l) < 2 ^ 32" using unat_less_exp [of "lg_transitions l"] by simp
  have totals: "unat (counter_total (lg_rule_applications l)) \<le> unat (lg_transitions l)"
    "unat (counter_total (lg_action_schedules l)) \<le> unat (lg_transitions l)"
    using assms counter_total_exact [OF _ small] by (simp_all add: ledger_ok_def counters_ok_def)
  have "unat (word_of_nat (length (lg_suppressed l)) :: u64) = length (lg_suppressed l)"
    using assms small by (intro unat_of_nat_exact) (simp add: ledger_ok_def)
  with totals assms show ?thesis
    by (auto simp: ledger_from_wire_def ledger_ok_def counters_ok_def validate_counter_map_def list_ex_iff
        list_all_iff Let_def word_less_nat_alt unat_ucast_widen)
qed


definition sample_adaptation :: adaptation_rule where
  "sample_adaptation =
     \<lparr>ar_id = ''retry'', ar_selector = \<lparr>os_statuses = {ConfirmedNegative}, os_stages = {ActiveStage}\<rparr>,
      ar_priority = 5, ar_condition = Some sample_condition, ar_guard = True, ar_directive = ScheduleAction ''b'',
      ar_rationale = ''w'', ar_max_applications = 1\<rparr>"

definition sample_pipeline :: adaptive_pipeline where
  "sample_pipeline = snd (adaptive_register sample_adaptation [])"

definition sample_limits :: adaptation_limits where
  "sample_limits = \<lparr>al_max_transitions = 2, al_max_action_schedules = 1\<rparr>"

definition sample_negative :: outcome where
  "sample_negative = sample_outcome\<lparr>oc_evidence_ids := [''a'']\<rparr>"

definition sample_ledger :: adaptation_ledger where
  "sample_ledger =
     snd (decide_and_record_with_suppressed_actions sample_pipeline sample_negative sample_snapshot
       ledger_new sample_limits [])"

lemma sample_pipeline_ok: "pipeline_ok sample_pipeline"
  unfolding sample_pipeline_def
  by (rule pipeline_ok_register) (simp_all add: pipeline_ok_def bmap_ok_def, code_simp)

lemma sample_ledger_reached: "(ledger_step sample_pipeline sample_limits)\<^sup>*\<^sup>* ledger_new sample_ledger"
proof -
  have "outcome_ok sample_negative" by code_simp
  then show ?thesis
    unfolding sample_ledger_def by (intro r_into_rtranclp) (rule decided [OF _ prod.collapse [symmetric]])
qed


text \<open>The rule that outranks every other rule that may win.\<close>

definition wins ::
  "adaptive_pipeline \<Rightarrow> outcome \<Rightarrow> knowledge_snapshot \<Rightarrow> adaptation_ledger \<Rightarrow> adaptation_limits \<Rightarrow> string list \<Rightarrow>
   string \<Rightarrow> adaptation_rule \<Rightarrow> bool" where
  "wins rules oc sn l limits suppressed i r \<longleftrightarrow>
     map_of rules i = Some r \<and> may_win oc sn l limits suppressed r
   \<and> (\<forall>j r'. map_of rules j = Some r' \<and> may_win oc sn l limits suppressed r' \<longrightarrow>
        ar_priority r' < ar_priority r \<or> ar_priority r' = ar_priority r \<and> i \<le> j)"

lemma best_iff_wins:
  "adaptation_choice.is_best rules (eligible_ids rules oc sn l limits suppressed) i \<longleftrightarrow>
     (\<exists>r. wins rules oc sn l limits suppressed i r)"
proof -
  have prio: "adaptation_priority rules j = ar_priority r" if "map_of rules j = Some r" for j r
    using that by (simp add: adaptation_priority_def)
  show ?thesis
    unfolding adaptation_choice.is_best_def eligible_ids_def wins_def adaptation_before_def
    by (force simp: prio)
qed

text \<open>
  C14. The adaptive decision is exact. Within the transition budget the selected rule is the one of
  highest priority, then least identity, among the rules whose selector accepts the outcome, whose
  condition holds on evidence the outcome cites, whose application and scheduling limits are not
  reached and whose repeated action is not suppressed; its directive is emitted. If no rule may win
  the status decides: success completes, a negative conclusion suppresses its action and replans, a
  passive inconclusive result asks for active verification, anything else for a human. With the
  budget spent the decision is to halt. The decision never panics.
\<close>

theorem adaptive_decision_exact:
  assumes "pipeline_ok rules"
  shows "case decide_with_suppressed_actions rules oc sn l limits suppressed of
      Ok d \<Rightarrow>
        if al_max_transitions limits \<le> lg_transitions l
        then ad_directive d = Halt \<and> ad_selected_rule_id d = None \<and> ad_transition_limit_reached d
        else (\<forall>i r. wins rules oc sn l limits suppressed i r \<longrightarrow>
               ad_selected_rule_id d = Some i \<and> ad_directive d = ar_directive r \<and> ad_rationale d = ar_rationale r)
          \<and> ((\<forall>i r. \<not> wins rules oc sn l limits suppressed i r) \<longrightarrow>
               ad_selected_rule_id d = None
             \<and> ad_directive d =
                 (if oc_status oc = Success then Complete
                  else if oc_status oc = FalsePositive \<or> oc_status oc = ConfirmedNegative then Replan True
                  else if oc_status oc \<noteq> Blocked \<and> oc_stage oc = PassiveStage then AwaitActiveVerification
                  else AwaitHumanReview))
    | Err e \<Rightarrow> True
    | Panic \<Rightarrow> False"
proof (cases "decide_with_suppressed_actions rules oc sn l limits suppressed")
  case (Ok d)
  note facts = decide_cases [OF assms Ok]
  have fallback: "fst (adaptive_fallback oc) =
      (if oc_status oc = Success then Complete
       else if oc_status oc = FalsePositive \<or> oc_status oc = ConfirmedNegative then Replan True
       else if oc_status oc \<noteq> Blocked \<and> oc_stage oc = PassiveStage then AwaitActiveVerification
       else AwaitHumanReview)"
    by (cases "oc_status oc") (auto simp: adaptive_fallback_def)
  show ?thesis
  proof (cases "ad_selected_rule_id d")
    case None
    have "\<not> wins rules oc sn l limits suppressed i r" if "\<not> al_max_transitions limits \<le> lg_transitions l" for i r
      using facts None that by (auto simp: wins_def eligible_ids_def)
    with facts None Ok fallback show ?thesis by auto
  next
    case (Some i)
    then have within: "\<not> al_max_transitions limits \<le> lg_transitions l" using facts by auto
    with facts Some have best: "adaptation_choice.is_best rules (eligible_ids rules oc sn l limits suppressed) i"
      and "\<exists>r. map_of rules i = Some r \<and> ad_directive d = ar_directive r \<and> ad_rationale d = ar_rationale r" by auto
    then obtain r0 where r0: "map_of rules i = Some r0" "ad_directive d = ar_directive r0" "ad_rationale d = ar_rationale r0"
      by blast
    have selected: "ad_selected_rule_id d = Some j \<and> ad_directive d = ar_directive r \<and> ad_rationale d = ar_rationale r"
      if w: "wins rules oc sn l limits suppressed j r" for j r
    proof -
      have "adaptation_choice.is_best rules (eligible_ids rules oc sn l limits suppressed) j"
        using w best_iff_wins by blast
      then have "j = i" using adaptation_choice.best_unique best by blast
      with w r0(1) have "r = r0" by (simp add: wins_def)
      with \<open>j = i\<close> r0 Some show ?thesis by simp
    qed
    have "\<exists>r. wins rules oc sn l limits suppressed i r" using best best_iff_wins by blast
    with Ok within selected show ?thesis by simp blast
  qed
next
  case Panic
  then show ?thesis using decide_not_Panic [OF assms] by blast
qed simp

lemma adaptive_decision_exact_witness:
  "case decide_with_suppressed_actions sample_pipeline sample_negative sample_snapshot ledger_new sample_limits [] of
     Ok d \<Rightarrow> ad_directive d = ScheduleAction ''b'' | _ \<Rightarrow> False"
proof -
  define run where "run = decide_with_suppressed_actions sample_pipeline sample_negative sample_snapshot
    ledger_new sample_limits []"
  have ok: "is_ok run" unfolding run_def by code_simp
  have rules: "sample_pipeline = [(''retry'', sample_adaptation)]" by code_simp
  have "holds sample_snapshot sample_condition" "''a'' \<in> support sample_snapshot sample_condition"
    by (auto simp: sample_condition_def expression_equals_def expression_exists_def rn_from_def sample_snapshot_def
        matching_ids_layers sample_evidence_def)
  then have "wins sample_pipeline sample_negative sample_snapshot ledger_new sample_limits [] ''retry'' sample_adaptation"
    unfolding wins_def rules
    by (auto simp: may_win_def sample_adaptation_def sample_negative_def sample_outcome_def ledger_new_def
        count_of_def sample_limits_def)
  then show ?thesis
    using adaptive_decision_exact [OF sample_pipeline_ok, where oc = sample_negative and sn = sample_snapshot
        and l = ledger_new and limits = sample_limits and suppressed = "[]"] ok
    unfolding run_def by (auto simp: sample_adaptation_def sample_limits_def ledger_new_def split: res.splits)
qed

lemma standard_policies_ok: "\<exists>rules. with_standard_policies = Ok rules \<and> length rules = 3 \<and> pipeline_ok rules"
proof -
  have "case with_standard_policies of Ok rules \<Rightarrow>
      length rules = 3 \<and> bmap_ok rules \<and> list_all (\<lambda>(i, r). i = ar_id r \<and> adaptation_rule_ok r) rules | _ \<Rightarrow> False"
    by code_simp
  then show ?thesis by (auto simp: pipeline_ok_def split: res.splits)
qed

end
