(* ===== verification/Verification_Properties.thy ===== *)
theory Verification_Properties
  imports Verification Knowledge_Properties
begin

text \<open>
  Laws of verification: exact wire guards of cases and rules, the winner of a registry against a
  reference definition of eligibility, and the safety of applying a report to a knowledge base that
  other threads write.
\<close>

section \<open>Well-formed cases and rules\<close>

definition case_ok :: "verification_case \<Rightarrow> bool" where
  "case_ok c \<longleftrightarrow>
     \<not> blank (vc_id c) \<and> \<not> blank (vc_action_id c) \<and> \<not> blank (vc_hypothesis_id c)
   \<and> vc_guard c = (\<not> vc_applies c)"

definition verifier_ok :: "verification_rule \<Rightarrow> bool" where
  "verifier_ok r \<longleftrightarrow>
     \<not> blank (vr_id r) \<and> \<not> blank (vr_rationale r) \<and> vr_outcome r \<noteq> Unknown
   \<and> (vr_outcome r = ConfirmedNegative \<longrightarrow> vr_stage r = ActiveStage) \<and> vr_confidence r \<noteq> 0
   \<and> (case vr_action_id r of None \<Rightarrow> True | Some a \<Rightarrow> \<not> blank a)
   \<and> (vr_case_correlated r \<longrightarrow> uses_only_evidence (vr_condition r))
   \<and> vr_scope_guard r = scope_guard_for (vr_action_id r) (vr_case_correlated r)"

definition verifiers_ok :: "rule_registry \<Rightarrow> bool" where
  "verifiers_ok rg \<longleftrightarrow>
     bmap_ok (rg_rules rg)
   \<and> list_all (\<lambda>(i, r). i = vr_id r \<and> verifier_ok r \<and> vr_stage r = rg_stage rg) (rg_rules rg)"

lemma verification_non_empty_Ok [res_simps]:
  "verification_non_empty v f = Ok w \<longleftrightarrow> w = v \<and> \<not> blank v"
  by (auto simp: verification_non_empty_def)

lemma verification_non_empty_not_Panic [simp]: "verification_non_empty v f \<noteq> Panic"
  by (simp add: verification_non_empty_def)

lemma verification_case_new_Ok_iff:
  "verification_case_new i s a h = Ok c \<longleftrightarrow>
     c = \<lparr>vc_id = i, vc_subject = s, vc_action_id = a, vc_hypothesis_id = h, vc_payload = None,
          vc_applies = True, vc_guard = False\<rparr> \<and> case_ok c"
  by (auto simp: verification_case_new_def res_simps case_ok_def)

lemma case_ok_updates [simp]:
  "case_ok (case_with_payload_strategy p c) = case_ok c"
  "case_ok c \<Longrightarrow> case_ok (without_hypothesis_transition c)"
  by (simp_all add: case_ok_def case_with_payload_strategy_def without_hypothesis_transition_def)

lemma case_from_wire_ok: "case_from_wire w = Ok c \<Longrightarrow> case_ok c"
  by (auto simp: case_from_wire_def res_simps Let_def verification_case_new_Ok_iff split: if_splits)

lemma case_wire_roundtrip: "case_ok c \<Longrightarrow> case_from_wire (case_to_wire c) = Ok c"
  by (cases c) (auto simp: case_from_wire_def case_to_wire_def res_simps verification_case_new_Ok_iff case_ok_def
      Let_def default_applies_transition_def case_with_payload_strategy_def without_hypothesis_transition_def)

lemma verification_rule_new_Ok_iff:
  "verification_rule_new i stage p cond status conf why = Ok r \<longleftrightarrow>
     r = \<lparr>vr_id = i, vr_stage = stage, vr_priority = p, vr_condition = cond, vr_outcome = status,
          vr_confidence = conf, vr_rationale = why, vr_action_id = None, vr_case_correlated = False,
          vr_scope_guard = None\<rparr> \<and> verifier_ok r"
  by (auto simp: verification_rule_new_def res_simps verifier_ok_def scope_guard_for_def)

lemma scoped_rule_Ok:
  "(case a of None \<Rightarrow> Ok r | Some x \<Rightarrow> scoped_to_action x r) = Ok q \<longleftrightarrow>
     (case a of None \<Rightarrow> q = r | Some x \<Rightarrow> \<not> blank x \<and> q = refresh_scope_guard (r\<lparr>vr_action_id := Some x\<rparr>))"
  by (auto simp: scoped_to_action_def res_simps split: option.split)

lemma verification_rule_from_wire_iff:
  "verification_rule_from_wire w = Ok r \<longleftrightarrow>
     (vr_scope_guard w \<noteq> None \<longrightarrow> vr_scope_guard w = scope_guard_for (vr_action_id w) (vr_case_correlated w))
   \<and> r = refresh_scope_guard w \<and> verifier_ok r"
proof -
  have "and_then (verification_rule_new (vr_id w) (vr_stage w) (vr_priority w) (vr_condition w) (vr_outcome w)
        (vr_confidence w) (vr_rationale w)) (\<lambda>r.
      and_then (case vr_action_id w of None \<Rightarrow> Ok r | Some a \<Rightarrow> scoped_to_action a r) (\<lambda>r.
        if vr_case_correlated w then with_case_correlated_evidence r else Ok r)) = Ok r \<longleftrightarrow>
      r = refresh_scope_guard w \<and> verifier_ok r"
    unfolding and_then_eq_Ok scoped_rule_Ok verification_rule_new_Ok_iff
    by (cases w; cases "vr_action_id w"; cases "vr_case_correlated w")
      (auto simp: with_case_correlated_evidence_def refresh_scope_guard_def verifier_ok_def scope_guard_for_def)
  then show ?thesis by (auto simp: verification_rule_from_wire_def map_err_eq_Ok)
qed

text \<open>
  The wire guards of verification hold. A decoded case satisfies the contract of the constructor
  and its guard field agrees with its transition policy, so a knowledge-only case cannot come back as
  one that may transition its hypothesis: a document without the guard decodes only when the policy
  is the default. Every case and every rule survives serialisation unchanged, and a rule decodes only
  with a consistent scope guard, a reserved status and confidence respected, and case correlation
  over raw evidence alone.
\<close>

theorem verification_wire_guarded:
  "(\<forall>w c. case_from_wire w = Ok c \<longrightarrow>
      case_ok c \<and> (vc_applies c \<longleftrightarrow> wv_guard w \<noteq> Some True) \<and> vc_hypothesis_id c = wv_hypothesis_id w
      \<and> vc_subject c = wv_subject w)
   \<and> (\<forall>c. case_ok c \<longrightarrow> case_from_wire (case_to_wire c) = Ok c)
   \<and> (\<forall>w r. verification_rule_from_wire w = Ok r \<longrightarrow> verifier_ok r
      \<and> r\<lparr>vr_scope_guard := None\<rparr> = w\<lparr>vr_scope_guard := None\<rparr>)
   \<and> (\<forall>r. verifier_ok r \<longrightarrow> verification_rule_from_wire r = Ok r)"
proof (intro conjI allI impI)
  fix w c
  assume w: "case_from_wire w = Ok c"
  show "case_ok c" by (rule case_from_wire_ok [OF w])
  show "vc_applies c \<longleftrightarrow> wv_guard w \<noteq> Some True" and "vc_hypothesis_id c = wv_hypothesis_id w"
    and "vc_subject c = wv_subject w"
    using w by (auto simp: case_from_wire_def res_simps Let_def verification_case_new_Ok_iff
        case_with_payload_strategy_def without_hypothesis_transition_def split: if_splits option.splits)
next
  fix c
  assume "case_ok c"
  then show "case_from_wire (case_to_wire c) = Ok c" by (rule case_wire_roundtrip)
next
  fix w r
  assume "verification_rule_from_wire w = Ok r"
  then show "verifier_ok r" and "r\<lparr>vr_scope_guard := None\<rparr> = w\<lparr>vr_scope_guard := None\<rparr>"
    by (auto simp: verification_rule_from_wire_iff refresh_scope_guard_def)
next
  fix r
  assume "verifier_ok r"
  then show "verification_rule_from_wire r = Ok r"
    by (simp add: verification_rule_from_wire_iff refresh_scope_guard_def verifier_ok_def)
qed

definition sample_case :: verification_case where
  "sample_case =
     \<lparr>vc_id = ''c'', vc_subject = ''s'', vc_action_id = ''a'', vc_hypothesis_id = ''h'', vc_payload = None,
      vc_applies = True, vc_guard = False\<rparr>"

definition sample_verifier :: verification_rule where
  "sample_verifier =
     \<lparr>vr_id = ''v'', vr_stage = PassiveStage, vr_priority = 7, vr_condition = sample_condition,
      vr_outcome = Success, vr_confidence = 900000, vr_rationale = ''w'', vr_action_id = Some ''a'',
      vr_case_correlated = False, vr_scope_guard = Some ActionScope\<rparr>"

lemma sample_case_ok: "case_ok sample_case" by code_simp

lemma sample_verifier_ok: "verifier_ok sample_verifier" by code_simp

section \<open>The winner of a registry\<close>

definition case_scope :: "verification_case \<Rightarrow> knowledge_snapshot \<Rightarrow> verification_rule \<Rightarrow> knowledge_snapshot" where
  "case_scope c sn r = (if vr_case_correlated r then with_evidence_correlation sn (vc_id c) else sn)"

text \<open>A rule may conclude: it is in scope, its condition holds, and an active rule cites evidence outside the baseline.\<close>

definition may_conclude ::
  "verification_stage \<Rightarrow> verification_case \<Rightarrow> knowledge_snapshot \<Rightarrow> evidence_id set \<Rightarrow> verification_rule \<Rightarrow> bool" where
  "may_conclude stage c sn baseline_ids r \<longleftrightarrow>
     (vr_action_id r = None \<or> vr_action_id r = Some (vc_action_id c))
   \<and> holds (case_scope c sn r) (vr_condition r)
   \<and> (stage = PassiveStage \<or> \<not> support (case_scope c sn r) (vr_condition r) \<subseteq> baseline_ids)"

definition concludes ::
  "rule_registry \<Rightarrow> verification_case \<Rightarrow> knowledge_snapshot \<Rightarrow> evidence_id set \<Rightarrow> string \<Rightarrow> verification_rule \<Rightarrow> bool" where
  "concludes rg c sn baseline_ids i r \<longleftrightarrow>
     map_of (rg_rules rg) i = Some r \<and> may_conclude (rg_stage rg) c sn baseline_ids r
   \<and> (\<forall>j r'. map_of (rg_rules rg) j = Some r' \<and> may_conclude (rg_stage rg) c sn baseline_ids r' \<longrightarrow>
        vr_priority r' < vr_priority r
      \<or> vr_priority r' = vr_priority r \<and> (vr_confidence r' < vr_confidence r
          \<or> vr_confidence r' = vr_confidence r \<and> i \<le> j))"

lemma verifiers_ok_member:
  assumes "verifiers_ok rg" and "map_of (rg_rules rg) i = Some r"
  shows "vr_id r = i" and "verifier_ok r" and "vr_stage r = rg_stage rg" and "r \<in> set (map snd (rg_rules rg))"
  using assms map_of_SomeD [OF assms(2)] by (force simp: verifiers_ok_def list_all_iff)+

lemma verifiers_ok_lookup:
  assumes "verifiers_ok rg" and "r \<in> set (map snd (rg_rules rg))"
  shows "map_of (rg_rules rg) (vr_id r) = Some r"
proof -
  have "(vr_id r, r) \<in> set (rg_rules rg)" using assms by (force simp: verifiers_ok_def list_all_iff)
  then show ?thesis using assms(1) by (simp add: verifiers_ok_def bmap_ok_distinct)
qed

lemma verifiers_ok_new [simp]: "verifiers_ok (rule_registry_new stage)"
  by (simp add: verifiers_ok_def rule_registry_new_def bmap_ok_def)

lemma verifiers_ok_register:
  assumes "verifiers_ok rg" and "verifier_ok r"
  shows "verifiers_ok (snd (verifier_register r rg)) \<and> rg_stage (snd (verifier_register r rg)) = rg_stage rg"
proof (cases "vr_stage r = rg_stage rg \<and> map_of (rg_rules rg) (vr_id r) = None")
  case True
  have "\<forall>x \<in> set (bmap_insert (vr_id r) r (rg_rules rg)).
      case x of (i, r) \<Rightarrow> i = vr_id r \<and> verifier_ok r \<and> vr_stage r = rg_stage rg"
    using assms True set_bmap_insert_subset [of "vr_id r" r "rg_rules rg"]
    unfolding verifiers_ok_def list_all_iff by blast
  with True assms show ?thesis
    by (simp add: verifier_register_def verifiers_ok_def list_all_iff bmap_ok_insert)
next
  case False
  then show ?thesis using assms by (auto simp: verifier_register_def split: option.split)
qed

lemma evaluate_verifier_Ok:
  assumes "evaluate_verifier stage c sn baseline_ids r = Ok e"
  shows "ve_rule_id e = vr_id r" and "ve_eligible e \<longleftrightarrow> may_conclude stage c sn baseline_ids r"
    and "set (tr_evidence_ids (ve_condition e)) = support (case_scope c sn r) (vr_condition r)"
    and "bset_ok (tr_evidence_ids (ve_condition e))"
    and "ve_eligible e \<Longrightarrow> tr_evidence_ids (ve_condition e) \<noteq> []"
proof -
  from assms obtain tr where tr: "evaluate_node (case_scope c sn r) (vr_condition r) = Ok tr"
    and cited: "\<not> (tr_matched tr \<and> tr_evidence_ids tr = [])"
    and e: "ve_rule_id e = vr_id r" "ve_condition e = tr"
      "ve_eligible e \<longleftrightarrow> (case vr_action_id r of None \<Rightarrow> True | Some a \<Rightarrow> a = vc_action_id c) \<and> tr_matched tr \<and>
         (stage = PassiveStage \<or> filter (\<lambda>i. i \<notin> baseline_ids) (tr_evidence_ids tr) \<noteq> [])"
    unfolding evaluate_verifier_def Let_def case_scope_def [symmetric]
    by (auto simp: res_simps split: if_splits)
  note ok = evaluate_node_trace_ok [OF tr, unfolded trace_ok_def]
  show "ve_rule_id e = vr_id r" by (rule e(1))
  show "set (tr_evidence_ids (ve_condition e)) = support (case_scope c sn r) (vr_condition r)"
    and "bset_ok (tr_evidence_ids (ve_condition e))" using ok e(2) by simp_all
  show "tr_evidence_ids (ve_condition e) \<noteq> []" if "ve_eligible e" using that e cited by blast
  show "ve_eligible e \<longleftrightarrow> may_conclude stage c sn baseline_ids r"
    using ok unfolding e(3) may_conclude_def
    by (auto simp: filter_empty_conv split: option.split)
qed

lemma evaluate_verifier_not_Panic: "evaluate_verifier stage c sn baseline_ids r \<noteq> Panic"
  using evaluate_node_defined by (auto simp: evaluate_verifier_def Let_def res_simps)

abbreviation evaluated_as ::
  "rule_registry \<Rightarrow> verification_case \<Rightarrow> knowledge_snapshot \<Rightarrow> evidence_id set \<Rightarrow> verification_evaluation list \<Rightarrow> bool" where
  "evaluated_as rg c sn baseline_ids es \<equiv>
     list_all2 (\<lambda>r e. evaluate_verifier (rg_stage rg) c sn baseline_ids r = Ok e) (map snd (rg_rules rg)) es"

definition concluding_ids :: "rule_registry \<Rightarrow> verification_case \<Rightarrow> knowledge_snapshot \<Rightarrow> evidence_id set \<Rightarrow> string set" where
  "concluding_ids rg c sn baseline_ids =
     {i. \<exists>r. map_of (rg_rules rg) i = Some r \<and> may_conclude (rg_stage rg) c sn baseline_ids r}"

lemma verifier_candidates:
  assumes "list_all2 (\<lambda>r e. evaluate_verifier stage c sn baseline_ids r = Ok e) rs es"
  shows "map ve_rule_id (filter ve_eligible es) = map vr_id (filter (may_conclude stage c sn baseline_ids) rs)"
  using assms by (induction) (auto simp: evaluate_verifier_Ok)

lemma concluding_ids_eq:
  assumes "verifiers_ok rg"
  shows "set (map vr_id (filter (may_conclude (rg_stage rg) c sn baseline_ids) (map snd (rg_rules rg)))) =
    concluding_ids rg c sn baseline_ids"
proof (intro set_eqI iffI)
  fix i
  assume "i \<in> concluding_ids rg c sn baseline_ids"
  then obtain r where "map_of (rg_rules rg) i = Some r" "may_conclude (rg_stage rg) c sn baseline_ids r"
    by (auto simp: concluding_ids_def)
  then show "i \<in> set (map vr_id (filter (may_conclude (rg_stage rg) c sn baseline_ids) (map snd (rg_rules rg))))"
    using verifiers_ok_member [OF assms, of i r] by force
next
  fix i
  assume "i \<in> set (map vr_id (filter (may_conclude (rg_stage rg) c sn baseline_ids) (map snd (rg_rules rg))))"
  then obtain r where "r \<in> set (map snd (rg_rules rg))" "may_conclude (rg_stage rg) c sn baseline_ids r" "i = vr_id r"
    by auto
  then show "i \<in> concluding_ids rg c sn baseline_ids"
    using verifiers_ok_lookup [OF assms, of r] by (auto simp: concluding_ids_def)
qed

lemma best_iff_concludes:
  "verifier_choice.is_best (rg_rules rg) (concluding_ids rg c sn baseline_ids) i \<longleftrightarrow>
     (\<exists>r. concludes rg c sn baseline_ids i r)"
proof -
  let ?up = "\<lambda>i r j r'. vr_priority r' < vr_priority r
      \<or> vr_priority r' = vr_priority r \<and> (vr_confidence r' < vr_confidence r
          \<or> vr_confidence r' = vr_confidence r \<and> i \<le> j)"
  have before: "verifier_before (rg_rules rg) i j \<longleftrightarrow> ?up i r j r'"
    if "map_of (rg_rules rg) i = Some r" "map_of (rg_rules rg) j = Some r'" for i j r r'
    using that by (simp add: verifier_before_def verifier_rank_def Let_def)
  show ?thesis
  proof
    assume best: "verifier_choice.is_best (rg_rules rg) (concluding_ids rg c sn baseline_ids) i"
    then obtain r where r: "map_of (rg_rules rg) i = Some r" "may_conclude (rg_stage rg) c sn baseline_ids r"
      by (auto simp: verifier_choice.is_best_def concluding_ids_def)
    have "?up i r j r'" if "map_of (rg_rules rg) j = Some r'" "may_conclude (rg_stage rg) c sn baseline_ids r'" for j r'
    proof -
      have "j \<in> concluding_ids rg c sn baseline_ids" using that by (auto simp: concluding_ids_def)
      with best have "verifier_before (rg_rules rg) i j" by (simp add: verifier_choice.is_best_def)
      then show ?thesis unfolding before [OF r(1) that(1)] .
    qed
    with r show "\<exists>r. concludes rg c sn baseline_ids i r" unfolding concludes_def by blast
  next
    assume "\<exists>r. concludes rg c sn baseline_ids i r"
    then obtain r where r: "concludes rg c sn baseline_ids i r" by blast
    have "verifier_before (rg_rules rg) i j" if j: "j \<in> concluding_ids rg c sn baseline_ids" for j
    proof -
      from j obtain r' where r': "map_of (rg_rules rg) j = Some r'" "may_conclude (rg_stage rg) c sn baseline_ids r'"
        by (auto simp: concluding_ids_def)
      show ?thesis
        unfolding before [OF r [unfolded concludes_def, THEN conjunct1] r'(1)]
        by (rule r [unfolded concludes_def, THEN conjunct2, THEN conjunct2, rule_format, OF conjI, OF r'])
    qed
    moreover have "i \<in> concluding_ids rg c sn baseline_ids"
      using r by (auto simp: concludes_def concluding_ids_def)
    ultimately show "verifier_choice.is_best (rg_rules rg) (concluding_ids rg c sn baseline_ids) i"
      by (simp add: verifier_choice.is_best_def)
  qed
qed

lemma select_verifier_exact:
  assumes "verifiers_ok rg" and "evaluated_as rg c sn baseline_ids es"
  shows "\<exists>sel. select_verifier (rg_rules rg) es = Ok sel \<and>
    (case sel of
       None \<Rightarrow> concluding_ids rg c sn baseline_ids = {}
     | Some i \<Rightarrow> \<exists>r. concludes rg c sn baseline_ids i r)"
proof -
  let ?c = "map vr_id (filter (may_conclude (rg_stage rg) c sn baseline_ids) (map snd (rg_rules rg)))"
  have known: "list_all (\<lambda>i. map_of (rg_rules rg) i \<noteq> None) ?c"
    using verifiers_ok_lookup [OF assms(1)] by (auto simp: list_all_iff)
  have "select_verifier (rg_rules rg) es =
      Ok (case sort_by (verifier_before (rg_rules rg)) ?c of [] \<Rightarrow> None | i # _ \<Rightarrow> Some i)"
    unfolding select_verifier_def verifier_candidates [OF assms(2)] Let_def using known by simp
  moreover have "concluding_ids rg c sn baseline_ids = {}" if "sort_by (verifier_before (rg_rules rg)) ?c = []"
    using that unfolding verifier_choice.none_iff_empty concluding_ids_eq [OF assms(1), symmetric] by simp
  moreover have "\<exists>r. concludes rg c sn baseline_ids i r" if "sort_by (verifier_before (rg_rules rg)) ?c = i # rest" for i rest
    using verifier_choice.first_best [OF that]
    unfolding concluding_ids_eq [OF assms(1)] best_iff_concludes .
  ultimately show ?thesis by (cases "sort_by (verifier_before (rg_rules rg)) ?c") simp_all
qed

lemma concludes_unique:
  "concludes rg c sn baseline_ids i r \<Longrightarrow> concludes rg c sn baseline_ids j r' \<Longrightarrow> i = j \<and> r = r'"
  by (metis best_iff_concludes concludes_def option.inject verifier_choice.best_unique)

text \<open>The evidence of the outcome is the one its rule cites.\<close>

lemma selected_evidence_exact:
  assumes ok: "verifiers_ok rg" and es: "evaluated_as rg c sn baseline_ids es"
    and win: "concludes rg c sn baseline_ids i r"
  shows "set (selected_evidence i es) = support (case_scope c sn r) (vr_condition r)"
    and "bset_ok (selected_evidence i es)" and "selected_evidence i es \<noteq> []"
proof -
  have r: "map_of (rg_rules rg) i = Some r" using win by (simp add: concludes_def)
  note member = verifiers_ok_member [OF ok r]
  have pick: "\<exists>e. find (\<lambda>e. ve_rule_id e = i) es = Some e \<and> evaluate_verifier (rg_stage rg) c sn baseline_ids r = Ok e"
    if "list_all2 (\<lambda>r e. evaluate_verifier (rg_stage rg) c sn baseline_ids r = Ok e) rs es" "r \<in> set rs"
      "set rs \<subseteq> set (map snd (rg_rules rg))" for rs es
    using that
  proof (induction)
    case (Cons q rs e es)
    have "q = r" if "vr_id q = i"
      using that Cons.prems(2) verifiers_ok_lookup [OF ok, of q] r by simp
    then show ?case
      using Cons evaluate_verifier_Ok(1) [OF Cons.hyps(1)] member(1) by (cases "vr_id q = i") auto
  qed simp
  from pick [OF es member(4) order_refl] obtain e where e: "find (\<lambda>e. ve_rule_id e = i) es = Some e"
    "evaluate_verifier (rg_stage rg) c sn baseline_ids r = Ok e" by blast
  have "ve_eligible e" using evaluate_verifier_Ok(2) [OF e(2)] win by (simp add: concludes_def)
  with evaluate_verifier_Ok [OF e(2)] e(1)
  show "set (selected_evidence i es) = support (case_scope c sn r) (vr_condition r)"
    and "bset_ok (selected_evidence i es)" and "selected_evidence i es \<noteq> []"
    by (simp_all add: selected_evidence_def)
qed

definition baseline_ids_of :: "knowledge_snapshot option \<Rightarrow> evidence_id set" where
  "baseline_ids_of baseline = (case baseline of None \<Rightarrow> {} | Some b \<Rightarrow> e_id ` set (sn_evidence b))"

text \<open>The outcome a report carries, for the winning rule and for none.\<close>

definition outcome_of_winner ::
  "rule_registry \<Rightarrow> verification_case \<Rightarrow> knowledge_snapshot \<Rightarrow> verification_rule \<Rightarrow> outcome \<Rightarrow> bool" where
  "outcome_of_winner rg c sn r oc \<longleftrightarrow>
     oc_rule_id oc = Some (vr_id r) \<and> oc_status oc = vr_outcome r \<and> oc_confidence oc = vr_confidence r
   \<and> oc_rationale oc = vr_rationale r
   \<and> set (oc_evidence_ids oc) = support (case_scope c sn r) (vr_condition r) \<and> bset_ok (oc_evidence_ids oc)"

definition outcome_for_case :: "verification_case \<Rightarrow> verification_stage \<Rightarrow> outcome \<Rightarrow> bool" where
  "outcome_for_case c stage oc \<longleftrightarrow>
     oc_case_id oc = vc_id c \<and> oc_subject oc = vc_subject c \<and> oc_action_id oc = vc_action_id c
   \<and> oc_hypothesis_id oc = vc_hypothesis_id c \<and> oc_stage oc = stage"

lemma visible_rationale: "\<not> blank (no_rule_rationale stage)"
proof -
  have "no_rule_rationale stage = CHR ''n'' # ''o eligible '' @ stage_as_str stage @
      '' verification rule matched current evidence''" by (simp add: no_rule_rationale_def)
  moreover have "visible (CHR ''n'')" by code_simp
  ultimately show ?thesis by (simp only: visible_not_blank not_False_eq_True)
qed

lemma conclude_outcome_exact:
  assumes ok: "verifiers_ok rg" and c: "case_ok c" and es: "evaluated_as rg c sn baseline_ids es"
    and sel: "select_verifier (rg_rules rg) es = Ok sel"
  shows "\<exists>oc. conclude_outcome rg c es sel = Ok oc \<and> outcome_ok oc \<and> outcome_for_case c (rg_stage rg) oc
    \<and> (\<forall>i r. concludes rg c sn baseline_ids i r \<longrightarrow> outcome_of_winner rg c sn r oc)
    \<and> ((\<forall>i r. \<not> concludes rg c sn baseline_ids i r) \<longrightarrow> oc_status oc = Unknown)"
proof (cases sel)
  case None
  let ?oc = "\<lparr>oc_case_id = vc_id c, oc_subject = vc_subject c, oc_action_id = vc_action_id c,
      oc_hypothesis_id = vc_hypothesis_id c, oc_rule_id = None, oc_stage = rg_stage rg, oc_status = Unknown,
      oc_confidence = 0, oc_rationale = no_rule_rationale (rg_stage rg), oc_evidence_ids = []\<rparr>"
  have "outcome_ok ?oc" using c visible_rationale by (simp add: outcome_ok_def case_ok_def)
  then have "conclude_outcome rg c es sel = Ok ?oc"
    by (simp add: conclude_outcome_def None map_err_eq_Ok outcome_unknown_Ok_iff)
  moreover have "\<not> concludes rg c sn baseline_ids i r" for i r
    using select_verifier_exact [OF ok es] sel None by (auto simp: concludes_def concluding_ids_def)
  ultimately show ?thesis using \<open>outcome_ok ?oc\<close> by (auto simp: outcome_for_case_def)
next
  case (Some i)
  with select_verifier_exact [OF ok es] sel obtain r where win: "concludes rg c sn baseline_ids i r" by auto
  have r: "map_of (rg_rules rg) i = Some r" using win by (simp add: concludes_def)
  note member = verifiers_ok_member [OF ok r]
  note cited = selected_evidence_exact [OF ok es win]
  let ?oc = "\<lparr>oc_case_id = vc_id c, oc_subject = vc_subject c, oc_action_id = vc_action_id c,
      oc_hypothesis_id = vc_hypothesis_id c, oc_rule_id = Some (vr_id r), oc_stage = rg_stage rg,
      oc_status = vr_outcome r, oc_confidence = vr_confidence r, oc_rationale = vr_rationale r,
      oc_evidence_ids = selected_evidence i es\<rparr>"
  have "outcome_ok ?oc" using c cited(3) member(2,3) by (auto simp: outcome_ok_def case_ok_def verifier_ok_def)
  moreover from this have "conclude_outcome rg c es sel = Ok ?oc"
    using member(2) by (simp add: conclude_outcome_def Some r map_err_eq_Ok outcome_verified_Ok_iff verifier_ok_def)
  moreover have "outcome_of_winner rg c sn r' ?oc" if "concludes rg c sn baseline_ids j r'" for j r'
    using concludes_unique [OF win that] cited by (simp add: outcome_of_winner_def)
  ultimately show ?thesis using win by (auto simp: outcome_for_case_def)
qed

lemma evaluate_registry_Ok:
  assumes "verifiers_ok rg" and "case_ok c" and "evaluate_registry rg c sn baseline = Ok rep"
  shows "verification_validate_snapshot c sn = Ok () \<and> vp_case rep = c \<and> vp_stage rep = rg_stage rg
    \<and> outcome_ok (vp_outcome rep) \<and> outcome_for_case c (rg_stage rg) (vp_outcome rep)
    \<and> (\<forall>i r. concludes rg c sn (baseline_ids_of baseline) i r \<longrightarrow> outcome_of_winner rg c sn r (vp_outcome rep))
    \<and> ((\<forall>i r. \<not> concludes rg c sn (baseline_ids_of baseline) i r) \<longrightarrow> oc_status (vp_outcome rep) = Unknown)
    \<and> vp_token rep = \<lparr>ct_authority = sn_authority sn, ct_subject_revision = sn_subject_revision sn,
        ct_ontology_revision = sn_ontology_revision sn\<rparr>"
proof -
  from assms(3) obtain es sel oc where "verification_validate_snapshot c sn = Ok ()"
    and es: "evaluated_as rg c sn (baseline_ids_of baseline) es"
    and sel: "select_verifier (rg_rules rg) es = Ok sel" and oc: "conclude_outcome rg c es sel = Ok oc"
    and rep: "vp_case rep = c" "vp_stage rep = rg_stage rg" "vp_outcome rep = oc"
      "vp_token rep = \<lparr>ct_authority = sn_authority sn, ct_subject_revision = sn_subject_revision sn,
         ct_ontology_revision = sn_ontology_revision sn\<rparr>"
    unfolding evaluate_registry_def baseline_ids_of_def [symmetric] Let_def and_then_eq_Ok collect_res_Ok_iff
    by force
  with conclude_outcome_exact [OF assms(1,2) es sel] show ?thesis by simp
qed

text \<open>
  C11. A verification report is exact. When a registry evaluates a case, the outcome belongs to the
  case and the stage, is well formed, and is the one of the rule that concludes: the rule of highest
  priority, then highest confidence, then least identity among those whose action scope fits the
  case, whose condition holds of the snapshot (restricted to the evidence of the case for a
  correlated rule) and which, in the active stage, cites an observation that the baseline did not
  have. The outcome cites exactly the evidence that condition rests on. Without such a rule the
  outcome is unknown. The report carries the authority and revisions of the snapshot, and neither a
  panic nor a refused outcome is possible.
\<close>

theorem verification_exact:
  assumes "verifiers_ok rg" and "case_ok c"
  shows "case evaluate_registry rg c sn baseline of
      Ok rep \<Rightarrow>
        vp_case rep = c \<and> outcome_ok (vp_outcome rep) \<and> outcome_for_case c (rg_stage rg) (vp_outcome rep)
        \<and> (\<forall>i r. concludes rg c sn (baseline_ids_of baseline) i r \<longrightarrow> outcome_of_winner rg c sn r (vp_outcome rep))
        \<and> ((\<forall>i r. \<not> concludes rg c sn (baseline_ids_of baseline) i r) \<longrightarrow> oc_status (vp_outcome rep) = Unknown)
        \<and> ct_authority (vp_token rep) = sn_authority sn
        \<and> ct_subject_revision (vp_token rep) = sn_subject_revision sn
        \<and> ct_ontology_revision (vp_token rep) = sn_ontology_revision sn
    | Err e \<Rightarrow> \<forall>x. e \<noteq> VerificationOutcome x
    | Panic \<Rightarrow> False"
proof (cases "evaluate_registry rg c sn baseline")
  case (Ok rep)
  with evaluate_registry_Ok [OF assms Ok] show ?thesis by simp
next
  case (Err e)
  have eval: "evaluate_verifier stage c sn b r \<noteq> Err (VerificationOutcome x)" for stage b r x
    by (auto simp: evaluate_verifier_def Let_def res_simps) (auto elim: map_err.elims)
  have collect: "collect_res (evaluate_verifier stage c sn b) rs \<noteq> Err (VerificationOutcome x)" for stage b rs x
    by (induction rs) (auto simp: res_simps eval)
  have select: "select_verifier rules es \<noteq> Err y" for rules es y
    by (auto simp: select_verifier_def Let_def)
  have conclude: "conclude_outcome rg c es sel \<noteq> Err y"
    if "collect_res (evaluate_verifier (rg_stage rg) c sn (baseline_ids_of baseline)) (map snd (rg_rules rg)) = Ok es"
      "select_verifier (rg_rules rg) es = Ok sel" for es sel y
    using conclude_outcome_exact [OF assms] that by (force simp: collect_res_Ok_iff)
  from Err show ?thesis
    unfolding evaluate_registry_def baseline_ids_of_def [symmetric] Let_def
    by (auto simp: res_simps collect select conclude verification_validate_snapshot_def split: if_splits)
next
  case Panic
  have collect: "collect_res (evaluate_verifier (rg_stage rg) c sn (baseline_ids_of baseline)) rs \<noteq> Panic" for rs
    using collect_res_Panic evaluate_verifier_not_Panic by blast
  have select: "select_verifier (rg_rules rg) es \<noteq> Panic" and conclude: "select_verifier (rg_rules rg) es = Ok sel \<Longrightarrow>
      conclude_outcome rg c es sel \<noteq> Panic"
    if "collect_res (evaluate_verifier (rg_stage rg) c sn (baseline_ids_of baseline)) (map snd (rg_rules rg)) = Ok es" for es sel
    using select_verifier_exact [OF assms(1)] conclude_outcome_exact [OF assms] that
    by (force simp: collect_res_Ok_iff)+
  from Panic show ?thesis
    unfolding evaluate_registry_def baseline_ids_of_def [symmetric] Let_def
    by (auto simp: res_simps collect select conclude verification_validate_snapshot_def split: if_splits)
qed

definition sample_registered :: rule_registry where
  "sample_registered = snd (verifier_register sample_verifier (rule_registry_new PassiveStage))"

definition sample_checked :: knowledge_snapshot where
  "sample_checked = sample_snapshot\<lparr>sn_hypotheses := [sample_hypothesis Supported]\<rparr>"

lemma sample_registered_ok: "verifiers_ok sample_registered"
  unfolding sample_registered_def using verifiers_ok_register sample_verifier_ok by simp

lemma sample_concludes: "concludes sample_registered sample_case sample_checked {} ''v'' sample_verifier"
proof -
  have rules: "rg_rules sample_registered = [(''v'', sample_verifier)]" "rg_stage sample_registered = PassiveStage"
    by code_simp+
  have "holds sample_checked sample_condition"
    by (auto simp: sample_condition_def expression_equals_def expression_exists_def rn_from_def sample_snapshot_def
        matching_ids_layers sample_evidence_def sample_checked_def)
  then show ?thesis
    unfolding concludes_def rules
    by (auto simp: may_conclude_def case_scope_def sample_verifier_def sample_case_def)
qed

lemma verification_exact_witness:
  "case evaluate_registry sample_registered sample_case sample_checked None of
     Ok rep \<Rightarrow> oc_status (vp_outcome rep) = Success \<and> oc_rule_id (vp_outcome rep) = Some ''v'' | _ \<Rightarrow> False"
proof -
  have ok: "is_ok (evaluate_registry sample_registered sample_case sample_checked None)" by code_simp
  have "concludes sample_registered sample_case sample_checked (baseline_ids_of None) ''v'' sample_verifier"
    using sample_concludes by (simp add: baseline_ids_of_def)
  with verification_exact [OF sample_registered_ok sample_case_ok, of sample_checked None] ok show ?thesis
    by (auto simp: outcome_of_winner_def sample_verifier_def split: res.splits)
qed

section \<open>Applying a report\<close>

text \<open>What a verifier transition does, in every case.\<close>

lemma transition_outcomes:
  assumes "transition_hypothesis_state now i s new revs st = (r, st')"
  obtains (updated) h where "r = Ok (Written Updated)" "ks_hypotheses st i = Some h" "h_subject h = s" "h_state h \<noteq> new"
      "\<not> (is_terminal_hypothesis_state (h_state h) \<and> is_terminal_hypothesis_state new)"
      "\<forall>rs ro. revs = Some (rs, ro) \<longrightarrow> subject_revision st s = rs \<and> ks_ontology_revision st = ro"
      "ks_hypotheses st' = (ks_hypotheses st)(i \<mapsto> set_state now h new)"
    | (unchanged) h where "r = Ok (Written Unchanged)" "ks_hypotheses st i = Some h" "h_state h = new" "st' = st"
    | (refused) q where "r = Ok q" "\<forall>w. q \<noteq> Written w" "st' = st"
    | (exhausted) "r = Panic" "unat (subject_revision st s) + 1 = 2 ^ 64"
proof (cases "ks_hypotheses st i")
  case None
  with assms refused show thesis by (auto simp: transition_hypothesis_state_def)
next
  case (Some h)
  show thesis
  proof (cases "h_subject h \<noteq> s \<or> h_state h = new \<or>
      is_terminal_hypothesis_state (h_state h) \<and> is_terminal_hypothesis_state new")
    case True
    with assms Some unchanged refused show thesis
      by (auto simp: transition_hypothesis_state_def split: if_splits)
  next
    case False
    let ?guard = "case revs of None \<Rightarrow> Ok () | Some (rs, ro) \<Rightarrow> validate_revisions st s rs ro"
    let ?st = "st\<lparr>ks_hypotheses := (ks_hypotheses st)(i \<mapsto> set_state now h new)\<rparr>"
    have run: "transition_hypothesis_state now i s new revs st =
        (case ?guard of Err x \<Rightarrow> (Ok (TransitionStaleSnapshot x), st) | Panic \<Rightarrow> (Panic, st)
         | Ok _ \<Rightarrow> (case bump_subject_revision ?st s of None \<Rightarrow> (Panic, ?st) | Some st2 \<Rightarrow> (Ok (Written Updated), st2)))"
      using False Some unfolding transition_hypothesis_state_def Let_def by auto
    have rev: "subject_revision ?st s = subject_revision st s" by (simp add: subject_revision_def)
    show thesis
    proof (cases ?guard)
      case (Ok u)
      then have guard: "\<forall>rs ro. revs = Some (rs, ro) \<longrightarrow> subject_revision st s = rs \<and> ks_ontology_revision st = ro"
        by (auto simp: validate_revisions_Ok_iff)
      show thesis
      proof (cases "bump_subject_revision ?st s")
        case None
        then have "2 ^ 64 \<le> unat (subject_revision st s) + 1"
          using rev by (auto simp: bump_subject_revision_def checked_add_None_iff split: option.splits)
        moreover have "unat (subject_revision st s) < 2 ^ 64"
          using unat_less_exp [of "subject_revision st s"] by simp
        ultimately show thesis using exhausted assms run Ok None by simp
      next
        case (Some st2)
        then have "ks_hypotheses st2 = ks_hypotheses ?st" by (auto elim: bump_subject_SomeE)
        with updated [of h] \<open>ks_hypotheses st i = Some h\<close> False guard assms run Ok Some show thesis by simp
      qed
    next
      case (Err x)
      with assms run have "r = Ok (TransitionStaleSnapshot x)" "st' = st" by simp_all
      then show thesis by (intro refused [of "TransitionStaleSnapshot x"]) auto
    next
      case Panic
      then show thesis by (auto simp: validate_revisions_def split: option.splits if_splits)
    qed
  qed
qed

lemma check_outcome_evidence_runs:
  assumes "honest gap" and "check_outcome_evidence gap n s ids st = (r, st')"
  shows "knowledge_step\<^sup>*\<^sup>* st st' \<and> r \<noteq> Panic"
  using assms(2)
proof (induction ids arbitrary: n st)
  case (Cons i ids)
  have step: "knowledge_step\<^sup>*\<^sup>* st (gap n st)" by (rule honestD [OF assms(1)])
  show ?case
  proof (cases "check_outcome_evidence gap (Suc n) s ids (gap n st) = (r, st')")
    case True
    from Cons.IH [OF this] step show ?thesis by auto
  next
    case False
    with Cons.prems step show ?thesis by (auto simp: Let_def split: option.splits if_splits)
  qed
qed auto

text \<open>
  What \<open>report_apply\<close> answers, at the state \<open>st1\<close> that other threads have made of \<open>st\<close> when it
  takes effect.
\<close>

definition apply_effect ::
  "u64 \<Rightarrow> knowledge_authority \<Rightarrow> verification_report \<Rightarrow> knowledge_state \<Rightarrow>
   knowledge_write option verification_res \<Rightarrow> knowledge_state \<Rightarrow> bool" where
  "apply_effect now auth rep st1 res st' \<longleftrightarrow>
     (case res of
        Ok (Some Updated) \<Rightarrow>
          vc_applies (vp_case rep) \<and> ct_authority (vp_token rep) = auth
        \<and> subject_revision st1 (oc_subject (vp_outcome rep)) = ct_subject_revision (vp_token rep)
        \<and> ks_ontology_revision st1 = ct_ontology_revision (vp_token rep)
        \<and> (\<exists>h verdict. status_hypothesis_state (oc_status (vp_outcome rep)) = Some verdict
             \<and> ks_hypotheses st1 (oc_hypothesis_id (vp_outcome rep)) = Some h
             \<and> h_subject h = oc_subject (vp_outcome rep) \<and> \<not> is_terminal_hypothesis_state (h_state h)
             \<and> ks_hypotheses st' = (ks_hypotheses st1)(oc_hypothesis_id (vp_outcome rep) \<mapsto> set_state now h verdict))
      | Ok (Some Unchanged) \<Rightarrow>
          st' = st1 \<and> vc_applies (vp_case rep)
        \<and> (\<exists>h. ks_hypotheses st1 (oc_hypothesis_id (vp_outcome rep)) = Some h
             \<and> status_hypothesis_state (oc_status (vp_outcome rep)) = Some (h_state h))
      | Ok (Some Inserted) \<Rightarrow> False
      | Ok None \<Rightarrow>
          st' = st1 \<and> ct_authority (vp_token rep) = auth
        \<and> (\<not> vc_applies (vp_case rep) \<or> status_hypothesis_state (oc_status (vp_outcome rep)) = None)
      | Err e \<Rightarrow> st' = st1
      | Panic \<Rightarrow> unat (subject_revision st1 (oc_subject (vp_outcome rep))) + 1 = 2 ^ 64)"

lemma verdict_terminal: "status_hypothesis_state s = Some v \<Longrightarrow> is_terminal_hypothesis_state v"
  by (cases s) (auto simp: is_terminal_hypothesis_state_def)

lemma validate_commit_token_Ok:
  "validate_commit_token kb s token = Ok () \<longleftrightarrow>
     kb_authority kb = ct_authority token \<and> subject_revision (kb_state kb) s = ct_subject_revision token
   \<and> ks_ontology_revision (kb_state kb) = ct_ontology_revision token"
  by (auto simp: validate_commit_token_def res_simps validate_snapshot_authority_def validate_snapshot_revisions_def
      validate_revisions_Ok_iff)

lemma validate_commit_token_not_Panic: "validate_commit_token kb s token \<noteq> Panic"
  by (auto simp: validate_commit_token_def res_simps validate_snapshot_authority_def validate_snapshot_revisions_def
      validate_revisions_def)

lemma report_apply_effect:
  assumes "honest gap" and "report_apply gap now auth rep st = (res, st')"
  shows "\<exists>st1. knowledge_step\<^sup>*\<^sup>* st st1 \<and> apply_effect now auth rep st1 res st'
    \<and> (res \<noteq> Panic \<longrightarrow> knowledge_step\<^sup>*\<^sup>* st1 st')"
proof (cases "vc_applies (vp_case rep) \<and> (\<exists>v. status_hypothesis_state (oc_status (vp_outcome rep)) = Some v)")
  case False
  then have "st' = gap 0 st" and "res \<noteq> Panic" and "\<And>x. res = Ok x \<Longrightarrow> x = None \<and> ct_authority (vp_token rep) = auth"
    using assms(2) validate_commit_token_not_Panic
    by (auto simp: report_apply_def apply_outcome_with_token_def Let_def res_simps validate_commit_token_Ok
        split: if_splits)
  then show ?thesis
    using honestD [OF assms(1)] False
    by (intro exI [of _ "gap 0 st"]) (cases res; force simp: apply_effect_def)
next
  case True
  then obtain v where applies: "vc_applies (vp_case rep)"
    and v: "status_hypothesis_state (oc_status (vp_outcome rep)) = Some v" by blast
  let ?oc = "vp_outcome rep" and ?tok = "vp_token rep"
  have run: "apply_outcome_with_token gap now auth ?oc (Some ?tok) st = (res, st')"
    using assms(2) applies by (simp add: report_apply_def)
  show ?thesis
  proof (cases "\<exists>h st2. ct_authority ?tok = auth \<and> ks_hypotheses (gap 0 st) (oc_hypothesis_id ?oc) = Some h
      \<and> h_subject h = oc_subject ?oc
      \<and> check_outcome_evidence gap 1 (oc_subject ?oc) (oc_evidence_ids ?oc) (gap 0 st) = (Ok (), st2)")
    case False
    obtain r2 st2 where check: "check_outcome_evidence gap 1 (oc_subject ?oc) (oc_evidence_ids ?oc) (gap 0 st) = (r2, st2)"
      by fastforce
    note checked = check_outcome_evidence_runs [OF assms(1) check]
    have "\<exists>e. res = Err e" and "st' = st \<or> st' = gap 0 st \<or> st' = st2"
      using run False check checked v
      by (auto simp: apply_outcome_with_token_def Let_def validate_snapshot_authority_def
          split: option.splits if_splits res.splits)
    moreover have "knowledge_step\<^sup>*\<^sup>* st (gap 0 st)" "knowledge_step\<^sup>*\<^sup>* (gap 0 st) st2"
      using honestD [OF assms(1)] checked by auto
    ultimately show ?thesis by (intro exI [of _ st']) (auto simp: apply_effect_def)
  next
    case True
    then obtain h st2 where pre: "ct_authority ?tok = auth" "ks_hypotheses (gap 0 st) (oc_hypothesis_id ?oc) = Some h"
      "h_subject h = oc_subject ?oc"
      and check: "check_outcome_evidence gap 1 (oc_subject ?oc) (oc_evidence_ids ?oc) (gap 0 st) = (Ok (), st2)" by blast
    let ?st = "gap (Suc (length (oc_evidence_ids ?oc))) st2"
    obtain r st3 where tr: "transition_hypothesis_state now (oc_hypothesis_id ?oc) (oc_subject ?oc) v
        (Some (ct_subject_revision ?tok, ct_ontology_revision ?tok)) ?st = (r, st3)" by fastforce
    then have res: "res = conclude_transition ?oc r" and st': "st' = st3"
      using run v pre check by (simp_all add: apply_outcome_with_token_def Let_def validate_snapshot_authority_def)
    have runs: "knowledge_step\<^sup>*\<^sup>* st ?st"
      using honestD [OF assms(1)] check_outcome_evidence_runs [OF assms(1) check] by (meson rtranclp_trans)
    have "r \<noteq> Panic \<Longrightarrow> knowledge_step\<^sup>*\<^sup>* ?st st3" using step_transition [OF tr] by blast
    moreover have "apply_effect now auth rep ?st res st' \<and> (res \<noteq> Panic \<longrightarrow> r \<noteq> Panic)"
      using tr
    proof (cases rule: transition_outcomes)
      case (updated k)
      then show ?thesis using applies v pre(1) verdict_terminal [OF v] st' by (auto simp: apply_effect_def res)
    next
      case (unchanged k)
      then show ?thesis using applies v st' by (auto simp: apply_effect_def res)
    next
      case (refused q)
      then show ?thesis using st' by (cases q) (auto simp: apply_effect_def res)
    next
      case exhausted
      then show ?thesis by (simp add: apply_effect_def res)
    qed
    ultimately show ?thesis using runs st' by blast
  qed
qed


definition sample_verified_base :: knowledge_base where
  "sample_verified_base =
     \<lparr>kb_authority = 7,
      kb_state = snd (upsert_hypothesis (\<lambda>_. 0) \<lparr>kb_authority = 7, kb_state = sample_store\<rparr>
        (sample_hypothesis Supported))\<rparr>"

lemma sample_verified_reachable: "knowledge_reachable (kb_state sample_verified_base)"
proof -
  let ?batch = "upsert_hypothesis_batch_with_policy (\<lambda>_. 0) \<lparr>kb_authority = 7, kb_state = sample_store\<rparr>
      [sample_hypothesis Supported] False None"
  have "fst ?batch \<noteq> Panic" by code_simp
  then have "knowledge_step sample_store (snd ?batch)"
    by (rule step_hypotheses [OF prod.collapse [symmetric]])
  moreover have "kb_state sample_verified_base = snd ?batch"
    by (simp add: sample_verified_base_def upsert_hypothesis_def upsert_hypothesis_batch_def split: prod.split)
  ultimately show ?thesis using sample_store_reachable by (metis rtranclp.rtrancl_into_rtrancl)
qed


end
