(* ===== verification/Experience_Properties.thy ===== *)
theory Experience_Properties
  imports Experience
begin

text \<open>
  Laws of the experience store: the invariant of its records, append-only observation keyed by the
  identity of an outcome, exact wire decoding, and the reference semantics of suppression.
\<close>

section \<open>Invariant\<close>

definition outcome_identity :: "outcome \<Rightarrow> entity_id \<times> string \<times> string \<times> verification_stage" where
  "outcome_identity oc = (oc_subject oc, oc_action_id oc, oc_case_id oc, oc_stage oc)"

definition record_ok :: "experience_record \<Rightarrow> bool" where
  "record_ok r \<longleftrightarrow> outcome_ok (xr_outcome r) \<and> disposition_accepts (xr_disposition r) (oc_status (xr_outcome r))"

definition experience_ok :: "experience_store \<Rightarrow> bool" where
  "experience_ok s \<longleftrightarrow>
     map (\<lambda>r. unat (xr_sequence r)) (xs_records s) = [0..<length (xs_records s)]
   \<and> unat (xs_next_sequence s) = length (xs_records s)
   \<and> distinct (map (\<lambda>r. outcome_identity (xr_outcome r)) (xs_records s))
   \<and> list_all record_ok (xs_records s)"

text \<open>An identity is looked up in a store.\<close>

definition recorded :: "experience_store \<Rightarrow> outcome \<Rightarrow> experience_record option" where
  "recorded s oc = find (\<lambda>r. outcome_identity (xr_outcome r) = outcome_identity oc) (xs_records s)"

lemma same_identity_iff: "same_identity a b \<longleftrightarrow> outcome_identity a = outcome_identity b"
  by (simp add: same_identity_def outcome_identity_def)

lemma default_disposition_accepted [simp]: "disposition_accepts (disposition_from_status s) s"
  by (cases s) simp_all

lemma experience_ok_new [simp]: "experience_ok experience_store_new"
  by (simp add: experience_ok_def experience_store_new_def)

lemma records_new [simp]: "xs_records experience_store_new = []"
  by (simp add: experience_store_new_def)

definition appended :: "outcome \<Rightarrow> experience_disposition \<Rightarrow> experience_store \<Rightarrow> experience_store" where
  "appended oc d s =
     \<lparr>xs_next_sequence = xs_next_sequence s + 1,
      xs_records = xs_records s @
        [\<lparr>xr_sequence = xs_next_sequence s, xr_outcome = oc, xr_disposition = d\<rparr>]\<rparr>"

text \<open>The four answers of an observation.\<close>

lemma observe_with_disposition_eq:
  "observe_with_disposition oc d s =
     (if \<not> disposition_accepts d (oc_status oc) then (Err (IncompatibleDisposition (oc_status oc) d), s)
      else case recorded s oc of
          Some r \<Rightarrow>
            if xr_outcome r = oc \<and> xr_disposition r = d then (Ok ExperienceUnchanged, s)
            else (Err (IdentityConflict (oc_subject oc) (oc_action_id oc) (oc_case_id oc) (oc_stage oc)), s)
        | None \<Rightarrow>
            if unat (xs_next_sequence s) + 1 < 2 ^ 64 then (Ok ExperienceInserted, appended oc d s)
            else (Err SequenceOverflow, s))"
proof -
  have "checked_add (xs_next_sequence s) 1 =
      (if unat (xs_next_sequence s) + 1 < 2 ^ 64 then Some (xs_next_sequence s + 1) else None)"
    unfolding checked_add_def no_overflow_iff by simp
  then show ?thesis
    by (auto simp: observe_with_disposition_def validate_disposition_def recorded_def same_identity_iff
        appended_def split: option.split)
qed

lemma find_append: "find P (xs @ ys) = (case find P xs of None \<Rightarrow> find P ys | Some x \<Rightarrow> Some x)"
  by (induction xs) auto

lemma recorded_None_iff:
  "recorded s oc = None \<longleftrightarrow> outcome_identity oc \<notin> (\<lambda>r. outcome_identity (xr_outcome r)) ` set (xs_records s)"
  by (auto simp: recorded_def find_None_iff image_iff)

lemma experience_ok_appended:
  assumes "experience_ok s" and "outcome_ok oc" and "disposition_accepts d (oc_status oc)"
    and "recorded s oc = None" and "unat (xs_next_sequence s) + 1 < 2 ^ 64"
  shows "experience_ok (appended oc d s)"
proof -
  have "unat (xs_next_sequence s + 1) = unat (xs_next_sequence s) + 1"
    using unat_add_exact [of "xs_next_sequence s" 1] assms(5) by simp
  then show ?thesis
    using assms(1-4) by (auto simp: experience_ok_def appended_def record_ok_def recorded_None_iff)
qed

lemma experience_ok_observe:
  assumes "experience_ok s" and "outcome_ok oc"
  shows "experience_ok (snd (observe_with_disposition oc d s))"
  using assms experience_ok_appended [OF assms] by (auto simp: observe_with_disposition_eq split: option.split)

section \<open>Wire decoding\<close>

lemma record_from_wire_Ok:
  "record_from_wire w = Ok r \<longleftrightarrow>
     record_ok r \<and> wx_sequence w = xr_sequence r \<and> wx_outcome w = xr_outcome r \<and>
     (case wx_disposition w of
        None \<Rightarrow> xr_disposition r = disposition_from_status (oc_status (xr_outcome r))
      | Some d \<Rightarrow> xr_disposition r = d)"
proof -
  have "outcome_from_wire (wx_outcome w) = Ok oc \<longleftrightarrow> oc = wx_outcome w \<and> outcome_ok oc" for oc
    by (auto simp: outcome_from_wire_Ok_iff)
  then show ?thesis
    by (cases r) (auto simp: record_from_wire_def res_simps Let_def validate_disposition_def record_ok_def
        split: option.splits if_splits)
qed

lemma record_wire_roundtrip: "record_ok r \<Longrightarrow> record_from_wire (record_to_wire r) = Ok r"
  by (simp add: record_from_wire_Ok record_to_wire_def)

lemma u64_of_index_Some: "u64_of_index n = Some w \<longleftrightarrow> unat w = n"
proof
  assume "u64_of_index n = Some w"
  then have "n < 2 ^ LENGTH(64)" and w: "w = word_of_nat n"
    by (auto simp: u64_of_index_def split: if_splits)
  then show "unat w = n" unfolding w by (intro unat_of_nat_exact)
next
  assume "unat w = n"
  then show "u64_of_index n = Some w"
    using unat_less_exp [of w] by (auto simp: u64_of_index_def)
qed

lemma upt_first: "[n..<n + length (x # xs)] = n # [Suc n..<Suc n + length xs]"
  by (simp add: upt_conv_Cons del: upt_Suc)

lemma check_sequences_Ok:
  "check_sequences n rs = Ok () \<longleftrightarrow> map (\<lambda>r. unat (xr_sequence r)) rs = [n..<n + length rs]"
proof (induction rs arbitrary: n)
  case (Cons r rs)
  show ?case
    unfolding upt_first using Cons.IH [of "Suc n"] u64_of_index_Some [of n "xr_sequence r"]
    by (auto split: option.splits if_splits)
qed simp

lemma replay_sound:
  assumes "replay_records rs s = Ok t" and "experience_ok s" and "list_all record_ok rs"
    and "map (\<lambda>r. unat (xr_sequence r)) rs = [length (xs_records s)..<length (xs_records s) + length rs]"
  shows "xs_records t = xs_records s @ rs \<and> experience_ok t"
  using assms
proof (induction rs arbitrary: s)
  case (Cons r rs)
  let ?s = "appended (xr_outcome r) (xr_disposition r) s"
  have obs: "observe_with_disposition (xr_outcome r) (xr_disposition r) s = (Ok ExperienceInserted, ?s)"
    and rec: "replay_records rs ?s = Ok t"
    using Cons.prems(1)
    by (auto simp: observe_with_disposition_eq split: prod.splits res.splits experience_write.splits if_splits option.splits)
  have ok: "experience_ok ?s"
    using experience_ok_observe [OF Cons.prems(2), of "xr_outcome r" "xr_disposition r"] obs Cons.prems(3)
    by (simp add: record_ok_def)
  have seq: "unat (xr_sequence r) = length (xs_records s)"
    and tail: "map (\<lambda>r. unat (xr_sequence r)) rs =
      [Suc (length (xs_records s))..<Suc (length (xs_records s)) + length rs]"
    using Cons.prems(4) unfolding upt_first by simp_all
  have "xr_sequence r = xs_next_sequence s"
    using seq Cons.prems(2) by (simp add: experience_ok_def word_unat_eq_iff)
  then have "xs_records ?s = xs_records s @ [r]" by (cases r) (simp add: appended_def)
  with Cons.IH [OF rec ok] Cons.prems(3) tail show ?case by simp
qed simp

lemma replay_complete:
  assumes "experience_ok t" and "xs_records t = xs_records s @ rs" and "experience_ok s"
  shows "replay_records rs s = Ok t"
  using assms(2,3)
proof (induction rs arbitrary: s)
  case Nil
  then have "xs_next_sequence s = xs_next_sequence t"
    using assms(1) by (simp add: experience_ok_def word_unat_eq_iff)
  with Nil show ?case by simp
next
  case (Cons r rs)
  let ?s = "appended (xr_outcome r) (xr_disposition r) s"
  have fresh: "recorded s (xr_outcome r) = None"
    using assms(1) Cons.prems(1) by (auto simp: experience_ok_def recorded_None_iff)
  have "map (\<lambda>r. unat (xr_sequence r)) (xs_records s @ r # rs) = [0..<length (xs_records s @ r # rs)]"
    using assms(1) Cons.prems(1) by (simp add: experience_ok_def)
  then have "map (\<lambda>r. unat (xr_sequence r)) (xs_records s @ r # rs) ! length (xs_records s) =
      [0..<length (xs_records s @ r # rs)] ! length (xs_records s)" by (rule arg_cong)
  then have "unat (xr_sequence r) = length (xs_records s)"
    by (simp add: nth_append del: upt_Suc)
  then have "xr_sequence r = xs_next_sequence s"
    using Cons.prems(2) by (simp add: experience_ok_def word_unat_eq_iff)
  then have records: "xs_records ?s = xs_records s @ [r]" by (cases r) (simp add: appended_def)
  have "length (xs_records t) < 2 ^ 64"
    using assms(1) unat_less_exp [of "xs_next_sequence t"] by (simp add: experience_ok_def)
  then have room: "unat (xs_next_sequence s) + 1 < 2 ^ 64"
    using Cons.prems by (simp add: experience_ok_def)
  have good: "disposition_accepts (xr_disposition r) (oc_status (xr_outcome r))" "outcome_ok (xr_outcome r)"
    using assms(1) Cons.prems(1) by (simp_all add: experience_ok_def record_ok_def)
  have "experience_ok ?s"
    by (rule experience_ok_appended [OF Cons.prems(2) good(2,1) fresh room])
  with Cons.IH [of ?s] Cons.prems(1) records have "replay_records rs ?s = Ok t" by simp
  moreover have "observe_with_disposition (xr_outcome r) (xr_disposition r) s = (Ok ExperienceInserted, ?s)"
    using good fresh room by (simp add: observe_with_disposition_eq)
  ultimately show ?case by simp
qed

lemma store_from_wire_Ok:
  "store_from_wire n w = Ok s \<longleftrightarrow>
     experience_ok s \<and> xs_next_sequence s = n \<and> list_all2 (\<lambda>x r. record_from_wire x = Ok r) w (xs_records s)"
proof
  assume "store_from_wire n w = Ok s"
  then obtain rs where rs: "list_all2 (\<lambda>x r. record_from_wire x = Ok r) w rs"
    and seq: "check_sequences 0 rs = Ok ()" and len: "u64_of_index (length rs) = Some n"
    and run: "replay_records rs experience_store_new = Ok s"
    by (auto simp: store_from_wire_def res_simps collect_res_Ok_iff split: option.splits if_splits)
  have "list_all record_ok rs"
    using rs by (auto simp: list_all2_conv_all_nth list_all_length record_from_wire_Ok)
  with replay_sound [OF run experience_ok_new] seq have "xs_records s = rs" and ok: "experience_ok s"
    by (simp_all add: check_sequences_Ok)
  moreover have "xs_next_sequence s = n"
    using ok len \<open>xs_records s = rs\<close> by (simp add: u64_of_index_Some experience_ok_def word_unat_eq_iff)
  ultimately show "experience_ok s \<and> xs_next_sequence s = n \<and>
      list_all2 (\<lambda>x r. record_from_wire x = Ok r) w (xs_records s)" using rs by simp
next
  assume s: "experience_ok s \<and> xs_next_sequence s = n \<and>
      list_all2 (\<lambda>x r. record_from_wire x = Ok r) w (xs_records s)"
  then have "replay_records (xs_records s) experience_store_new = Ok s"
    by (intro replay_complete) simp_all
  moreover have "check_sequences 0 (xs_records s) = Ok ()"
    using s by (simp add: check_sequences_Ok experience_ok_def)
  moreover have "u64_of_index (length (xs_records s)) = Some n"
    using s by (auto simp: u64_of_index_Some experience_ok_def)
  moreover have "collect_res record_from_wire w = Ok (xs_records s)"
    using s by (simp add: collect_res_Ok_iff)
  ultimately show "store_from_wire n w = Ok s" by (simp add: store_from_wire_def)
qed

lemma store_wire_roundtrip:
  assumes "experience_ok s"
  shows "store_from_wire (xs_next_sequence s) (map record_to_wire (xs_records s)) = Ok s"
  using assms record_wire_roundtrip
  by (auto simp: store_from_wire_Ok list_all2_conv_all_nth experience_ok_def list_all_length)

section \<open>Suppression\<close>

text \<open>
  The reference: the attempts of an action are its completed records in store order, where the
  passive record of a case does not count when the case also has an active one.
\<close>

definition superseded :: "experience_record list \<Rightarrow> experience_record \<Rightarrow> bool" where
  "superseded rs r \<longleftrightarrow> oc_stage (xr_outcome r) = PassiveStage \<and>
     (\<exists>r' \<in> set rs. oc_case_id (xr_outcome r') = oc_case_id (xr_outcome r) \<and> oc_stage (xr_outcome r') = ActiveStage)"

definition attempts :: "experience_store \<Rightarrow> entity_id \<Rightarrow> string \<Rightarrow> experience_record list" where
  "attempts s subject a =
     filter (\<lambda>r. is_completed_attempt (xr_outcome r) \<and> \<not> superseded (history s subject a) r) (history s subject a)"

definition negatives_since_success :: "experience_record list \<Rightarrow> nat" where
  "negatives_since_success rs =
     length (filter (\<lambda>r. xr_disposition r \<in> {VerificationRejected, NegativeConfirmed})
       (takeWhile (\<lambda>r. xr_disposition r \<noteq> ConfirmedPositive) (rev rs)))"

text \<open>What the map holds for one case: the first record, unless a later active one replaces it.\<close>

fun pick_latest :: "experience_record \<Rightarrow> experience_record option \<Rightarrow> experience_record option" where
  "pick_latest r None = Some r"
| "pick_latest r (Some e) =
     (if oc_stage (xr_outcome e) = PassiveStage \<and> oc_stage (xr_outcome r) = ActiveStage then Some r else Some e)"

lemma map_of_keep_latest:
  "map_of (keep_latest r m) c =
     (if c = oc_case_id (xr_outcome r) then pick_latest r (map_of m c) else map_of m c)"
  by (auto simp: keep_latest_def split: option.split)

lemma map_of_latest:
  "map_of (fold keep_latest rs m) c =
     fold pick_latest (filter (\<lambda>r. oc_case_id (xr_outcome r) = c) rs) (map_of m c)"
  by (induction rs arbitrary: m) (auto simp: map_of_keep_latest)

lemma bmap_ok_keep_latest: "bmap_ok m \<Longrightarrow> bmap_ok (keep_latest r m)"
  by (auto simp: keep_latest_def bmap_ok_insert split: option.split)

lemma bmap_ok_latest: "bmap_ok (latest_by_case rs)"
proof -
  have "bmap_ok m \<Longrightarrow> bmap_ok (fold keep_latest rs m)" for m
    by (induction rs arbitrary: m) (auto intro: bmap_ok_keep_latest)
  then show ?thesis by (simp add: latest_by_case_def bmap_ok_def)
qed

lemma fold_pick_active:
  "oc_stage (xr_outcome e) = ActiveStage \<Longrightarrow> fold pick_latest rs (Some e) = Some e"
  by (induction rs) simp_all

lemma fold_pick_passive:
  "oc_stage (xr_outcome e) = PassiveStage \<Longrightarrow>
   fold pick_latest rs (Some e) =
     (case find (\<lambda>r. oc_stage (xr_outcome r) = ActiveStage) rs of None \<Rightarrow> Some e | Some r \<Rightarrow> Some r)"
proof (induction rs)
  case (Cons r rs)
  then show ?case by (cases "oc_stage (xr_outcome r)") (simp_all add: fold_pick_active)
qed simp

text \<open>With one record per stage, the chosen record of a case is the one that is not superseded.\<close>

lemma fold_pick_distinct:
  assumes "distinct (map (\<lambda>r. oc_stage (xr_outcome r)) rs)"
  shows "fold pick_latest rs None = Some r \<longleftrightarrow>
    r \<in> set rs \<and> (oc_stage (xr_outcome r) = PassiveStage \<longrightarrow> (\<forall>r' \<in> set rs. oc_stage (xr_outcome r') = PassiveStage))"
proof (cases rs)
  case (Cons e es)
  have only: "x = y" if "x \<in> set rs" "y \<in> set rs" "oc_stage (xr_outcome x) = oc_stage (xr_outcome y)" for x y
    using assms that by (simp add: distinct_map inj_on_def)
  have stages: "oc_stage (xr_outcome x) = PassiveStage \<longleftrightarrow> oc_stage (xr_outcome x) \<noteq> ActiveStage" for x
    by (cases "oc_stage (xr_outcome x)") simp_all
  have chosen: ?thesis if a: "a \<in> set rs" "oc_stage (xr_outcome a) = ActiveStage"
    and "fold pick_latest rs None = Some a" for a
  proof -
    have "a = r \<longleftrightarrow> r \<in> set rs \<and> oc_stage (xr_outcome r) = ActiveStage"
      using only [of a r] a by auto
    with that show ?thesis unfolding stages by auto
  qed
  show ?thesis
  proof (cases "oc_stage (xr_outcome e)")
    case ActiveStage
    then show ?thesis using chosen [of e] Cons by (simp add: fold_pick_active)
  next
    case PassiveStage
    show ?thesis
    proof (cases "find (\<lambda>r. oc_stage (xr_outcome r) = ActiveStage) es")
      case None
      then have all_passive: "\<forall>x \<in> set rs. oc_stage (xr_outcome x) = PassiveStage"
        using PassiveStage Cons by (auto simp: find_None_iff stages)
      then have "r \<in> set rs \<longleftrightarrow> e = r" using only [of r e] PassiveStage Cons by auto
      with None PassiveStage all_passive show ?thesis using Cons by (simp add: fold_pick_passive)
    next
      case (Some a)
      then have "a \<in> set rs" "oc_stage (xr_outcome a) = ActiveStage"
        using Cons by (auto simp: find_Some_iff)
      with Some PassiveStage show ?thesis using chosen [of a] Cons by (simp add: fold_pick_passive)
    qed
  qed
qed simp

lemma map_of_latest_by_case:
  assumes "distinct (map (\<lambda>r. (oc_case_id (xr_outcome r), oc_stage (xr_outcome r))) rs)"
  shows "map_of (latest_by_case rs) c = Some r \<longleftrightarrow>
    r \<in> set rs \<and> oc_case_id (xr_outcome r) = c \<and> \<not> superseded rs r"
proof -
  let ?rs = "filter (\<lambda>r. oc_case_id (xr_outcome r) = c) rs"
  have "distinct (map (\<lambda>r. oc_stage (xr_outcome r)) ?rs)"
    using assms by (auto simp: distinct_map inj_on_def)
  then have "map_of (latest_by_case rs) c = Some r \<longleftrightarrow> r \<in> set ?rs \<and>
      (oc_stage (xr_outcome r) = PassiveStage \<longrightarrow> (\<forall>r' \<in> set ?rs. oc_stage (xr_outcome r') = PassiveStage))"
    by (simp add: latest_by_case_def map_of_latest fold_pick_distinct)
  then show ?thesis
    by (auto simp: superseded_def) (metis verification_stage.exhaust verification_stage.distinct(1))
qed

lemma strict_by_key_equal:
  fixes key :: "'a \<Rightarrow> 'b::linorder"
  assumes "sorted_wrt (<) (map key xs)" and "sorted_wrt (<) (map key ys)" and "set xs = set ys"
  shows "xs = ys"
proof -
  have "map key xs = map key ys"
    using assms by (intro strict_sorted_equal) simp_all
  moreover have "inj_on key (set xs \<union> set ys)"
    using assms by (simp add: strict_sorted_iff distinct_map)
  ultimately show ?thesis by (simp add: inj_on_map_eq_map)
qed

lemma sort_by_key_strict:
  fixes key :: "'a \<Rightarrow> 'b::linorder"
  assumes "distinct (map key xs)"
  shows "sorted_wrt (<) (map key (sort_by (\<lambda>a b. key a \<le> key b) xs))"
proof -
  have "sorted_wrt (\<lambda>a b. key a \<le> key b) (sort_by (\<lambda>a b. key a \<le> key b) xs)"
    by (rule sorted_sort_by) auto
  then show ?thesis using assms by (simp add: strict_sorted_iff sorted_map distinct_sort_by)
qed

lemma history_sequences:
  assumes "experience_ok s"
  shows "sorted_wrt (<) (map xr_sequence (history s subject a))"
proof -
  have "sorted_wrt (<) (map (\<lambda>r. unat (xr_sequence r)) (xs_records s))"
    using assms by (simp add: experience_ok_def)
  then show ?thesis
    by (simp add: history_def sorted_wrt_map sorted_wrt_filter flip: word_less_nat_alt)
qed

lemma history_distinct_stages:
  assumes "experience_ok s"
  shows "distinct (map (\<lambda>r. (oc_case_id (xr_outcome r), oc_stage (xr_outcome r))) (history s subject a))"
  using assms by (auto simp: experience_ok_def history_def distinct_map inj_on_def outcome_identity_def)

text \<open>The map, the filter and the sort of an assessment compute the attempts in store order.\<close>

lemma completed_records_eq:
  assumes "experience_ok s"
  shows "completed_records s subject a = attempts s subject a"
proof -
  let ?h = "history s subject a" and ?m = "latest_by_case (history s subject a)"
  note chosen = map_of_latest_by_case [OF history_distinct_stages [OF assms, of subject a]]
  have pairs: "(c, r) \<in> set ?m \<longleftrightarrow> r \<in> set ?h \<and> oc_case_id (xr_outcome r) = c \<and> \<not> superseded ?h r" for c r
    by (simp add: bmap_ok_latest bmap_ok_distinct flip: chosen)
  have keys: "distinct (map xr_sequence ?h)"
    using history_sequences [OF assms] by (simp add: strict_sorted_iff)
  then have inj: "inj_on xr_sequence (set ?h)" by (simp add: distinct_map)
  have members: "set (map snd ?m) = {r \<in> set ?h. \<not> superseded ?h r}"
  proof -
    have "r \<in> set (map snd ?m) \<longleftrightarrow> (\<exists>c. (c, r) \<in> set ?m)" for r by force
    then show ?thesis unfolding pairs by auto
  qed
  have "inj_on snd (set ?m)"
  proof (rule inj_onI)
    fix x y
    assume "x \<in> set ?m" and "y \<in> set ?m" and "snd x = snd y"
    then show "x = y" using pairs [of "fst x" "snd x"] pairs [of "fst y" "snd y"]
      by (metis prod.collapse)
  qed
  moreover have "distinct ?m" using bmap_ok_distinct [OF bmap_ok_latest [of ?h]] by (simp add: distinct_map)
  ultimately have "distinct (map snd ?m)" by (simp add: distinct_map)
  then have distinct: "distinct (map xr_sequence (filter (\<lambda>r. is_completed_attempt (xr_outcome r)) (map snd ?m)))"
    using members inj by (auto simp: distinct_map intro: inj_on_subset)
  have "sorted_wrt (<) (map xr_sequence (attempts s subject a))"
    using history_sequences [OF assms, of subject a] by (simp add: attempts_def sorted_wrt_map sorted_wrt_filter)
  then show ?thesis
    unfolding completed_records_def using members
    by (intro strict_by_key_equal [OF sort_by_key_strict [OF distinct]]) (auto simp: attempts_def)
qed

lemma suppression_effect_iff:
  "suppression_effect_of d = Increment \<longleftrightarrow> d \<in> {VerificationRejected, NegativeConfirmed}"
  "suppression_effect_of d = Reset \<longleftrightarrow> d = ConfirmedPositive"
  by (cases d; simp)+

lemma count_failures_exact:
  "unat (count_failures rs n) =
     min (unat n + length (filter (\<lambda>r. xr_disposition r \<in> {VerificationRejected, NegativeConfirmed})
       (takeWhile (\<lambda>r. xr_disposition r \<noteq> ConfirmedPositive) rs))) 65535"
proof (induction rs arbitrary: n)
  case Nil
  then show ?case using unat_less_exp [of n] by simp
next
  case (Cons r rs)
  have "unat n \<le> 65535" using unat_less_exp [of n] by simp
  then show ?case
    using Cons.IH suppression_effect_iff [of "xr_disposition r"]
    by (cases "suppression_effect_of (xr_disposition r)") (auto simp: unat_saturating_add min_def)
qed

lemma is_suppressed_iff:
  assumes "experience_ok s"
  shows "is_suppressed (assess s subject a p) \<longleftrightarrow>
    unat (ep_limit p) \<le> negatives_since_success (attempts s subject a)"
proof -
  have "unat (ep_limit p) \<le> 65535" using unat_less_exp [of "ep_limit p"] by simp
  then show ?thesis
    by (simp add: is_suppressed_def assess_def Let_def completed_records_eq [OF assms] word_le_nat_alt
        count_failures_exact negatives_since_success_def)
qed

text \<open>
  C15. Suppression is exact: an action is suppressed for a subject if and only if the verified
  negatives among its completed attempts since the last success reach the limit of the policy. The
  attempts are the completed records of the action in observation order, an active record replacing
  the passive one of its case; target blocks, operational failures and inconclusive results neither
  count nor reset. The answer is an ordered set without duplicates.
\<close>

theorem suppression_exact:
  assumes "experience_ok s" and "experience_policy_new limit = Ok p"
  shows "(a \<in> set (suppressed_actions s subject p) \<longleftrightarrow>
      unat limit \<le> negatives_since_success (attempts s subject a))
    \<and> bset_ok (suppressed_actions s subject p)"
proof -
  have p: "ep_limit p = limit" and "limit \<noteq> 0"
    using assms(2) by (auto simp: experience_policy_new_def split: if_splits)
  have recorded: "a \<in> set (map (\<lambda>r. oc_action_id (xr_outcome r))
      (filter (\<lambda>r. oc_subject (xr_outcome r) = subject) (xs_records s)))"
    if "unat limit \<le> negatives_since_success (attempts s subject a)"
  proof -
    have "0 < unat limit" using \<open>limit \<noteq> 0\<close> by (simp add: unat_gt_0)
    with that have "attempts s subject a \<noteq> []" by (auto simp: negatives_since_success_def)
    then show ?thesis by (auto simp: attempts_def history_def filter_empty_conv)
  qed
  show ?thesis
    using recorded by (auto simp: suppressed_actions_def is_suppressed_iff [OF assms(1)] p sorted_wrt_filter)
qed

definition sample_experience :: experience_store where
  "sample_experience =
     snd (experience_observe (sample_outcome\<lparr>oc_case_id := ''d''\<rparr>)
       (snd (experience_observe sample_outcome experience_store_new)))"

lemma suppression_exact_witness:
  "''a'' \<in> set (suppressed_actions sample_experience ''s'' \<lparr>ep_limit = 2\<rparr>)
   \<and> ''a'' \<notin> set (suppressed_actions sample_experience ''s'' \<lparr>ep_limit = 3\<rparr>)"
proof -
  have ok: "experience_ok sample_experience"
    unfolding sample_experience_def experience_observe_def
    by (intro experience_ok_observe experience_ok_new) code_simp+
  have "negatives_since_success (attempts sample_experience ''s'' ''a'') = 2" by code_simp
  moreover have "experience_policy_new 2 = Ok \<lparr>ep_limit = 2\<rparr>" "experience_policy_new 3 = Ok \<lparr>ep_limit = 3\<rparr>"
    by (simp_all add: experience_policy_new_def)
  ultimately show ?thesis
    using suppression_exact [OF ok, of 2 "\<lparr>ep_limit = 2\<rparr>" "''a''" "''s''"]
      suppression_exact [OF ok, of 3 "\<lparr>ep_limit = 3\<rparr>" "''a''" "''s''"] by simp
qed

text \<open>
  C16. The store is an append-only journal. An observation keeps the invariant and every stored
  record; when it is accepted the outcome is stored with its disposition, and observing it again
  changes nothing; when it is refused the store is unchanged, and the only reasons are a disposition
  that contradicts the status, a different record of the same identity, or a full sequence counter.
  Whatever the store, decoding its serialised form gives it back, and every store that decodes
  satisfies the invariant.
\<close>

theorem experience_journal:
  assumes "experience_ok s" and "outcome_ok oc"
    and "observe_with_disposition oc d s = (r, t)"
  shows "experience_ok t \<and> (\<exists>new. xs_records t = xs_records s @ new)
    \<and> (case r of
         Ok _ \<Rightarrow> (\<exists>x. recorded t oc = Some x \<and> xr_outcome x = oc \<and> xr_disposition x = d)
           \<and> observe_with_disposition oc d t = (Ok ExperienceUnchanged, t)
       | Err e \<Rightarrow> t = s \<and>
           (\<not> disposition_accepts d (oc_status oc)
            \<or> (\<exists>x. recorded s oc = Some x \<and> (xr_outcome x \<noteq> oc \<or> xr_disposition x \<noteq> d))
            \<or> recorded s oc = None \<and> length (xs_records s) = 2 ^ 64 - 1)
       | Panic \<Rightarrow> False)
    \<and> store_from_wire (xs_next_sequence t) (map record_to_wire (xs_records t)) = Ok t
    \<and> (\<forall>n w u. store_from_wire n w = Ok u \<longrightarrow> experience_ok u)"
proof -
  have ok: "experience_ok t" using experience_ok_observe [OF assms(1,2), of d] assms(3) by simp
  have full: "length (xs_records s) = 2 ^ 64 - 1" if "\<not> unat (xs_next_sequence s) + 1 < 2 ^ 64"
    using that assms(1) unat_less_exp [of "xs_next_sequence s"] by (simp add: experience_ok_def)
  have stored: "recorded (appended oc d s) oc =
      Some \<lparr>xr_sequence = xs_next_sequence s, xr_outcome = oc, xr_disposition = d\<rparr>" if "recorded s oc = None"
    using that by (simp add: recorded_def appended_def find_append)
  have answer: "case r of
      Ok _ \<Rightarrow> (\<exists>x. recorded t oc = Some x \<and> xr_outcome x = oc \<and> xr_disposition x = d)
        \<and> observe_with_disposition oc d t = (Ok ExperienceUnchanged, t)
    | Err e \<Rightarrow> t = s \<and>
        (\<not> disposition_accepts d (oc_status oc)
         \<or> (\<exists>x. recorded s oc = Some x \<and> (xr_outcome x \<noteq> oc \<or> xr_disposition x \<noteq> d))
         \<or> recorded s oc = None \<and> length (xs_records s) = 2 ^ 64 - 1)
    | Panic \<Rightarrow> False"
    using assms(3) stored full
    by (auto simp: observe_with_disposition_eq split: if_splits option.splits)
  have "\<exists>new. xs_records t = xs_records s @ new"
    using assms(3) by (auto simp: observe_with_disposition_eq appended_def split: if_splits option.splits)
  with ok answer show ?thesis by (simp add: store_wire_roundtrip store_from_wire_Ok)
qed

lemma experience_journal_witness:
  "\<exists>t. observe_with_disposition sample_outcome NegativeConfirmed experience_store_new = (Ok ExperienceInserted, t)
     \<and> observe_with_disposition sample_outcome NegativeConfirmed t = (Ok ExperienceUnchanged, t)
     \<and> store_from_wire (xs_next_sequence t) (map record_to_wire (xs_records t)) = Ok t"
proof -
  define t where "t = appended sample_outcome NegativeConfirmed experience_store_new"
  have obs: "observe_with_disposition sample_outcome NegativeConfirmed experience_store_new = (Ok ExperienceInserted, t)"
    by (simp add: observe_with_disposition_eq t_def recorded_def experience_store_new_def sample_outcome_def)
  with experience_journal [OF experience_ok_new sample_outcome_ok obs] show ?thesis by auto
qed

end
