(* ===== verification/Decision_Loop_Properties.thy ===== *)
theory Decision_Loop_Properties
  imports Decision_Loop Rule_Properties Planner_Defense Adaptive_Properties Verification_Properties
    Experience_Properties
begin

text \<open>
  Laws of the decision loop: the session invariant and that every turn keeps it, the error atomicity
  of the turns, the authority of every command they emit, the bound on the number of turns, and exact
  session decoding.
\<close>

section \<open>Invariant\<close>

definition loop_ok :: "decision_loop \<Rightarrow> bool" where
  "loop_ok dl \<longleftrightarrow>
     planner_ok (dl_planner dl) \<and> pipeline_ok (dl_adaptive dl)
   \<and> verifiers_ok (vl_passive (dl_verification dl)) \<and> verifiers_ok (vl_active (dl_verification dl))"

definition session_ok :: "decision_loop \<Rightarrow> decision_session \<Rightarrow> bool" where
  "session_ok dl s \<longleftrightarrow>
     ds_action_cycles s \<le> dc_max_action_cycles (dl_config dl)
   \<and> ledger_ok (ds_adaptation s) \<and> ledger_within (dl_adaptive dl) (dc_adaptation (dl_config dl)) (ds_adaptation s)
   \<and> (case loop_state_case (ds_state s) of
        None \<Rightarrow> True
      | Some c \<Rightarrow> case_ok c \<and> vc_subject c = ds_subject s \<and> 0 < ds_action_cycles s)"

lemma session_ok_new: "session_ok dl (decision_session_new subject)"
  by (simp add: session_ok_def decision_session_new_def ledger_ok_new ledger_within_new)

lemma next_case_with_policy_Ok:
  assumes "next_case_with_policy s a h applies payload origin = Ok c"
  shows "case_ok c \<and> vc_subject c = ds_subject s \<and> vc_action_id c = a \<and> vc_hypothesis_id c = h
    \<and> vc_applies c = applies \<and> vc_payload c = payload
    \<and> vc_id c = ''case:decision:'' @ decimal (Suc (unat (ds_action_cycles s))) @ '':'' @ origin @ '':'' @ a"
  using assms
  by (auto simp: next_case_with_policy_def res_simps Let_def verification_case_new_Ok_iff checked_add_Some_iff
      case_with_payload_strategy_def without_hypothesis_transition_def case_ok_def split: option.splits if_splits)

lemma next_case_Ok:
  assumes "next_case s a m target payload origin = Ok c"
  shows "case_ok c \<and> vc_subject c = ds_subject s \<and> vc_action_id c = a
    \<and> (case target of
         TargetHypothesis h \<Rightarrow> vc_hypothesis_id c = h \<and> vc_applies c
       | TargetKnowledgeOnly \<Rightarrow> vc_hypothesis_id c = m \<and> \<not> vc_applies c)
    \<and> vc_payload c = payload
    \<and> vc_id c = ''case:decision:'' @ decimal (Suc (unat (ds_action_cycles s))) @ '':'' @ origin @ '':'' @ a"
  using assms by (auto simp: next_case_def dest: next_case_with_policy_Ok split: resolved_target.splits)

text \<open>
  How a turn may move a session: it keeps the counters and either leaves the waiting states or waits
  again for the current case, or it issues one more action below the limit.
\<close>

definition rests :: "verification_case option \<Rightarrow> decision_session \<Rightarrow> decision_session \<Rightarrow> bool" where
  "rests current s s' \<longleftrightarrow>
     (\<exists>state. s' = s\<lparr>ds_state := state\<rparr> \<and> (\<forall>c. loop_state_case state = Some c \<longrightarrow> current = Some c))"

definition issues ::
  "u32 \<Rightarrow> decision_session \<Rightarrow> decision_loop_command \<Rightarrow> decision_session \<Rightarrow> bool" where
  "issues limit s command s' \<longleftrightarrow>
     (\<exists>c executor origin delay. command = CmdExecuteAction c executor origin delay
        \<and> ds_action_cycles s < limit \<and> case_ok c \<and> vc_subject c = ds_subject s
        \<and> s' = s\<lparr>ds_action_cycles := ds_action_cycles s + 1, ds_state := AwaitingPassive c\<rparr>)"

lemma issue_action_moves:
  assumes "issue_action s limit c executor origin delay = (command, s')"
    and "case_ok c" and "vc_subject c = ds_subject s"
  shows "rests None s s' \<or> issues limit s command s'"
  using assms by (auto simp: issue_action_def rests_def issues_def not_le split: if_splits)

lemma transition_moves:
  assumes "transition_from_adaptive s limit planner context sn current oc directive suppr = Ok (command, s')"
  shows "rests (if directive = AwaitActiveVerification then Some current else None) s s'
    \<or> issues limit s command s'"
  using assms
  by (cases directive)
    (auto simp: transition_from_adaptive_def res_simps rests_def issues_def issue_action_def not_le
      dest!: next_case_Ok next_case_with_policy_Ok split: if_splits)

lemma first_step_moves:
  assumes "first_step_command dl plan s = Ok (command, s')"
  shows "rests None s s' \<or> issues (dc_max_action_cycles (dl_config dl)) s command s'"
  using assms
  by (auto simp: first_step_command_def res_simps rests_def issues_def issue_action_def not_le
      dest!: next_case_Ok split: if_splits list.splits)

lemma unat_cycle_Suc: "ds_action_cycles s < limit \<Longrightarrow> unat (ds_action_cycles s + 1) = Suc (unat (ds_action_cycles s))"
  using unat_less_exp [of limit] by (subst unat_add_exact) (simp_all add: word_less_nat_alt)

lemma moves_keep_session:
  assumes "rests current s s' \<or> issues (dc_max_action_cycles (dl_config dl)) s command s'"
    and "session_ok dl s" and "\<And>c. current = Some c \<Longrightarrow> loop_state_case (ds_state s) = Some c"
  shows "session_ok dl s'"
  using assms(1)
proof
  assume "rests current s s'"
  then show ?thesis using assms(2,3)
    by (auto simp: rests_def session_ok_def split: option.splits)
next
  assume "issues (dc_max_action_cycles (dl_config dl)) s command s'"
  then have "ds_action_cycles s < dc_max_action_cycles (dl_config dl)" by (auto simp: issues_def)
  with unat_cycle_Suc [OF this]
  have "ds_action_cycles s + 1 \<le> dc_max_action_cycles (dl_config dl)" "0 < ds_action_cycles s + 1"
    by (simp_all add: word_less_nat_alt word_le_nat_alt)
  then show ?thesis using assms(2) \<open>issues _ _ _ _\<close> by (auto simp: issues_def session_ok_def)
qed

section \<open>Turns\<close>

lemma planning_Ok:
  assumes "plan_next_with_action_suppressions env dl auth x host s st = (Ok report, s', st')"
  shows "ds_state s = Ready \<and>
    (if dc_max_action_cycles (dl_config dl) \<le> ds_action_cycles s
     then s' = s\<lparr>ds_state := Halted ActionCycleLimit\<rparr> \<and> pn_command report = CmdHalt ActionCycleLimit
     else first_step_command dl (pn_plan report) s = Ok (pn_command report, s'))
    \<and> pn_transition report = session_transition_of s s'"
proof -
  have ready: "ds_state s = Ready"
    using assms by (auto simp: plan_next_with_action_suppressions_def require_state_def split: if_splits)
  have commit: "x1 = Ok (rep, t)"
    if "commit_turn env auth wrap sn x1 s st0 = (Ok rep, t, st1)" for wrap sn x1 st0 rep t st1
    using that
    by (auto simp: commit_turn_def commit_if_snapshot_current_def Let_def res_simps split: res.splits)
  show ?thesis
  proof (cases "dc_max_action_cycles (dl_config dl) \<le> ds_action_cycles s")
    case True
    with assms ready show ?thesis
      by (auto simp: plan_next_with_action_suppressions_def require_state_def cycle_limit_turn_def Let_def res_simps
          dest!: commit)
  next
    case False
    with assms ready show ?thesis
      by (auto simp: plan_next_with_action_suppressions_def require_state_def planning_turn_def Let_def res_simps
          dest!: commit split: prod.splits res.splits)
  qed
qed

lemma candidate_Ok:
  assumes "conclude_candidate env dl host sn rep x s = Ok cn"
  obtains wr x' d ledger suppr sn' where
    "experience_observe (vp_outcome rep) x = (Ok wr, x')"
    "suppr = combined_suppressions x' s (dc_experience (dl_config dl))
       (case host of None \<Rightarrow> policy_only [] | Some h \<Rightarrow> h)"
    "decide_and_record_with_suppressed_actions (dl_adaptive dl) (vp_outcome rep) sn (ds_adaptation s)
       (dc_adaptation (dl_config dl)) (sup_policy suppr) = (Ok d, ledger)"
    "host \<noteq> None \<or> ends_automation (ad_directive d)"
    "prospective_snapshot (se_projected_at env) rep sn = Ok sn'"
    "transition_from_adaptive (s\<lparr>ds_adaptation := ledger\<rparr>) (dc_max_action_cycles (dl_config dl)) (dl_planner dl)
       (dc_planning (dl_config dl)) sn' (vp_case rep) (vp_outcome rep) (ad_directive d) suppr =
       Ok (cn_command cn, cn_session cn)"
    "cn_experience cn = x'" "cn_adaptive cn = d" "cn_experience_write cn = wr"
  using assms
  by (auto simp: conclude_candidate_def Let_def res_simps split: prod.splits res.splits if_splits)

text \<open>
  The measure that every successful turn decreases: what is left of the two counters, and the state's
  distance from the end.
\<close>

fun state_weight :: "decision_loop_state \<Rightarrow> nat" where
  "state_weight Ready = 1"
| "state_weight (AwaitingPassive c) = 2"
| "state_weight (AwaitingActive c) = 2"
| "state_weight Completed = 0"
| "state_weight (Halted reason) = 0"

definition loop_measure :: "decision_loop \<Rightarrow> decision_session \<Rightarrow> nat" where
  "loop_measure dl s =
     2 * (unat (dc_max_action_cycles (dl_config dl)) - unat (ds_action_cycles s))
   + 2 * (unat (al_max_transitions (dc_adaptation (dl_config dl))) - unat (lg_transitions (ds_adaptation s)))
   + state_weight (ds_state s)"

lemma state_weight_le: "state_weight state \<le> 2"
  by (cases state) simp_all

lemma waiting_weight: "loop_state_case state = Some c \<longleftrightarrow> state = AwaitingPassive c \<or> state = AwaitingActive c"
  by (cases state) auto

text \<open>Moving on one adaptive transition, and halting without one, both make progress.\<close>

lemma transition_progress:
  assumes "session_ok dl s" and "loop_state_case (ds_state s) = Some c"
    and "transition_from_adaptive (s\<lparr>ds_adaptation := ledger\<rparr>) (dc_max_action_cycles (dl_config dl)) planner
       context sn c oc directive suppr = Ok (command, s')"
    and "if al_max_transitions (dc_adaptation (dl_config dl)) \<le> lg_transitions (ds_adaptation s)
       then ledger = ds_adaptation s \<and> directive = Halt
       else unat (lg_transitions ledger) = Suc (unat (lg_transitions (ds_adaptation s)))"
  shows "loop_measure dl s' < loop_measure dl s"
proof -
  have weight: "state_weight (ds_state s) = 2" using assms(2) by (auto simp: waiting_weight)
  show ?thesis
  proof (cases "al_max_transitions (dc_adaptation (dl_config dl)) \<le> lg_transitions (ds_adaptation s)")
    case True
    with assms(3,4) have "ds_state s' = Halted AdaptationLimit" "ds_action_cycles s' = ds_action_cycles s"
      "ds_adaptation s' = ds_adaptation s" by (auto simp: transition_from_adaptive_def)
    with weight show ?thesis by (simp add: loop_measure_def)
  next
    case False
    then have budget: "2 * (unat (al_max_transitions (dc_adaptation (dl_config dl))) - unat (lg_transitions ledger)) + 2 =
        2 * (unat (al_max_transitions (dc_adaptation (dl_config dl))) - unat (lg_transitions (ds_adaptation s)))"
      using assms(4) by (simp add: word_le_nat_alt)
    have ledger: "ds_adaptation s' = ledger"
      using transition_moves [OF assms(3)] by (auto simp: rests_def issues_def)
    have "unat (ds_action_cycles s) \<le> unat (ds_action_cycles s')"
      using transition_moves [OF assms(3)] unat_cycle_Suc [of s "dc_max_action_cycles (dl_config dl)"]
      by (auto simp: rests_def issues_def)
    then show ?thesis
      using budget ledger weight state_weight_le [of "ds_state s'"] by (simp add: loop_measure_def)
  qed
qed

text \<open>The order in which sessions and journals grow.\<close>

definition session_le :: "decision_session \<Rightarrow> decision_session \<Rightarrow> bool" where
  "session_le s s' \<longleftrightarrow>
     ds_subject s' = ds_subject s \<and> ds_action_cycles s \<le> ds_action_cycles s'
   \<and> lg_transitions (ds_adaptation s) \<le> lg_transitions (ds_adaptation s')
   \<and> set (lg_suppressed (ds_adaptation s)) \<subseteq> set (lg_suppressed (ds_adaptation s'))"

definition journal_le :: "experience_store \<Rightarrow> experience_store \<Rightarrow> bool" where
  "journal_le x x' \<longleftrightarrow> (\<exists>new. xs_records x' = xs_records x @ new)"

lemma session_le_refl [simp]: "session_le s s"
  by (simp add: session_le_def)

lemma journal_le_refl [simp]: "journal_le x x"
  by (simp add: journal_le_def)

lemma journal_le_observe: "experience_observe oc x = (r, x') \<Longrightarrow> journal_le x x'"
  by (auto simp: experience_observe_def observe_with_disposition_eq journal_le_def appended_def
      split: option.splits if_splits)

lemma moves_forward:
  assumes "rests current s s' \<or> issues limit s command s'"
  shows "session_le s s'"
  using assms unat_cycle_Suc [of s limit]
  by (auto simp: rests_def issues_def session_le_def word_le_nat_alt)

lemma session_le_trans: "session_le s t \<Longrightarrow> session_le t u \<Longrightarrow> session_le s u"
  by (auto simp: session_le_def)

lemma finalize_keeps:
  assumes dl: "loop_ok dl" and s: "session_ok dl s" "loop_state_case (ds_state s) = Some c"
    and rep: "verifiers_ok rg" "evaluate_registry rg c sn baseline = Ok rep"
    and run: "finalize_outcome env dl auth host sn rep x s st = (r, x', s', st')"
  shows "session_ok dl s' \<and> session_le s s' \<and> (experience_ok x \<longrightarrow> experience_ok x') \<and> journal_le x x'
    \<and> (if is_ok r then loop_measure dl s' < loop_measure dl s else x' = x \<and> s' = s)"
proof (cases "is_ok r")
  case False
  then have "x' = x \<and> s' = s"
    using run by (auto simp: finalize_outcome_def split: res.splits prod.splits)
  with False s(1) show ?thesis by simp
next
  case True
  with run obtain cn where cn: "conclude_candidate env dl host sn rep x s = Ok cn"
    and x': "x' = cn_experience cn" "s' = cn_session cn"
    by (auto simp: finalize_outcome_def split: res.splits prod.splits)
  have case_ok: "case_ok c" using s by (simp add: session_ok_def)
  note facts = evaluate_registry_Ok [OF rep(1) case_ok rep(2)]
  then have oc: "outcome_ok (vp_outcome rep)" and vp: "vp_case rep = c" by simp_all
  from candidate_Ok [OF cn] obtain wr x1 d ledger suppr sn' where
    obs: "experience_observe (vp_outcome rep) x = (Ok wr, x1)" and x1: "cn_experience cn = x1"
    and dec: "decide_and_record_with_suppressed_actions (dl_adaptive dl) (vp_outcome rep) sn (ds_adaptation s)
       (dc_adaptation (dl_config dl)) (sup_policy suppr) = (Ok d, ledger)"
    and tr: "transition_from_adaptive (s\<lparr>ds_adaptation := ledger\<rparr>) (dc_max_action_cycles (dl_config dl)) (dl_planner dl)
       (dc_planning (dl_config dl)) sn' c (vp_outcome rep) (ad_directive d) suppr = Ok (cn_command cn, cn_session cn)"
    unfolding vp by metis
  have "pipeline_ok (dl_adaptive dl)" using dl by (simp add: loop_ok_def)
  from decide_and_record_keeps [OF this oc _ _ dec] s(1)
  have led: "ledger_ok ledger" "ledger_within (dl_adaptive dl) (dc_adaptation (dl_config dl)) ledger"
    and le: "session_le s (s\<lparr>ds_adaptation := ledger\<rparr>)"
    and grow: "if al_max_transitions (dc_adaptation (dl_config dl)) \<le> lg_transitions (ds_adaptation s)
       then ledger = ds_adaptation s \<and> ad_directive d = Halt
       else unat (lg_transitions ledger) = Suc (unat (lg_transitions (ds_adaptation s)))"
    by (simp_all add: session_ok_def session_le_def)
  have mid: "session_ok dl (s\<lparr>ds_adaptation := ledger\<rparr>)" using s(1) led by (simp add: session_ok_def split: option.splits)
  have "session_ok dl s'"
    unfolding x'(2) by (rule moves_keep_session [OF transition_moves [OF tr] mid]) (use s(2) in \<open>auto split: if_splits\<close>)
  moreover have "experience_ok x'" if "experience_ok x"
    using experience_ok_observe [OF that oc] obs x1 x'(1) by (metis experience_observe_def snd_conv)
  moreover have "session_le s s'"
    using session_le_trans [OF le moves_forward [OF transition_moves [OF tr]]] x'(2) by simp
  ultimately show ?thesis
    using True transition_progress [OF s tr grow] journal_le_observe [OF obs] x1 x' by simp
qed

lemma planning_keeps:
  assumes "session_ok dl s" and "plan_next_with_action_suppressions env dl auth x host s st = (r, s', st')"
  shows "session_ok dl s' \<and> session_le s s' \<and> (if is_ok r then loop_measure dl s' < loop_measure dl s else s' = s)"
proof (cases r)
  case (Ok report)
  note facts = planning_Ok [OF assms(2) [unfolded Ok]]
  have moves: "rests None s s' \<or> issues (dc_max_action_cycles (dl_config dl)) s (pn_command report) s'"
  proof (cases "dc_max_action_cycles (dl_config dl) \<le> ds_action_cycles s")
    case True
    with facts show ?thesis by (auto simp: rests_def)
  next
    case False
    with facts have "first_step_command dl (pn_plan report) s = Ok (pn_command report, s')" by simp
    then show ?thesis by (rule first_step_moves)
  qed
  have "loop_measure dl s' < loop_measure dl s"
    using moves
  proof
    assume "rests None s s'"
    then obtain state where s': "s' = s\<lparr>ds_state := state\<rparr>" "loop_state_case state = None"
      by (auto simp: rests_def)
    moreover have "ds_state s' \<noteq> Ready"
      using facts by (auto simp: first_step_command_def res_simps issue_action_def split: if_splits list.splits)
    ultimately show ?thesis using facts by (cases state) (auto simp: loop_measure_def)
  next
    assume "issues (dc_max_action_cycles (dl_config dl)) s (pn_command report) s'"
    then have "ds_action_cycles s < dc_max_action_cycles (dl_config dl)"
      and s': "ds_action_cycles s' = ds_action_cycles s + 1" "state_weight (ds_state s') = 2"
        "ds_adaptation s' = ds_adaptation s"
      by (auto simp: issues_def)
    with unat_cycle_Suc [OF this(1)] facts show ?thesis
      by (simp add: loop_measure_def word_less_nat_alt)
  qed
  with Ok moves_keep_session [OF moves assms(1)] moves_forward [OF moves] show ?thesis by simp
next
  case (Err e)
  with assms show ?thesis
    by (auto simp: plan_next_with_action_suppressions_def commit_turn_def Let_def split: res.splits prod.splits if_splits)
next
  case Panic
  with assms show ?thesis
    by (auto simp: plan_next_with_action_suppressions_def commit_turn_def Let_def split: res.splits prod.splits if_splits)
qed

lemma passive_keeps:
  assumes "loop_ok dl" and "session_ok dl s"
    and "submit_passive_with_optional_suppressions env dl auth host x s st = (r, x', s', st')"
  shows "session_ok dl s' \<and> session_le s s' \<and> (experience_ok x \<longrightarrow> experience_ok x') \<and> journal_le x x'
    \<and> (if is_ok r then loop_measure dl s' < loop_measure dl s else x' = x \<and> s' = s)"
proof (cases "x' = x \<and> s' = s \<and> \<not> is_ok r")
  case False
  with assms(3) obtain c sn rep st1 where "ds_state s = AwaitingPassive c"
    and rep: "evaluate_registry (vl_passive (dl_verification dl)) c sn None = Ok rep"
    and run: "finalize_outcome env dl auth host sn rep x s st1 = (r, x', s', st')"
    by (auto simp: submit_passive_with_optional_suppressions_def Let_def res_simps passive_verify_snapshot_def
        split: decision_loop_state.splits res.splits)
  then show ?thesis
    using finalize_keeps [OF assms(1,2) _ _ rep run] assms(1) by (simp add: loop_ok_def)
qed (use assms(2) in auto)

lemma active_keeps:
  assumes "loop_ok dl" and "session_ok dl s"
    and "submit_active_with_optional_suppressions env dl auth host baseline after_probe x s st = (r, x', s', st')"
  shows "session_ok dl s' \<and> session_le s s' \<and> (experience_ok x \<longrightarrow> experience_ok x') \<and> journal_le x x'
    \<and> (if is_ok r then loop_measure dl s' < loop_measure dl s else x' = x \<and> s' = s)"
proof (cases "x' = x \<and> s' = s \<and> \<not> is_ok r")
  case False
  with assms(3) obtain c rep where "ds_state s = AwaitingActive c"
    and rep: "evaluate_registry (vl_active (dl_verification dl)) c after_probe (Some baseline) = Ok rep"
    and run: "finalize_outcome env dl auth host after_probe rep x s st = (r, x', s', st')"
    by (auto simp: submit_active_with_optional_suppressions_def Let_def res_simps active_verify_snapshots_def
        split: decision_loop_state.splits res.splits)
  then show ?thesis
    using finalize_keeps [OF assms(1,2) _ _ rep run] assms(1) by (simp add: loop_ok_def)
qed (use assms(2) in auto)

section \<open>Runs\<close>

record loop_world =
  lw_session :: decision_session
  lw_experience :: experience_store
  lw_knowledge :: knowledge_state

text \<open>
  Everything that can happen to a session, labelled with whether it is a successful turn: the turns
  and the replanning after a defense suppression with whatever arguments and environment, the host's
  final states, and writes of others to the knowledge base.
\<close>

inductive loop_step :: "decision_loop \<Rightarrow> knowledge_authority \<Rightarrow> bool \<Rightarrow> loop_world \<Rightarrow> loop_world \<Rightarrow> bool"
  for dl auth where
  planned: "plan_next_with_action_suppressions env dl auth x host s st = (r, s', st') \<Longrightarrow>
    loop_step dl auth (is_ok r) \<lparr>lw_session = s, lw_experience = x, lw_knowledge = st\<rparr>
      \<lparr>lw_session = s', lw_experience = x, lw_knowledge = st'\<rparr>"
| passive_submitted: "submit_passive_with_optional_suppressions env dl auth policy x s st = (r', x', s', st') \<Longrightarrow>
    loop_step dl auth (is_ok r') \<lparr>lw_session = s, lw_experience = x, lw_knowledge = st\<rparr>
      \<lparr>lw_session = s', lw_experience = x', lw_knowledge = st'\<rparr>"
| active_submitted:
    "submit_active_with_optional_suppressions env dl auth policy baseline after_probe x s st = (r', x', s', st') \<Longrightarrow>
    loop_step dl auth (is_ok r') \<lparr>lw_session = s, lw_experience = x, lw_knowledge = st\<rparr>
      \<lparr>lw_session = s', lw_experience = x', lw_knowledge = st'\<rparr>"
| replanned: "replan_after_defense_suppression s = (r'', s') \<Longrightarrow>
    loop_step dl auth (is_ok r'') \<lparr>lw_session = s, lw_experience = x, lw_knowledge = st\<rparr>
      \<lparr>lw_session = s', lw_experience = x, lw_knowledge = st\<rparr>"
| finalized: "s' \<in> {halt_for_runtime_budget s, halt_for_host_cancellation s, finalize_objective_complete s,
      finalize_human_review s} \<Longrightarrow>
    loop_step dl auth False \<lparr>lw_session = s, lw_experience = x, lw_knowledge = st\<rparr>
      \<lparr>lw_session = s', lw_experience = x, lw_knowledge = st\<rparr>"
| written: "loop_step dl auth False \<lparr>lw_session = s, lw_experience = x, lw_knowledge = st\<rparr>
      \<lparr>lw_session = s, lw_experience = x, lw_knowledge = st'\<rparr>"

inductive_cases loop_stepE: "loop_step dl auth success w w'"

definition world_ok :: "decision_loop \<Rightarrow> loop_world \<Rightarrow> bool" where
  "world_ok dl w \<longleftrightarrow> session_ok dl (lw_session w) \<and> experience_ok (lw_experience w)"

definition world_le :: "loop_world \<Rightarrow> loop_world \<Rightarrow> bool" where
  "world_le w w' \<longleftrightarrow>
     session_le (lw_session w) (lw_session w') \<and> journal_le (lw_experience w) (lw_experience w')"

lemma loop_step_keeps:
  assumes "loop_step dl auth success w w'" and "loop_ok dl" and "world_ok dl w"
  shows "world_ok dl w' \<and> world_le w w'
    \<and> (if success then loop_measure dl (lw_session w') < loop_measure dl (lw_session w)
       else loop_measure dl (lw_session w') \<le> loop_measure dl (lw_session w))"
  using assms
proof cases
  case (planned env x host s st r s' st')
  with assms planning_keeps [OF _ planned(4)] show ?thesis by (auto simp: world_ok_def world_le_def)
next
  case (passive_submitted env policy x s st r' x' s' st')
  with assms passive_keeps [OF assms(2) _ passive_submitted(4)] show ?thesis
    by (auto simp: world_ok_def world_le_def)
next
  case (active_submitted env policy baseline after_probe x s st r' x' s' st')
  with assms active_keeps [OF assms(2) _ active_submitted(4)] show ?thesis
    by (auto simp: world_ok_def world_le_def)
next
  case (replanned s r'' s' x st)
  with assms show ?thesis
    by (auto simp: world_ok_def world_le_def replan_after_defense_suppression_def session_ok_def session_le_def
        loop_measure_def waiting_weight split: option.splits)
next
  case (finalized s' s x st)
  with assms show ?thesis
    by (auto simp: world_ok_def world_le_def session_ok_def session_le_def loop_measure_def
        halt_for_runtime_budget_def halt_for_host_cancellation_def finalize_objective_complete_def
        finalize_human_review_def)
next
  case (written s x st st')
  with assms show ?thesis by (simp add: world_ok_def world_le_def)
qed

interpretation decision_machine: forward_machine "\<lambda>w w'. \<exists>success. loop_step dl auth success w w'"
    "\<lambda>w. loop_ok dl \<and> world_ok dl w" world_le
  for dl auth
proof
  show "world_le w w" for w by (simp add: world_le_def)
  show "world_le t u \<Longrightarrow> world_le s t \<Longrightarrow> world_le s u" for s t u
    by (auto simp: world_le_def journal_le_def intro: session_le_trans)
qed (use loop_step_keeps in blast)+

section \<open>Authority\<close>

text \<open>
  A step that may be dispatched on its own: a registered action without prerequisites, suppressed by
  neither authority, affordable, and eligible on the snapshot with the data that the step carries.
\<close>

definition authorised_step ::
  "attack_planner \<Rightarrow> knowledge_snapshot \<Rightarrow> planning_context \<Rightarrow> suppression_context \<Rightarrow> plan_step \<Rightarrow> bool" where
  "authorised_step planner sn context suppr step \<longleftrightarrow>
     (\<exists>a cand. map_of planner (st_action_id step) = Some a \<and> act_prerequisites a = []
        \<and> st_action_id step \<notin> set (sup_policy suppr) \<and> st_action_id step \<notin> set (sup_defense suppr)
        \<and> ucast (act_cost a) \<le> pc_budget context
        \<and> candidate_authorised sn context a cand \<and> step = plan_step_of (st_position step) cand)"

lemma renumbered_head:
  "renumber 0 steps = step # rest \<Longrightarrow> \<exists>b. b \<in> set steps \<and> step = b\<lparr>st_position := 0\<rparr>"
  by (cases steps) (auto simp: renumber_def)

lemma first_step_authorised:
  assumes "planner_ok planner"
    and "plan_with_action_suppressions_and_baseline planner sn context suppr = Ok (baseline, plan)"
    and "ap_steps plan = step # rest"
  shows "authorised_step planner sn context suppr step"
proof -
  from assms(2) have base: "plan_with_policy_suppressed planner sn context (sup_policy suppr) = Ok baseline"
    by (auto simp: plan_with_action_suppressions_and_baseline_def res_simps)
  note facts = filtered_plan_facts [OF assms(1,2)]
  note plan = plan_facts [OF assms(1) base [folded plan_snapshot_with_suppressed_eq]]
  from facts have "renumber 0 (filter (\<lambda>s. survives (ap_steps baseline) (sup_defense suppr) (st_action_id s))
      (ap_steps baseline)) = step # rest"
    using assms(3) by (simp add: defense_filtered_def)
  from renumbered_head [OF this] obtain b where b: "b \<in> set (ap_steps baseline)" "step = b\<lparr>st_position := 0\<rparr>"
    by auto
  from plan b(1) obtain a cand where a: "map_of planner (st_action_id b) = Some a"
    "st_action_id b \<notin> set (sup_policy suppr)" "candidate_authorised sn context a cand"
    "b = plan_step_of (st_position b) cand" by blast
  have step: "step = plan_step_of 0 cand"
    using arg_cong [OF a(4), of "\<lambda>b. b\<lparr>st_position := 0\<rparr>"] b(2) by (simp add: plan_step_of_def)
  have id: "st_action_id step = st_action_id b" "st_position step = 0" using b(2) by simp_all
  have "set (st_prerequisites step) \<subseteq> {}" using facts assms(3) by simp
  then have pre: "act_prerequisites a = []"
    using a(3) step by (simp add: plan_step_of_def candidate_authorised_def)
  have "ub_cost (st_utility step) = act_cost a" using a(3) step by (simp add: plan_step_of_def candidate_authorised_def)
  moreover have "unat (ub_cost (st_utility step)) \<le> unat (ap_total_cost plan)"
    using facts assms(3) by (simp add: defense_filtered_def)
  ultimately have "unat (act_cost a) \<le> unat (pc_budget context)"
    using facts plan by (auto simp: word_le_nat_alt)
  then have "ucast (act_cost a) \<le> pc_budget context" by (simp add: word_le_nat_alt unat_ucast_widen)
  with a pre step id facts assms(3) show ?thesis unfolding authorised_step_def by auto
qed

lemma scheduled_step_authorised:
  assumes "planner_ok planner" and "authorize_scheduled_action planner sn context suppr i = Ok step"
  shows "authorised_step planner sn context suppr step \<and> st_action_id step = i"
proof -
  from assms(2) obtain a where a: "map_of planner i = Some a"
    by (auto simp: authorize_scheduled_action_def res_simps split: option.splits)
  let ?sup = "if i \<in> set (sup_defense suppr) then Some DefenseSuppressed
        else if i \<in> set (sup_policy suppr) then Some PolicySuppressed else None"
  from assms(2) a obtain r where r: "evaluate_candidate a sn context ?sup = Ok r"
    by (auto simp: authorize_scheduled_action_def res_simps)
  with assms(2) a obtain cand where "r = Inl cand"
    and step: "act_prerequisites (ec_action cand) = []" "\<not> pc_budget context < ucast (act_cost (ec_action cand))"
      "step = plan_step_of 0 cand"
    by (cases r) (auto simp: authorize_scheduled_action_def res_simps split: if_splits)
  then have cand: "evaluate_candidate a sn context ?sup = Ok (Inl cand)" using r by simp
  note facts = evaluate_candidate_eligible [OF cand]
  then have "ec_action cand = a" and "i \<notin> set (sup_defense suppr)" "i \<notin> set (sup_policy suppr)"
    by (auto simp: candidate_authorised_def split: if_splits)
  moreover have "act_id a = i" using assms(1) a by (simp add: planner_ok_def actions_keyed_def)
  ultimately show ?thesis
    using a facts step by (auto simp: authorised_step_def plan_step_of_def)
qed

text \<open>The case of an authorised step stays within the claim authority of its action.\<close>

lemma authorised_case:
  assumes "authorised_step planner sn context suppr step"
    and "next_case s (st_action_id step) (st_confidence_id step) (st_target step) payload origin = Ok c"
  shows "validate_outstanding_case_authority planner sn c = Ok ()"
proof -
  from assms(1) obtain a cand where a: "map_of planner (st_action_id step) = Some a"
    and cand: "candidate_authorised sn context a cand" and step: "step = plan_step_of (st_position step) cand"
    by (auto simp: authorised_step_def)
  from cand obtain h where h: "selector_select (act_confidence a) (sn_hypotheses sn) = Some h"
      "target_resolve (act_target a) (sn_hypotheses sn) (h_id h) = Some (ec_target cand)"
    by (auto simp: candidate_authorised_def)
  have step: "st_target step = ec_target cand"
    using arg_cong [OF step, of st_target] by (simp add: plan_step_of_def)
  from next_case_Ok [OF assms(2)] a h step show ?thesis
    by (auto simp: validate_outstanding_case_authority_def split: resolved_target.splits)
qed

definition planning_env_ok :: "planning_env \<Rightarrow> bool" where
  "planning_env_ok env \<longleftrightarrow>
     honest (pe_gap env) \<and> honest (pe_apply env) \<and> honest (\<lambda>_. pe_before_snapshot env)
   \<and> honest (\<lambda>_. pe_before_commit env)"

lemma rule_apply_runs:
  assumes "knowledge_reachable st" and "honest gap" and "honest env"
    and "rule_apply clock gap env eng \<lparr>kb_authority = auth, kb_state = st\<rparr> s = (Ok apps, st')"
  shows "knowledge_step\<^sup>*\<^sup>* st st'"
proof -
  from apply_attempts_Ok [OF assms(1-3), of clock eng auth s 1 apps st'] assms(4) obtain st1 hs ws where
    run: "knowledge_step\<^sup>*\<^sup>* st st1" and
    batch: "upsert_reasoning_hypothesis_batch clock \<lparr>kb_authority = auth, kb_state = st1\<rparr>
      (snapshot_for_subject \<lparr>kb_authority = auth, kb_state = st1\<rparr> s) hs = (Ok ws, st')"
    by (auto simp: rule_apply_def)
  then have "upsert_hypothesis_batch_with_policy clock \<lparr>kb_authority = auth, kb_state = st1\<rparr> hs True
      (Some (snapshot_for_subject \<lparr>kb_authority = auth, kb_state = st1\<rparr> s)) = (Ok ws, st')"
    by (auto simp: upsert_reasoning_hypothesis_batch_def split: option.splits)
  then have "knowledge_step st1 st'" by (rule step_hypotheses) simp
  with run show ?thesis by simp
qed

lemma commit_turn_fresh:
  assumes "commit_turn env auth wrap (snapshot_for_subject \<lparr>kb_authority = auth, kb_state = st\<rparr> subject) turn s st
      = (Ok report, s', st')"
    and "knowledge_reachable st" and "honest (\<lambda>_. pe_before_commit env)"
  shows "turn = Ok (report, s')
    \<and> snapshot_for_subject \<lparr>kb_authority = auth, kb_state = st'\<rparr> subject =
      snapshot_for_subject \<lparr>kb_authority = auth, kb_state = st\<rparr> subject"
proof -
  have "turn = Ok (report, s')" and st': "st' = pe_before_commit env st"
    and rev: "subject_revision st' subject = subject_revision st subject"
      "ks_ontology_revision st' = ks_ontology_revision st"
    using assms(1)
    by (auto simp: commit_turn_def Let_def commit_if_snapshot_current_def res_simps snapshot_for_subject_def
        validate_revisions_Ok_iff split: res.splits)
  have run: "knowledge_step\<^sup>*\<^sup>* st st'" unfolding st' using honestD [OF assms(3)] by simp
  have wf: "knowledge_wf st" by (rule reachable_wf [OF assms(2)])
  from snapshot_eqI [OF wf knowledge_machine.run_inv [OF run wf] knowledge_machine.run_le [OF run wf] rev]
    \<open>turn = Ok (report, s')\<close> show ?thesis by simp
qed

lemma planning_fresh:
  assumes "planning_env_ok env" and "knowledge_reachable st"
    and "plan_next_with_action_suppressions env dl auth x host s st = (Ok report, s', st')"
    and "ds_action_cycles s < dc_max_action_cycles (dl_config dl)"
  shows "\<exists>apps. planning_turn dl x host apps
      (snapshot_for_subject \<lparr>kb_authority = auth, kb_state = st'\<rparr> (ds_subject s)) s = Ok (report, s')"
proof -
  have ready: "ds_state s = Ready" using planning_Ok [OF assms(3)] by simp
  have below: "\<not> dc_max_action_cycles (dl_config dl) \<le> ds_action_cycles s" using assms(4) by simp
  from assms(3) ready obtain apps st1 where
    reasoned: "rule_apply (pe_clock env) (pe_gap env) (pe_apply env) (dl_rules dl) \<lparr>kb_authority = auth, kb_state = st\<rparr>
      (ds_subject s) = (Ok apps, st1)" and
    turn: "commit_turn env auth
       (after_reasoning s (snapshot_for_subject \<lparr>kb_authority = auth, kb_state = pe_before_snapshot env st1\<rparr> (ds_subject s)) apps)
       (snapshot_for_subject \<lparr>kb_authority = auth, kb_state = pe_before_snapshot env st1\<rparr> (ds_subject s))
       (planning_turn dl x host apps
         (snapshot_for_subject \<lparr>kb_authority = auth, kb_state = pe_before_snapshot env st1\<rparr> (ds_subject s)) s)
       s (pe_before_snapshot env st1) = (Ok report, s', st')"
    by (auto simp: plan_next_with_action_suppressions_def require_state_def Let_def below split: prod.splits res.splits)
  have "knowledge_step\<^sup>*\<^sup>* st st1"
    using rule_apply_runs [OF assms(2) _ _ reasoned] assms(1) by (simp add: planning_env_ok_def)
  moreover have "knowledge_step\<^sup>*\<^sup>* st1 (pe_before_snapshot env st1)"
    using assms(1) honestD [of "\<lambda>_. pe_before_snapshot env" st1] by (simp add: planning_env_ok_def)
  ultimately have "knowledge_reachable (pe_before_snapshot env st1)" using assms(2) by (meson rtranclp_trans)
  from commit_turn_fresh [OF turn this] assms(1) show ?thesis by (auto simp: planning_env_ok_def)
qed

text \<open>Who suppresses an action for a session.\<close>

definition suppressed_for ::
  "decision_loop \<Rightarrow> experience_store \<Rightarrow> suppression_context \<Rightarrow> decision_session \<Rightarrow> string set" where
  "suppressed_for dl x host s =
     set (suppressed_actions x (ds_subject s) (dc_experience (dl_config dl)))
   \<union> set (lg_suppressed (ds_adaptation s)) \<union> set (sup_policy host) \<union> set (sup_defense host)"

lemma combined_suppressed:
  "set (sup_policy (combined_suppressions x s (dc_experience (dl_config dl)) host)) \<union>
   set (sup_defense (combined_suppressions x s (dc_experience (dl_config dl)) host)) = suppressed_for dl x host s"
  by (auto simp: combined_suppressions_def suppressed_for_def bset_union_def set_fold_bset_insert)

text \<open>
  C4. Planning dispatches only what is authorised now. When a planning turn commits a command to
  execute an action, the action is the first step of the reported plan: registered, without
  prerequisites, affordable, suppressed by neither experience, adaptation, host policy nor defense,
  and eligible on the knowledge as it is when the turn commits, whatever other writers did
  meanwhile. The case of the command stays within the claim authority of the action, and the session
  has issued one more action, below its limit, and waits for that case.
\<close>

theorem planned_command_authorised:
  assumes "loop_ok dl" and "planning_env_ok env" and "knowledge_reachable st"
    and "plan_next_with_action_suppressions env dl auth x host s st = (Ok report, s', st')"
    and "pn_command report = CmdExecuteAction c executor origin delay"
  shows "\<exists>step rest. ap_steps (pn_plan report) = step # rest
    \<and> authorised_step (dl_planner dl) (snapshot_for_subject \<lparr>kb_authority = auth, kb_state = st'\<rparr> (ds_subject s))
        (dc_planning (dl_config dl)) (combined_suppressions x s (dc_experience (dl_config dl)) host) step
    \<and> st_action_id step \<notin> suppressed_for dl x host s
    \<and> vc_action_id c = st_action_id step \<and> executor = Some (st_executor step) \<and> origin = Planned \<and> delay = None
    \<and> validate_execution_command_authority (dl_planner dl) \<lparr>kb_authority = auth, kb_state = st'\<rparr> (pn_command report)
        = Ok ()
    \<and> ds_action_cycles s < dc_max_action_cycles (dl_config dl)
    \<and> s' = s\<lparr>ds_action_cycles := ds_action_cycles s + 1, ds_state := AwaitingPassive c\<rparr>"
proof -
  let ?sn = "snapshot_for_subject \<lparr>kb_authority = auth, kb_state = st'\<rparr> (ds_subject s)"
  let ?suppr = "combined_suppressions x s (dc_experience (dl_config dl)) host"
  have below: "ds_action_cycles s < dc_max_action_cycles (dl_config dl)"
    using planning_Ok [OF assms(4)] assms(5) by (auto split: if_splits)
  then have issue: "\<not> dc_max_action_cycles (dl_config dl) \<le> ds_action_cycles s" by simp
  from planning_fresh [OF assms(2-4) below] obtain apps baseline where
    plan: "plan_with_action_suppressions_and_baseline (dl_planner dl) ?sn (dc_planning (dl_config dl)) ?suppr =
      Ok (baseline, pn_plan report)"
    and first: "first_step_command dl (pn_plan report) s = Ok (pn_command report, s')"
    by (auto simp: planning_turn_def Let_def res_simps)
  from first assms(5) obtain step rest where steps: "ap_steps (pn_plan report) = step # rest"
    by (auto simp: first_step_command_def split: list.splits)
  with first assms(5) have nc: "next_case s (st_action_id step) (st_confidence_id step) (st_target step)
      (st_payload step) ''planned'' = Ok c"
    and issued: "executor = Some (st_executor step)" "origin = Planned" "delay = None"
      "s' = s\<lparr>ds_action_cycles := ds_action_cycles s + 1, ds_state := AwaitingPassive c\<rparr>"
    by (auto simp: first_step_command_def res_simps issue_action_def issue)
  have auth: "authorised_step (dl_planner dl) ?sn (dc_planning (dl_config dl)) ?suppr step"
    using first_step_authorised [OF _ plan steps] assms(1) by (simp add: loop_ok_def)
  then have "st_action_id step \<notin> suppressed_for dl x host s"
    unfolding combined_suppressed [symmetric] by (auto simp: authorised_step_def)
  moreover have "vc_action_id c = st_action_id step" "vc_subject c = ds_subject s"
    using next_case_Ok [OF nc] by simp_all
  ultimately show ?thesis
    using steps auth issued below authorised_case [OF auth nc] assms(5) by simp
qed

text \<open>How an authorised step continues an outstanding case, where \<open>below\<close> says that the cycle limit is not reached.\<close>

definition continues_as ::
  "attack_planner \<Rightarrow> knowledge_snapshot \<Rightarrow> bool \<Rightarrow> verification_case \<Rightarrow> plan_step \<Rightarrow> decision_loop_command \<Rightarrow> bool" where
  "continues_as planner sn below current step command \<longleftrightarrow>
     (case command of
        CmdExecuteAction c executor origin delay \<Rightarrow>
          below \<and> executor = Some (st_executor step)
        \<and> (origin = Adaptive \<and> delay = None \<and> validate_outstanding_case_authority planner sn c = Ok ()
           \<or> origin = Retry \<and> delay \<noteq> None \<and> vc_action_id c = vc_action_id current
             \<and> vc_hypothesis_id c = vc_hypothesis_id current \<and> vc_applies c = vc_applies current)
      | CmdCollectActiveEvidence c \<Rightarrow> c = current
      | _ \<Rightarrow> False)"

lemma adaptive_step_authorised:
  assumes "planner_ok planner"
    and "transition_from_adaptive s limit planner context sn current oc directive suppr = Ok (command, s')"
    and "oc_action_id oc = vc_action_id current" and "execution_command_action_id command = Some i"
  shows "\<not> ends_automation directive \<and>
    (\<exists>step. authorised_step planner sn context suppr step \<and> st_action_id step = i
      \<and> continues_as planner sn (ds_action_cycles s < limit) current step command)"
proof (cases directive)
  case (ScheduleAction a)
  with assms(2,4) obtain step c where step: "authorize_scheduled_action planner sn context suppr a = Ok step"
    and nc: "next_case s (st_action_id step) (st_confidence_id step) (st_target step) (st_payload step) ''adaptive'' = Ok c"
    and command: "command = CmdExecuteAction c (Some (st_executor step)) Adaptive None" "ds_action_cycles s < limit"
    by (auto simp: transition_from_adaptive_def res_simps authorize_adaptive_action_def issue_action_def not_le
        split: if_splits)
  note auth = scheduled_step_authorised [OF assms(1) step]
  have "i = st_action_id step" using assms(4) command(1) next_case_Ok [OF nc] by simp
  with ScheduleAction command auth authorised_case [OF _ nc] show ?thesis by (auto simp: continues_as_def)
next
  case (Throttle delay retry)
  with assms(2,4) obtain step c where step: "authorize_scheduled_action planner sn context suppr (oc_action_id oc) = Ok step"
    and nc: "next_case_with_policy s (oc_action_id oc) (vc_hypothesis_id current) (vc_applies current)
      (vc_payload current) ''retry'' = Ok c"
    and command: "command = CmdExecuteAction c (Some (st_executor step)) Retry (Some delay)" "ds_action_cycles s < limit"
    by (auto simp: transition_from_adaptive_def res_simps authorize_adaptive_action_def issue_action_def not_le
        split: if_splits)
  note auth = scheduled_step_authorised [OF assms(1) step]
  have "i = oc_action_id oc" using assms(4) command(1) next_case_with_policy_Ok [OF nc] by simp
  with Throttle command auth assms(3) next_case_with_policy_Ok [OF nc] show ?thesis by (auto simp: continues_as_def)
next
  case AwaitActiveVerification
  with assms(2,4) obtain step where
    step: "authorize_scheduled_action planner sn context suppr (vc_action_id current) = Ok step"
    and command: "command = CmdCollectActiveEvidence current"
    by (auto simp: transition_from_adaptive_def res_simps authorize_adaptive_action_def split: if_splits)
  with AwaitActiveVerification scheduled_step_authorised [OF assms(1) step] assms(4) show ?thesis
    by (auto simp: continues_as_def)
qed (use assms(2,4) in \<open>auto simp: transition_from_adaptive_def\<close>)

text \<open>What a successful submission rests on, for either stage.\<close>

lemma finalize_Ok:
  assumes "finalize_outcome env dl auth host sn rep x s st = (Ok report, x', s', st')"
  shows "\<exists>cn. conclude_candidate env dl host sn rep x s = Ok cn \<and> or_verification report = rep
    \<and> or_command report = cn_command cn \<and> x' = cn_experience cn \<and> s' = cn_session cn"
  using assms by (auto simp: finalize_outcome_def split: res.splits prod.splits)

lemma submission_Ok:
  assumes "submit_passive_with_optional_suppressions env dl auth host x s st = (Ok report, x', s', st')
    \<or> submit_active_with_optional_suppressions env dl auth host baseline after_probe x s st = (Ok report, x', s', st')"
    and "loop_ok dl"
  obtains c rg sn b st1 where "loop_state_case (ds_state s) = Some c" "verifiers_ok rg"
    "evaluate_registry rg c sn b = Ok (or_verification report)"
    "finalize_outcome env dl auth host sn (or_verification report) x s st1 = (Ok report, x', s', st')"
  using assms(1)
proof
  assume "submit_passive_with_optional_suppressions env dl auth host x s st = (Ok report, x', s', st')"
  then obtain c sn rep st1 where "ds_state s = AwaitingPassive c"
    "evaluate_registry (vl_passive (dl_verification dl)) c sn None = Ok rep"
    "finalize_outcome env dl auth host sn rep x s st1 = (Ok report, x', s', st')"
    by (auto simp: submit_passive_with_optional_suppressions_def Let_def res_simps passive_verify_snapshot_def
        split: decision_loop_state.splits res.splits)
  with finalize_Ok [OF this(3)] that assms(2) show thesis by (auto simp: loop_ok_def)
next
  assume "submit_active_with_optional_suppressions env dl auth host baseline after_probe x s st = (Ok report, x', s', st')"
  then obtain c rep where "ds_state s = AwaitingActive c"
    "evaluate_registry (vl_active (dl_verification dl)) c after_probe (Some baseline) = Ok rep"
    "finalize_outcome env dl auth host after_probe rep x s st = (Ok report, x', s', st')"
    by (auto simp: submit_active_with_optional_suppressions_def Let_def res_simps active_verify_snapshots_def
        split: decision_loop_state.splits res.splits)
  with finalize_Ok [OF this(3)] that assms(2) show thesis by (auto simp: loop_ok_def)
qed


section \<open>Errors\<close>

lemma quiet_check_outcome_evidence: "snd (check_outcome_evidence (\<lambda>_ st. st) n s ids st) = st"
  by (induction ids arbitrary: n) (auto simp: Let_def split: option.splits)

lemma quiet_report_apply_Err:
  assumes "report_apply (\<lambda>_ st. st) now auth rep st = (Err e, st')"
  shows "st' = st"
proof (cases "vc_applies (vp_case rep)")
  case False
  with assms show ?thesis by (auto simp: report_apply_def)
next
  case True
  have still: "st3 = st" if "transition_hypothesis_state now i subject state revs st = (r, st3)"
      and "conclude_transition (vp_outcome rep) r = Err e" for i subject state revs r st3
    using that by (cases rule: transition_outcomes [OF that(1)]) auto
  have quiet: "st2 = st" if "check_outcome_evidence (\<lambda>_ st. st) n subject ids st = (r, st2)" for n subject ids r st2
    using quiet_check_outcome_evidence [of n subject ids st] that by simp
  from True assms show ?thesis
    by (auto simp: report_apply_def apply_outcome_with_token_def Let_def
        split: option.splits res.splits if_splits prod.splits dest!: quiet dest: still)
qed

lemma first_step_no_receipt: "first_step_command dl plan s = Err e \<Longrightarrow> committed_reasoning e = None"
  by (cases e)
    (auto simp: first_step_command_def res_simps next_case_def next_case_with_policy_def Let_def map_err_eq_Err
      split: list.splits resolved_target.splits option.splits)

lemma planning_Err:
  assumes "plan_next_with_action_suppressions env dl auth x host s st = (Err e, s', st')"
  shows "s' = s \<and>
    (case committed_reasoning e of
       Some receipt \<Rightarrow>
         \<exists>apps st1. rule_apply (pe_clock env) (pe_gap env) (pe_apply env) (dl_rules dl)
             \<lparr>kb_authority = auth, kb_state = st\<rparr> (ds_subject s) = (Ok apps, st1)
           \<and> reasoning_changed apps \<and> rc_applications receipt = apps \<and> rc_subject receipt = ds_subject s
     | None \<Rightarrow>
         ds_state s \<noteq> Ready \<or> dc_max_action_cycles (dl_config dl) \<le> ds_action_cycles s \<or>
         (\<forall>apps st1. rule_apply (pe_clock env) (pe_gap env) (pe_apply env) (dl_rules dl)
             \<lparr>kb_authority = auth, kb_state = st\<rparr> (ds_subject s) = (Ok apps, st1) \<longrightarrow> \<not> reasoning_changed apps))"
proof -
  have failed: "t = s \<and> ((\<exists>source. turn = Err source \<and> err = wrap source) \<or> (\<exists>k. err = wrap (StalePlanningSnapshot k)))"
    if "commit_turn env auth wrap sn turn s st0 = (Err err, t, st1)" for wrap sn turn st0 err t st1
    using that by (auto simp: commit_turn_def Let_def split: res.splits)
  show ?thesis
  proof (cases "ds_state s = Ready \<and> \<not> dc_max_action_cycles (dl_config dl) \<le> ds_action_cycles s")
    case False
    with assms have "s' = s" and "committed_reasoning e = None"
      by (auto simp: plan_next_with_action_suppressions_def require_state_def Let_def cycle_limit_turn_def res_simps
          map_err_eq_Err dest!: failed split: if_splits)
    with False show ?thesis by auto
  next
    case True
    note below = conjunct2 [OF True]
    obtain r st1 where reasoned: "rule_apply (pe_clock env) (pe_gap env) (pe_apply env) (dl_rules dl)
        \<lparr>kb_authority = auth, kb_state = st\<rparr> (ds_subject s) = (r, st1)" by fastforce
    show ?thesis
    proof (cases r)
      case (Ok apps)
      let ?sn = "snapshot_for_subject \<lparr>kb_authority = auth, kb_state = pe_before_snapshot env st1\<rparr> (ds_subject s)"
      from assms True Ok reasoned have "commit_turn env auth (after_reasoning s ?sn apps) ?sn
          (planning_turn dl x host apps ?sn s) s (pe_before_snapshot env st1) = (Err e, s', st')"
        by (simp add: plan_next_with_action_suppressions_def require_state_def Let_def below)
      from failed [OF this] obtain source where s': "s' = s" and e: "e = after_reasoning s ?sn apps source"
        and source: "planning_turn dl x host apps ?sn s = Err source \<or> (\<exists>k. source = StalePlanningSnapshot k)"
        by metis
      have "committed_reasoning source = None"
        using source
        by (auto simp: planning_turn_def Let_def res_simps map_err_eq_Err dest: first_step_no_receipt)
      with s' e Ok reasoned True show ?thesis by (simp add: after_reasoning_def)
    next
      case (Err x)
      with assms True reasoned show ?thesis
        by (auto simp: plan_next_with_action_suppressions_def require_state_def below)
    next
      case Panic
      with assms True reasoned show ?thesis
        by (simp add: plan_next_with_action_suppressions_def require_state_def below)
    qed
  qed
qed

lemma submission_Err:
  assumes "submit_passive_with_optional_suppressions env dl auth policy x s st = (Err e, x', s', st')
    \<or> submit_active_with_optional_suppressions env dl auth policy baseline after_probe x s st = (Err e, x', s', st')"
  shows "x' = x \<and> s' = s \<and> (se_before_snapshot env = id \<and> se_gap env = (\<lambda>_ st. st) \<longrightarrow> st' = st)"
proof -
  have final: "x' = x \<and> s' = s \<and> (se_gap env = (\<lambda>_ st. st) \<longrightarrow> st' = st0)"
    if "finalize_outcome env dl auth policy sn rep x s st0 = (Err e, x', s', st')" for sn rep st0
    using that quiet_report_apply_Err [of "se_now env" auth rep st0]
    by (auto simp: finalize_outcome_def split: res.splits prod.splits)
  from assms show ?thesis
    by (auto simp: submit_passive_with_optional_suppressions_def submit_active_with_optional_suppressions_def Let_def
        dest: final split: decision_loop_state.splits res.splits)
qed

text \<open>
  C6. Failing turns are atomic, and reasoning that outlives a failure is accounted for. A planning
  turn that fails leaves the session as it was, and its error carries the receipt of the reasoning
  commit, with the applications made for the session's subject, exactly when the turn had already
  changed hypotheses. A submission that fails leaves the session and the experience store as they
  were, and writes nothing to the knowledge base itself: with no other writer its state is the same.
\<close>

theorem decision_errors_atomic:
  "(plan_next_with_action_suppressions env dl auth x host s st = (Err e, s', st') \<longrightarrow>
      s' = s \<and>
      (case committed_reasoning e of
         Some receipt \<Rightarrow>
           \<exists>apps st1. rule_apply (pe_clock env) (pe_gap env) (pe_apply env) (dl_rules dl)
               \<lparr>kb_authority = auth, kb_state = st\<rparr> (ds_subject s) = (Ok apps, st1)
             \<and> reasoning_changed apps \<and> rc_applications receipt = apps \<and> rc_subject receipt = ds_subject s
       | None \<Rightarrow>
           ds_state s \<noteq> Ready \<or> dc_max_action_cycles (dl_config dl) \<le> ds_action_cycles s \<or>
           (\<forall>apps st1. rule_apply (pe_clock env) (pe_gap env) (pe_apply env) (dl_rules dl)
               \<lparr>kb_authority = auth, kb_state = st\<rparr> (ds_subject s) = (Ok apps, st1) \<longrightarrow> \<not> reasoning_changed apps))) \<and>
   (submit_passive_with_optional_suppressions senv dl auth policy x s st = (Err e, x', s', st')
      \<or> submit_active_with_optional_suppressions senv dl auth policy baseline after_probe x s st = (Err e, x', s', st') \<longrightarrow>
      x' = x \<and> s' = s \<and> (se_before_snapshot senv = id \<and> se_gap senv = (\<lambda>_ st. st) \<longrightarrow> st' = st))"
  by (rule conjI) (rule impI, erule planning_Err, rule impI, erule submission_Err)

section \<open>Invariant and progress of runs\<close>


definition ended :: "loop_world \<Rightarrow> bool" where
  "ended w \<longleftrightarrow> state_weight (ds_state (lw_session w)) = 0"

lemma ended_iff: "ended w \<longleftrightarrow> ds_state (lw_session w) = Completed \<or> (\<exists>reason. ds_state (lw_session w) = Halted reason)"
  by (cases "ds_state (lw_session w)") (simp_all add: ended_def)

lemma successes_bounded:
  assumes "loop_ok dl" and "world_ok dl (run 0)"
    and "\<And>i. loop_step dl auth (success i) (run i) (run (Suc i))"
  shows "world_ok dl (run n)
    \<and> card {i. i < n \<and> success i} + loop_measure dl (lw_session (run n)) \<le> loop_measure dl (lw_session (run 0))"
proof (induction n)
  case 0
  show ?case using assms(2) by simp
next
  case (Suc n)
  have "{i. i < Suc n \<and> success i} = {i. i < n \<and> success i} \<union> (if success n then {n} else {})"
    by (auto simp: less_Suc_eq)
  then have "card {i. i < Suc n \<and> success i} = card {i. i < n \<and> success i} + (if success n then 1 else 0)"
    by simp
  with loop_step_keeps [OF assms(3) [of n] assms(1)] Suc show ?case by (simp split: if_splits)
qed


section \<open>Replay\<close>

lemma loop_state_roundtrip:
  assumes "\<And>c. loop_state_case state = Some c \<Longrightarrow> case_ok c"
  shows "loop_state_from_wire (loop_state_to_wire state) = Ok state"
  using assms by (cases state) (auto simp: case_wire_roundtrip)

lemma loop_state_from_wire_ok:
  "loop_state_from_wire w = Ok state \<Longrightarrow> loop_state_case state = Some c \<Longrightarrow> case_ok c"
  by (cases w) (auto simp: res_simps case_from_wire_ok)

text \<open>
  C10. Sessions are replayable. A session within its limits is decoded from its own encoding
  unchanged. Whatever is decoded waits only for a well formed case of the session's own subject and
  only after at least one issued action, and has the subject, the counter and the ledger of the
  document; a document that waits for another subject's case is refused, as is one that waits
  before any action was issued.
\<close>

theorem session_wire_exact:
  "(session_ok dl s \<longrightarrow> session_from_wire (session_to_wire s) = Ok s) \<and>
   (session_from_wire w = Ok t \<longrightarrow>
      ds_subject t = ws_subject w \<and> ds_action_cycles t = ws_action_cycles w \<and> ds_adaptation t = ws_adaptation w
    \<and> (\<forall>c. loop_state_case (ds_state t) = Some c \<longrightarrow>
         case_ok c \<and> vc_subject c = ds_subject t \<and> 0 < ds_action_cycles t)) \<and>
   (session_ok dl s \<and> loop_state_case (ds_state s) = Some c \<longrightarrow>
      (other \<noteq> ds_subject s \<longrightarrow>
         session_from_wire ((session_to_wire s)\<lparr>ws_subject := other\<rparr>) =
           Err (InvalidSession (CaseSubjectMismatch other (ds_subject s)))) \<and>
      session_from_wire ((session_to_wire s)\<lparr>ws_action_cycles := 0\<rparr>) = Err (InvalidSession AwaitingWithoutAction))"
proof -
  have state: "loop_state_from_wire (loop_state_to_wire (ds_state s)) = Ok (ds_state s)" if "session_ok dl s"
    using that by (intro loop_state_roundtrip) (auto simp: session_ok_def)
  have ledger: "ledger_from_wire (ds_adaptation s) = Ok (ds_adaptation s)" if "session_ok dl s"
    using that ledger_decodes by (simp add: session_ok_def)
  have waits: "case_ok c \<and> vc_subject c = ds_subject s \<and> 0 < ds_action_cycles s"
    if "session_ok dl s" "loop_state_case (ds_state s) = Some c" for c
    using that by (simp add: session_ok_def)
  have "session_from_wire (session_to_wire s) = Ok s" if "session_ok dl s"
    using state [OF that] ledger [OF that] waits [OF that]
    by (cases "loop_state_case (ds_state s)")
      (auto simp: session_from_wire_def session_to_wire_def Let_def check_session_case_def)
  moreover have "ds_subject t = ws_subject w \<and> ds_action_cycles t = ws_action_cycles w \<and> ds_adaptation t = ws_adaptation w
    \<and> (\<forall>c. loop_state_case (ds_state t) = Some c \<longrightarrow> case_ok c \<and> vc_subject c = ds_subject t \<and> 0 < ds_action_cycles t)"
    if "session_from_wire w = Ok t"
  proof -
    from that obtain state ledger where "loop_state_from_wire (ws_state w) = Ok state"
      "ledger_from_wire (ws_adaptation w) = Ok ledger" "check_session_case t = Ok ()"
      and t: "t = \<lparr>ds_subject = ws_subject w, ds_action_cycles = ws_action_cycles w, ds_state = state, ds_adaptation = ledger\<rparr>"
      by (auto simp: session_from_wire_def Let_def res_simps)
    moreover have "ledger = ws_adaptation w"
      using \<open>ledger_from_wire (ws_adaptation w) = Ok ledger\<close>
      by (auto simp: ledger_from_wire_def Let_def res_simps split: if_splits)
    ultimately show ?thesis
      by (auto simp: check_session_case_def word_neq_0_conv dest: loop_state_from_wire_ok split: if_splits option.splits)
  qed
  moreover have "session_from_wire ((session_to_wire s)\<lparr>ws_subject := other\<rparr>) =
      Err (InvalidSession (CaseSubjectMismatch other (ds_subject s)))"
    if "session_ok dl s" "loop_state_case (ds_state s) = Some c" "other \<noteq> ds_subject s"
    using state [OF that(1)] ledger [OF that(1)] waits [OF that(1,2)] that
    by (auto simp: session_from_wire_def session_to_wire_def Let_def check_session_case_def)
  moreover have "session_from_wire ((session_to_wire s)\<lparr>ws_action_cycles := 0\<rparr>) = Err (InvalidSession AwaitingWithoutAction)"
    if "session_ok dl s" "loop_state_case (ds_state s) = Some c"
    using state [OF that(1)] ledger [OF that(1)] waits [OF that] that
    by (auto simp: session_from_wire_def session_to_wire_def Let_def check_session_case_def)
  ultimately show ?thesis by blast
qed

section \<open>A sample session\<close>

definition sample_coordinator :: decision_loop where
  "sample_coordinator =
     \<lparr>dl_config = \<lparr>dc_planning = sample_context, dc_adaptation = adaptation_limits_default,
        dc_experience = experience_policy_default, dc_max_action_cycles = 3\<rparr>,
      dl_rules = sample_engine, dl_planner = [(''b'', sample_action ''b'' 2 [])],
      dl_verification = verification_pipeline_default, dl_adaptive = []\<rparr>"

definition quiet_planning :: planning_env where
  "quiet_planning =
     \<lparr>pe_clock = (\<lambda>_. 0), pe_gap = (\<lambda>_ st. st), pe_apply = (\<lambda>_ st. st), pe_before_snapshot = (\<lambda>st. st),
      pe_before_commit = (\<lambda>st. st)\<rparr>"

definition quiet_submission :: submit_env where
  "quiet_submission =
     \<lparr>se_before_snapshot = id, se_projected_at = 0, se_gap = (\<lambda>_ st. st), se_now = 0\<rparr>"

definition sample_session :: decision_session where
  "sample_session = decision_session_new ''s''"

definition sample_planned :: "planning_report loop_res \<times> decision_session \<times> knowledge_state" where
  "sample_planned =
     plan_next_with_action_suppressions quiet_planning sample_coordinator 7 experience_store_new (policy_only [])
       sample_session sample_store"

definition sample_submitted ::
  "suppression_context option \<Rightarrow> outcome_report loop_res \<times> experience_store \<times> decision_session \<times> knowledge_state" where
  "sample_submitted policy =
     submit_passive_with_optional_suppressions quiet_submission sample_coordinator 7 policy experience_store_new
       (fst (snd sample_planned)) (snd (snd sample_planned))"

lemma sample_coordinator_ok: "loop_ok sample_coordinator"
proof -
  have "planner_ok [(''b'', sample_action ''b'' 2 [])]"
    by (auto simp: planner_ok_def actions_keyed_def bmap_ok_def sample_action_def
        action_ok_def benefit_ok_def cost_ok_def risk_ok_def split: if_splits)
  then show ?thesis
    by (simp add: loop_ok_def sample_coordinator_def verification_pipeline_default_def pipeline_ok_def bmap_ok_def)
qed

lemma quiet_planning_ok: "planning_env_ok quiet_planning"
  by (simp add: planning_env_ok_def quiet_planning_def)

lemma sample_session_ok: "session_ok sample_coordinator sample_session"
  by (simp add: sample_session_def session_ok_new)

lemma sample_planned_command:
  "case fst sample_planned of
     Ok report \<Rightarrow>
       (case pn_command report of CmdExecuteAction c executor origin delay \<Rightarrow> vc_action_id c = ''b'' | _ \<Rightarrow> False)
   | _ \<Rightarrow> False"
  by code_simp

lemma sample_submitted_command:
  "case fst (sample_submitted (Some (policy_only []))) of
     Ok report \<Rightarrow> execution_command_action_id (or_command report) = Some ''b'' | _ \<Rightarrow> False"
  by code_simp

lemma sample_submitted_error:
  "case fst (sample_submitted None) of
     Err e \<Rightarrow> (case e of AdaptiveExecutionRequiresHostPolicyContext i \<Rightarrow> i = ''b'' | _ \<Rightarrow> False) | _ \<Rightarrow> False"
  by code_simp

lemma sample_planned_Ok:
  obtains report c executor origin delay s' st' where "sample_planned = (Ok report, s', st')"
    "pn_command report = CmdExecuteAction c executor origin delay" "vc_action_id c = ''b''"
proof -
  from sample_planned_command obtain report c executor origin delay where "fst sample_planned = Ok report"
    "pn_command report = CmdExecuteAction c executor origin delay" "vc_action_id c = ''b''"
    by (auto split: res.splits decision_loop_command.splits)
  with that [of report "fst (snd sample_planned)" "snd (snd sample_planned)"] show thesis by (metis prod.collapse)
qed

lemma planned_command_authorised_witness:
  "\<exists>report c s' st'. sample_planned = (Ok report, s', st')
     \<and> pn_command report = CmdExecuteAction c (Some ''e'') Planned None \<and> ds_state s' = AwaitingPassive c
     \<and> validate_execution_command_authority (dl_planner sample_coordinator) \<lparr>kb_authority = 7, kb_state = st'\<rparr>
         (pn_command report) = Ok ()"
proof -
  obtain report c executor origin delay s' st' where run: "sample_planned = (Ok report, s', st')"
    and command: "pn_command report = CmdExecuteAction c executor origin delay" and b: "vc_action_id c = ''b''"
    by (rule sample_planned_Ok)
  from planned_command_authorised [OF sample_coordinator_ok quiet_planning_ok sample_store_reachable
      run [unfolded sample_planned_def] command]
  obtain step where step: "authorised_step (dl_planner sample_coordinator)
      (snapshot_for_subject \<lparr>kb_authority = 7, kb_state = st'\<rparr> (ds_subject sample_session))
      (dc_planning (dl_config sample_coordinator)) (combined_suppressions experience_store_new sample_session
        (dc_experience (dl_config sample_coordinator)) (policy_only [])) step"
    and rest: "vc_action_id c = st_action_id step" "executor = Some (st_executor step)" "origin = Planned" "delay = None"
      "validate_execution_command_authority (dl_planner sample_coordinator) \<lparr>kb_authority = 7, kb_state = st'\<rparr>
         (pn_command report) = Ok ()" "ds_state s' = AwaitingPassive c" by auto
  from step b rest(1) obtain cand where "step = plan_step_of (st_position step) cand"
    "ec_action cand = sample_action ''b'' 2 []"
    by (auto simp: authorised_step_def candidate_authorised_def sample_coordinator_def)
  from arg_cong [OF this(1), of st_executor] this(2) have "st_executor step = ''e''"
    by (simp add: plan_step_of_def sample_action_def)
  then have "pn_command report = CmdExecuteAction c (Some ''e'') Planned None" using command rest(2-4) by simp
  with run rest(5,6) show ?thesis by (intro exI conjI)
qed

lemma sample_waiting_ok: "session_ok sample_coordinator (fst (snd sample_planned))"
  using planning_keeps [OF sample_session_ok, of quiet_planning 7 experience_store_new "policy_only []" sample_store]
  unfolding sample_planned_def by (metis prod.collapse)


lemma decision_errors_atomic_witness:
  "\<exists>e. sample_submitted None = (Err e, experience_store_new, snd sample_planned)"
proof -
  obtain e x' s' st' where run: "sample_submitted None = (Err e, x', s', st')"
    using sample_submitted_error by (cases "sample_submitted None") (auto split: res.splits)
  have "se_before_snapshot quiet_submission = id \<and> se_gap quiet_submission = (\<lambda>_ st. st)"
    by (simp add: quiet_submission_def)
  with decision_errors_atomic [THEN conjunct2, THEN mp, OF disjI1 [OF run [unfolded sample_submitted_def]]] run
  show ?thesis by simp
qed


lemma session_wire_exact_witness:
  "session_from_wire (session_to_wire (fst (snd sample_planned))) = Ok (fst (snd sample_planned))
   \<and> session_from_wire ((session_to_wire (fst (snd sample_planned)))\<lparr>ws_subject := ''t''\<rparr>) =
       Err (InvalidSession (CaseSubjectMismatch ''t'' ''s''))"
proof -
  obtain report c executor origin delay s' st' where run: "sample_planned = (Ok report, s', st')"
    and command: "pn_command report = CmdExecuteAction c executor origin delay"
    by (rule sample_planned_Ok)
  have facts: "ds_subject s' = ''s''" "loop_state_case (ds_state s') \<noteq> None"
  proof -
    have "ds_subject (fst (snd sample_planned)) = ''s''" "loop_state_case (ds_state (fst (snd sample_planned))) \<noteq> None"
      by code_simp+
    then show "ds_subject s' = ''s''" "loop_state_case (ds_state s') \<noteq> None" unfolding run by simp_all
  qed
  have "session_ok sample_coordinator s'" using sample_waiting_ok unfolding run by simp
  with session_wire_exact [of sample_coordinator s' _ _ _ "''t''"] facts show ?thesis unfolding run by auto
qed

definition idle_loop :: decision_loop where
  "idle_loop = decision_loop_new (dl_config sample_coordinator)"

definition idle_planned :: "planning_report loop_res \<times> decision_session \<times> knowledge_state" where
  "idle_planned =
     plan_next_with_action_suppressions quiet_planning idle_loop 7 experience_store_new (policy_only [])
       sample_session sample_store"

lemma idle_halts: "is_ok (fst idle_planned)" "ds_state (fst (snd idle_planned)) = Halted NoEligibleAction"
  by code_simp+

definition idle_world :: "nat \<Rightarrow> loop_world" where
  "idle_world n =
     (if n = 0
      then \<lparr>lw_session = sample_session, lw_experience = experience_store_new, lw_knowledge = sample_store\<rparr>
      else \<lparr>lw_session = fst (snd idle_planned), lw_experience = experience_store_new,
            lw_knowledge = snd (snd idle_planned)\<rparr>)"


end
