(* ===== verification/Defense.thy ===== *)
theory Defense
  imports Records Payload
begin

text \<open>
  The observation-only defense layer (\<open>src/crates/termivar-scanner/src/defense/\<close>): product
  fingerprints (\<open>fingerprint.rs\<close>), the posture of one response (\<open>state.rs\<close>), the difference
  between two observations (\<open>transition.rs\<close>), the recommended reaction (\<open>policy.rs\<close>) and the
  projection of an observation into evidence records (\<open>projection.rs\<close>). Headers are a list of name
  and value pairs, SHA-256 is a parameter, and identity and time come from the caller's context as
  in the code. An \<^verbatim>\<open>expect\<close> of the source is a panic of the model.
\<close>

section \<open>Product fingerprints\<close>

datatype defense_product =
    Cloudflare | AwsWaf | ModSecurity | Akamai | Imperva | F5BigIp | Barracuda | Fortinet | Sucuri
  | Wordfence

fun product_name :: "defense_product \<Rightarrow> string" where
  "product_name Cloudflare = ''Cloudflare''"
| "product_name AwsWaf = ''AWS WAF''"
| "product_name ModSecurity = ''ModSecurity''"
| "product_name Akamai = ''Akamai''"
| "product_name Imperva = ''Imperva''"
| "product_name F5BigIp = ''F5 BIG-IP ASM''"
| "product_name Barracuda = ''Barracuda''"
| "product_name Fortinet = ''Fortinet FortiWeb''"
| "product_name Sucuri = ''Sucuri''"
| "product_name Wordfence = ''Wordfence''"

datatype fingerprint_confidence = WeakSignal | ProbableSignal | StrongSignal

fun confidence_rank :: "fingerprint_confidence \<Rightarrow> nat" where
  "confidence_rank WeakSignal = 0"
| "confidence_rank ProbableSignal = 1"
| "confidence_rank StrongSignal = 2"

lemma confidence_rank_inj: "confidence_rank a = confidence_rank b \<Longrightarrow> a = b"
  by (cases a; cases b) simp_all

instantiation fingerprint_confidence :: linorder
begin

definition less_eq_fingerprint_confidence :: "fingerprint_confidence \<Rightarrow> fingerprint_confidence \<Rightarrow> bool" where
  "less_eq_fingerprint_confidence a b \<longleftrightarrow> confidence_rank a \<le> confidence_rank b"

definition less_fingerprint_confidence :: "fingerprint_confidence \<Rightarrow> fingerprint_confidence \<Rightarrow> bool" where
  "less_fingerprint_confidence a b \<longleftrightarrow> confidence_rank a < confidence_rank b"

instance
  by standard
    (auto simp: less_eq_fingerprint_confidence_def less_fingerprint_confidence_def intro: confidence_rank_inj)

end

record defense_fingerprint =
  fp_product :: defense_product
  fp_confidence :: fingerprint_confidence
  fp_signal :: string

definition from_assessment_hint :: "defense_product \<Rightarrow> fingerprint_confidence \<Rightarrow> defense_fingerprint" where
  "from_assessment_hint product confidence =
     \<lparr>fp_product = product, fp_confidence = confidence, fp_signal = ''assessment:fingerprint-hint''\<rparr>"

datatype fingerprint_match =
    HeaderPresent string
  | HeaderValueContains string string
  | CookieContains string
  | BodyContains string

record fingerprint_rule =
  fr_product :: defense_product
  fr_confidence :: fingerprint_confidence
  fr_signal :: string
  fr_matcher :: fingerprint_match

definition fp_rule ::
  "defense_product \<Rightarrow> fingerprint_confidence \<Rightarrow> string \<Rightarrow> fingerprint_match \<Rightarrow> fingerprint_rule" where
  "fp_rule product confidence signal matcher =
     \<lparr>fr_product = product, fr_confidence = confidence, fr_signal = signal, fr_matcher = matcher\<rparr>"

definition RULES :: "fingerprint_rule list" where
  "RULES =
     [fp_rule Cloudflare StrongSignal ''header:cf-ray'' (HeaderPresent ''cf-ray''),
      fp_rule Cloudflare StrongSignal ''header:server=cloudflare'' (HeaderValueContains ''server'' ''cloudflare''),
      fp_rule Cloudflare ProbableSignal ''body:attention-required'' (BodyContains ''attention required''),
      fp_rule AwsWaf ProbableSignal ''header:x-amzn-waf'' (HeaderPresent ''x-amzn-waf-action''),
      fp_rule AwsWaf WeakSignal ''header:x-amzn-requestid'' (HeaderPresent ''x-amzn-requestid''),
      fp_rule ModSecurity StrongSignal ''header:server=mod_security'' (HeaderValueContains ''server'' ''mod_security''),
      fp_rule ModSecurity StrongSignal ''body:mod_security'' (BodyContains ''mod_security''),
      fp_rule Akamai StrongSignal ''header:server=akamaighost'' (HeaderValueContains ''server'' ''akamaighost''),
      fp_rule Imperva StrongSignal ''header:x-iinfo'' (HeaderPresent ''x-iinfo''),
      fp_rule Imperva StrongSignal ''cookie:incap_ses'' (CookieContains ''incap_ses''),
      fp_rule F5BigIp StrongSignal ''cookie:bigipserver'' (CookieContains ''bigipserver''),
      fp_rule Barracuda StrongSignal ''cookie:barra_counter'' (CookieContains ''barra_counter_session''),
      fp_rule Fortinet StrongSignal ''cookie:fortiwafsid'' (CookieContains ''fortiwafsid''),
      fp_rule Sucuri StrongSignal ''header:x-sucuri-id'' (HeaderPresent ''x-sucuri-id''),
      fp_rule Wordfence StrongSignal ''body:generated-by-wordfence'' (BodyContains ''generated by wordfence'')]"

type_synonym headers = "(string \<times> string) list"

definition eq_ignore_ascii_case :: "string \<Rightarrow> string \<Rightarrow> bool" where
  "eq_ignore_ascii_case a b \<longleftrightarrow> to_ascii_lowercase a = to_ascii_lowercase b"

definition header_present :: "headers \<Rightarrow> string \<Rightarrow> bool" where
  "header_present hs lower_name = list_ex (\<lambda>(name, _). eq_ignore_ascii_case name lower_name) hs"

definition header_value_contains :: "headers \<Rightarrow> string \<Rightarrow> string \<Rightarrow> bool" where
  "header_value_contains hs lower_name lower_needle =
     list_ex (\<lambda>(name, val). eq_ignore_ascii_case name lower_name
       \<and> contains (to_ascii_lowercase val) lower_needle) hs"

definition cookie_contains :: "headers \<Rightarrow> string \<Rightarrow> bool" where
  "cookie_contains hs lower_needle =
     list_ex (\<lambda>(name, val). eq_ignore_ascii_case name ''set-cookie''
       \<and> contains (to_ascii_lowercase val) lower_needle) hs"

fun matcher_matches :: "fingerprint_match \<Rightarrow> headers \<Rightarrow> string \<Rightarrow> bool" where
  "matcher_matches (HeaderPresent name) hs body_prefix = header_present hs name"
| "matcher_matches (HeaderValueContains name needle) hs body_prefix = header_value_contains hs name needle"
| "matcher_matches (CookieContains needle) hs body_prefix = cookie_contains hs needle"
| "matcher_matches (BodyContains needle) hs body_prefix = contains body_prefix needle"

definition rule_matches :: "fingerprint_rule \<Rightarrow> headers \<Rightarrow> string \<Rightarrow> bool" where
  "rule_matches rule hs body_prefix = matcher_matches (fr_matcher rule) hs body_prefix"

text \<open>
  The scan stops at a UTF-8 boundary: an index is one when it is an end of the string or its byte is
  not a continuation byte. The loop walks down from the ceiling.
\<close>

definition is_char_boundary :: "string \<Rightarrow> nat \<Rightarrow> bool" where
  "is_char_boundary s i \<longleftrightarrow>
     i = 0 \<or> i = length s \<or> i < length s \<and> \<not> (0x80 \<le> byte (s ! i) \<and> byte (s ! i) < 0xC0)"

fun floor_boundary :: "string \<Rightarrow> nat \<Rightarrow> nat" where
  "floor_boundary s 0 = 0"
| "floor_boundary s (Suc n) = (if is_char_boundary s (Suc n) then Suc n else floor_boundary s n)"

definition MAX_FINGERPRINT_BODY_SCAN_BYTES :: nat where
  "MAX_FINGERPRINT_BODY_SCAN_BYTES = 16 * 1024"

definition lowercase_prefix :: "string \<Rightarrow> nat \<Rightarrow> string" where
  "lowercase_prefix body max_bytes =
     (if length body \<le> max_bytes then to_ascii_lowercase body
      else to_ascii_lowercase (take (floor_boundary body max_bytes) body))"

fun best_rule ::
  "headers \<Rightarrow> string \<Rightarrow> fingerprint_rule list \<Rightarrow> fingerprint_rule option \<Rightarrow> fingerprint_rule option" where
  "best_rule hs body_prefix [] best = best"
| "best_rule hs body_prefix (rule # rest) best =
     (if \<not> rule_matches rule hs body_prefix then best_rule hs body_prefix rest best
      else if (case best of None \<Rightarrow> True | Some current \<Rightarrow> fr_confidence current < fr_confidence rule)
      then best_rule hs body_prefix rest (Some rule)
      else best_rule hs body_prefix rest best)"

definition rule_fingerprint :: "fingerprint_rule \<Rightarrow> defense_fingerprint" where
  "rule_fingerprint rule =
     \<lparr>fp_product = fr_product rule, fp_confidence = fr_confidence rule, fp_signal = fr_signal rule\<rparr>"

definition fingerprint :: "headers \<Rightarrow> string \<Rightarrow> defense_fingerprint option" where
  "fingerprint hs body =
     map_option rule_fingerprint
       (best_rule hs (lowercase_prefix body MAX_FINGERPRINT_BODY_SCAN_BYTES) RULES None)"

section \<open>Posture of one response\<close>

datatype defense_status_signal = Normal | Forbidden | NotAcceptable | Teapot | RateLimited | ServerError

definition classify_status :: "u16 \<Rightarrow> defense_status_signal" where
  "classify_status status =
     (if status = 403 then Forbidden
      else if status = 406 then NotAcceptable
      else if status = 418 then Teapot
      else if status = 429 then RateLimited
      else if 500 \<le> status \<and> status \<le> 599 then ServerError
      else Normal)"

fun is_block :: "defense_status_signal \<Rightarrow> bool" where
  "is_block Forbidden = True"
| "is_block NotAcceptable = True"
| "is_block Teapot = True"
| "is_block _ = False"

datatype defense_posture = Open | Suspected | Blocking

fun posture_rank :: "defense_posture \<Rightarrow> nat" where
  "posture_rank Open = 0"
| "posture_rank Suspected = 1"
| "posture_rank Blocking = 2"

lemma posture_rank_inj: "posture_rank a = posture_rank b \<Longrightarrow> a = b"
  by (cases a; cases b) simp_all

instantiation defense_posture :: linorder
begin

definition less_eq_defense_posture :: "defense_posture \<Rightarrow> defense_posture \<Rightarrow> bool" where
  "less_eq_defense_posture a b \<longleftrightarrow> posture_rank a \<le> posture_rank b"

definition less_defense_posture :: "defense_posture \<Rightarrow> defense_posture \<Rightarrow> bool" where
  "less_defense_posture a b \<longleftrightarrow> posture_rank a < posture_rank b"

instance
  by standard (auto simp: less_eq_defense_posture_def less_defense_posture_def intro: posture_rank_inj)

end

record defense_state =
  dst_status :: u16
  dst_status_signal :: defense_status_signal
  dst_challenged :: bool
  dst_rate_limited :: bool
  dst_rate_limit_headers :: bool
  dst_fingerprint :: "defense_fingerprint option"
  dst_posture :: defense_posture

definition CHALLENGE_MARKERS :: "string list" where
  "CHALLENGE_MARKERS =
     [''attention required'', ''checking your browser'', ''please enable cookies'', ''captcha'',
      ''access denied'', ''request blocked'', ''you have been blocked'', ''this request was blocked'']"

definition RATE_LIMIT_HEADERS :: "string list" where
  "RATE_LIMIT_HEADERS =
     [''retry-after'', ''ratelimit-limit'', ''ratelimit-remaining'', ''ratelimit-reset'',
      ''x-ratelimit-limit'', ''x-ratelimit-remaining'', ''x-ratelimit-reset'']"

definition body_has_challenge_marker :: "string \<Rightarrow> bool" where
  "body_has_challenge_marker body =
     (let prefix = min MAX_FINGERPRINT_BODY_SCAN_BYTES (length body);
          lowered = to_ascii_lowercase (take (floor_boundary body prefix) body)
      in list_ex (\<lambda>marker. contains lowered marker) CHALLENGE_MARKERS)"

definition derive_posture ::
  "defense_status_signal \<Rightarrow> bool \<Rightarrow> bool \<Rightarrow> defense_fingerprint option \<Rightarrow> defense_posture" where
  "derive_posture status_signal challenged rate_limited print =
     (if is_block status_signal \<or> challenged then Blocking
      else
        (let strong_fingerprint =
               (case print of None \<Rightarrow> False | Some p \<Rightarrow> ProbableSignal \<le> fp_confidence p)
         in if rate_limited \<or> strong_fingerprint \<or> print \<noteq> None then Suspected else Open))"

definition from_assessment_projection ::
  "u16 \<Rightarrow> bool \<Rightarrow> bool \<Rightarrow> bool \<Rightarrow> defense_fingerprint option \<Rightarrow> defense_state" where
  "from_assessment_projection status challenged rate_limited rate_limit_headers print =
     (let status_signal = classify_status status;
          limited = rate_limited \<or> rate_limit_headers \<or> status_signal = RateLimited
      in \<lparr>dst_status = status, dst_status_signal = status_signal, dst_challenged = challenged,
          dst_rate_limited = limited, dst_rate_limit_headers = rate_limit_headers, dst_fingerprint = print,
          dst_posture = derive_posture status_signal challenged limited print\<rparr>)"

definition from_authorization_projection :: "u16 \<Rightarrow> bool \<Rightarrow> bool \<Rightarrow> defense_state" where
  "from_authorization_projection status challenged rate_limited =
     \<lparr>dst_status = status,
      dst_status_signal =
        (if rate_limited then RateLimited else if challenged then classify_status status else Normal),
      dst_challenged = challenged, dst_rate_limited = rate_limited, dst_rate_limit_headers = False,
      dst_fingerprint = None,
      dst_posture = (if challenged then Blocking else if rate_limited then Suspected else Open)\<rparr>"

definition observe_response :: "u16 \<Rightarrow> headers \<Rightarrow> string \<Rightarrow> defense_state" where
  "observe_response status hs body =
     (let status_signal = classify_status status;
          rate_limit_headers =
            list_ex (\<lambda>(name, _). list_ex (\<lambda>rl. eq_ignore_ascii_case name rl) RATE_LIMIT_HEADERS) hs;
          rate_limited = (status_signal = RateLimited \<or> rate_limit_headers);
          challenged = body_has_challenge_marker body;
          print = fingerprint hs body
      in \<lparr>dst_status = status, dst_status_signal = status_signal, dst_challenged = challenged,
          dst_rate_limited = rate_limited, dst_rate_limit_headers = rate_limit_headers, dst_fingerprint = print,
          dst_posture = derive_posture status_signal challenged rate_limited print\<rparr>)"

section \<open>Transitions and recommendations\<close>

datatype posture_shift = PostureUnchanged | Escalated | Deescalated

datatype defense_transition_kind = NoChange | DefenseEngaged | DefenseRelaxed | DefenseReconfigured

record defense_transition =
  dtr_posture_shift :: posture_shift
  dtr_newly_blocking :: bool
  dtr_newly_rate_limited :: bool
  dtr_status_changed :: bool
  dtr_fingerprint_changed :: bool
  dtr_control_product :: "defense_product option"
  dtr_candidate_product :: "defense_product option"
  dtr_kind :: defense_transition_kind

definition transition_between :: "defense_state \<Rightarrow> defense_state \<Rightarrow> defense_transition" where
  "transition_between control candidate =
     (let shift =
            (if dst_posture control < dst_posture candidate then Escalated
             else if dst_posture candidate < dst_posture control then Deescalated
             else PostureUnchanged);
          newly_blocking = (dst_posture candidate = Blocking \<and> dst_posture control \<noteq> Blocking);
          newly_rate_limited = (dst_rate_limited candidate \<and> \<not> dst_rate_limited control);
          status_changed = (dst_status_signal control \<noteq> dst_status_signal candidate);
          control_product = map_option fp_product (dst_fingerprint control);
          candidate_product = map_option fp_product (dst_fingerprint candidate);
          fingerprint_changed = (control_product \<noteq> candidate_product);
          kind =
            (case shift of
               Escalated \<Rightarrow> DefenseEngaged
             | Deescalated \<Rightarrow> DefenseRelaxed
             | PostureUnchanged \<Rightarrow>
                 if fingerprint_changed \<or> status_changed \<or> newly_rate_limited then DefenseReconfigured
                 else NoChange)
      in \<lparr>dtr_posture_shift = shift, dtr_newly_blocking = newly_blocking,
          dtr_newly_rate_limited = newly_rate_limited, dtr_status_changed = status_changed,
          dtr_fingerprint_changed = fingerprint_changed, dtr_control_product = control_product,
          dtr_candidate_product = candidate_product, dtr_kind = kind\<rparr>)"

datatype defense_response = Proceed | Observe | Backoff | Reconsider | HaltLine

fun response_rank :: "defense_response \<Rightarrow> nat" where
  "response_rank Proceed = 0"
| "response_rank Observe = 1"
| "response_rank Backoff = 2"
| "response_rank Reconsider = 3"
| "response_rank HaltLine = 4"

lemma response_rank_inj: "response_rank a = response_rank b \<Longrightarrow> a = b"
  by (cases a; cases b) simp_all

instantiation defense_response :: linorder
begin

definition less_eq_defense_response :: "defense_response \<Rightarrow> defense_response \<Rightarrow> bool" where
  "less_eq_defense_response a b \<longleftrightarrow> response_rank a \<le> response_rank b"

definition less_defense_response :: "defense_response \<Rightarrow> defense_response \<Rightarrow> bool" where
  "less_defense_response a b \<longleftrightarrow> response_rank a < response_rank b"

instance
  by standard (auto simp: less_eq_defense_response_def less_defense_response_def intro: response_rank_inj)

end

definition recommend :: "defense_state \<Rightarrow> defense_transition option \<Rightarrow> defense_response" where
  "recommend state transition =
     (if (case transition of None \<Rightarrow> False | Some t \<Rightarrow> dtr_newly_blocking t) then Reconsider
      else if dst_posture state = Blocking then HaltLine
      else if dst_rate_limited state then Backoff
      else if dst_posture state = Suspected then Observe
      else Proceed)"

section \<open>Projection into evidence\<close>

definition expect :: "('a, 'e) res \<Rightarrow> ('a, 'e) res" where
  "expect r = (case r of Ok a \<Rightarrow> Ok a | _ \<Rightarrow> Panic)"

definition DEFENSE_EVIDENCE_CATEGORY :: string where "DEFENSE_EVIDENCE_CATEGORY = ''defense''"
definition PROJECTION_VERSION :: u32 where "PROJECTION_VERSION = 1"
definition DIRECT_OBSERVATION_PERCENT :: u8 where "DIRECT_OBSERVATION_PERCENT = 90"

definition bytes_of :: "string \<Rightarrow> u8 list" where
  "bytes_of s = map (\<lambda>c. word_of_nat (byte c)) s"

definition EVIDENCE_ID_DOMAIN :: "u8 list" where
  "EVIDENCE_ID_DOMAIN = bytes_of ''venom.defense.projection-id.v1'' @ [0]"

datatype observed_outcome = ObservedResponse defense_state | NoResponse

record defense_observation_context =
  doc_producer_id :: string
  doc_resource :: entity_id
  doc_correlation_id :: string
  doc_sequence :: u64
  doc_response_receipt :: string
  doc_observed_at_ms :: u64

definition observation_context_new ::
  "string \<Rightarrow> entity_id \<Rightarrow> string \<Rightarrow> u64 \<Rightarrow> string \<Rightarrow> u64 \<Rightarrow> (defense_observation_context, reasoning_error) res" where
  "observation_context_new producer_id resource correlation_id sequence response_receipt observed_at_ms =
     and_then (non_empty producer_id ''defense producer id'') (\<lambda>producer.
     and_then (non_empty correlation_id ''defense correlation id'') (\<lambda>correlation.
     and_then (non_empty response_receipt ''defense response receipt'') (\<lambda>receipt.
       Ok \<lparr>doc_producer_id = producer, doc_resource = resource, doc_correlation_id = correlation,
           doc_sequence = sequence, doc_response_receipt = receipt, doc_observed_at_ms = observed_at_ms\<rparr>)))"

definition le_bytes :: "nat \<Rightarrow> 'w::len word \<Rightarrow> u8 list" where
  "le_bytes n w = map (\<lambda>i. ucast (drop_bit (8 * i) w)) [0..<n]"

text \<open>\<^verbatim>\<open>update_framed\<close> feeds the length as a \<^verbatim>\<open>u64\<close> and then the bytes; the preimage collects what the hasher was fed.\<close>

definition framed :: "u8 list \<Rightarrow> u8 list" where
  "framed bytes = le_bytes 8 (word_of_nat (length bytes) :: u64) @ bytes"

definition evidence_preimage :: "defense_observation_context \<Rightarrow> string \<Rightarrow> string \<Rightarrow> u8 list" where
  "evidence_preimage ctx namespace name =
     EVIDENCE_ID_DOMAIN @ le_bytes 4 PROJECTION_VERSION
     @ concat (map (\<lambda>field. framed (bytes_of field))
         [doc_producer_id ctx, doc_resource ctx, doc_correlation_id ctx, doc_response_receipt ctx, namespace, name])
     @ le_bytes 8 (doc_sequence ctx) @ le_bytes 8 (doc_observed_at_ms ctx)"

definition defense_evidence_id ::
  "(u8 list \<Rightarrow> u8 list) \<Rightarrow> defense_observation_context \<Rightarrow> string \<Rightarrow> string \<Rightarrow> (evidence_id, reasoning_error) res" where
  "defense_evidence_id sha256 ctx namespace name =
     expect (evidence_id_parse
       (DEFENSE_EVIDENCE_CATEGORY @ ''/'' @ encode_digest (sha256 (evidence_preimage ctx namespace name))))"

definition direct_reliability :: "(confidence_score, reasoning_error) res" where
  "direct_reliability = expect (confidence_from_percent DIRECT_OBSERVATION_PERCENT)"

definition fingerprint_reliability :: "fingerprint_confidence \<Rightarrow> (confidence_score, reasoning_error) res" where
  "fingerprint_reliability confidence =
     expect (confidence_from_percent
       (case confidence of WeakSignal \<Rightarrow> 30 | ProbableSignal \<Rightarrow> 60 | StrongSignal \<Rightarrow> 90))"

fun posture_slug :: "defense_posture \<Rightarrow> string" where
  "posture_slug Open = ''open''"
| "posture_slug Suspected = ''suspected''"
| "posture_slug Blocking = ''blocking''"

fun transition_kind_slug :: "defense_transition_kind \<Rightarrow> string" where
  "transition_kind_slug NoChange = ''unchanged''"
| "transition_kind_slug DefenseEngaged = ''engaged''"
| "transition_kind_slug DefenseRelaxed = ''relaxed''"
| "transition_kind_slug DefenseReconfigured = ''reconfigured''"

fun product_slug :: "defense_product \<Rightarrow> string" where
  "product_slug Cloudflare = ''cloudflare''"
| "product_slug AwsWaf = ''aws_waf''"
| "product_slug ModSecurity = ''mod_security''"
| "product_slug Akamai = ''akamai''"
| "product_slug Imperva = ''imperva''"
| "product_slug F5BigIp = ''f5_big_ip''"
| "product_slug Barracuda = ''barracuda''"
| "product_slug Fortinet = ''fortinet''"
| "product_slug Sucuri = ''sucuri''"
| "product_slug Wordfence = ''wordfence''"

definition defense_observation ::
  "(u8 list \<Rightarrow> u8 list) \<Rightarrow> defense_observation_context \<Rightarrow> string \<Rightarrow> string \<Rightarrow> string \<Rightarrow>
   (confidence_score, reasoning_error) res \<Rightarrow> (evidence, reasoning_error) res" where
  "defense_observation sha256 ctx namespace name meth reliability =
     and_then reliability (\<lambda>score.
     and_then (expect (knowledge_predicate_new namespace name)) (\<lambda>predicate.
     and_then (expect (evidence_source_new (doc_producer_id ctx) meth)) (\<lambda>src.
     and_then (expect (with_correlation_id src (doc_correlation_id ctx))) (\<lambda>source.
     and_then (defense_evidence_id sha256 ctx namespace name) (\<lambda>i.
       Ok (evidence_with_id_at i (doc_resource ctx) (CustomEvidence DEFENSE_EVIDENCE_CATEGORY) predicate
             (Boolean True) source score (doc_observed_at_ms ctx)))))))"

definition project_defense_state ::
  "(u8 list \<Rightarrow> u8 list) \<Rightarrow> defense_state \<Rightarrow> defense_observation_context \<Rightarrow> (evidence list, reasoning_error) res" where
  "project_defense_state sha256 state ctx =
     collect_res (\<lambda>r. r)
       ([defense_observation sha256 ctx ''defense.posture'' (posture_slug (dst_posture state)) ''defense-posture''
           direct_reliability]
        @ (if is_block (dst_status_signal state)
           then [defense_observation sha256 ctx ''defense.status'' ''blocked'' ''defense-status'' direct_reliability]
           else [])
        @ (if dst_challenged state
           then [defense_observation sha256 ctx ''defense.challenge'' ''present'' ''defense-challenge'' direct_reliability]
           else [])
        @ (if dst_rate_limited state
           then [defense_observation sha256 ctx ''defense.rate_limit'' ''observed'' ''defense-rate-limit'' direct_reliability]
           else [])
        @ (case dst_fingerprint state of
             None \<Rightarrow> []
           | Some print \<Rightarrow>
               [defense_observation sha256 ctx ''defense.fingerprint'' (product_slug (fp_product print))
                  ''defense-fingerprint'' (fingerprint_reliability (fp_confidence print))]))"

definition project_outcome ::
  "(u8 list \<Rightarrow> u8 list) \<Rightarrow> observed_outcome \<Rightarrow> defense_observation_context \<Rightarrow> (evidence list, reasoning_error) res" where
  "project_outcome sha256 outcome ctx =
     (case outcome of
        ObservedResponse state \<Rightarrow> project_defense_state sha256 state ctx
      | NoResponse \<Rightarrow> Ok [])"

definition project_defense_transition ::
  "(u8 list \<Rightarrow> u8 list) \<Rightarrow> defense_transition \<Rightarrow> defense_observation_context \<Rightarrow> (evidence list, reasoning_error) res" where
  "project_defense_transition sha256 transition ctx =
     (let obs = (\<lambda>name. defense_observation sha256 ctx ''defense.transition'' name ''defense-transition'' direct_reliability)
      in collect_res (\<lambda>r. r)
        ([obs (transition_kind_slug (dtr_kind transition))]
         @ (if dtr_newly_blocking transition then [obs ''newly_blocking''] else [])
         @ (if dtr_newly_rate_limited transition then [obs ''newly_rate_limited''] else [])
         @ (if dtr_fingerprint_changed transition then [obs ''fingerprint_changed''] else [])))"

end
