(* ===== verification/Defense_Properties.thy ===== *)
theory Defense_Properties
  imports Defense Knowledge_Properties
begin

text \<open>
  What the defense observation layer guarantees: which fingerprint a response gets, which reaction is
  recommended, and that the projection of an observation is a set of direct observations with stable,
  unambiguous identities that the knowledge base accepts and stores once.
\<close>

section \<open>Fingerprints\<close>

lemma ascii_lower_idem [simp]: "ascii_lower (ascii_lower c) = ascii_lower c"
  by (auto simp: ascii_lower_def byte_def)

lemma lowercase_idem [simp]: "to_ascii_lowercase (to_ascii_lowercase s) = to_ascii_lowercase s"
  by (simp add: to_ascii_lowercase_def comp_def)

lemma byte_ascii_lower: "0x80 \<le> byte (ascii_lower c) \<and> byte (ascii_lower c) < 0xC0 \<longleftrightarrow> 0x80 \<le> byte c \<and> byte c < 0xC0"
  by (auto simp: ascii_lower_def byte_def)

lemma is_char_boundary_lowercase [simp]: "is_char_boundary (to_ascii_lowercase s) i = is_char_boundary s i"
  by (simp add: is_char_boundary_def to_ascii_lowercase_def byte_ascii_lower cong: conj_cong)

lemma floor_boundary_lowercase [simp]: "floor_boundary (to_ascii_lowercase s) n = floor_boundary s n"
  by (induction n) simp_all

text \<open>The walk ends at the greatest boundary that the ceiling allows.\<close>

lemma floor_boundary_greatest:
  "floor_boundary s n \<le> n \<and> is_char_boundary s (floor_boundary s n)
   \<and> (\<forall>i \<le> n. is_char_boundary s i \<longrightarrow> i \<le> floor_boundary s n)"
  by (induction n) (auto simp: is_char_boundary_def le_Suc_eq)

definition scan_window :: "string \<Rightarrow> nat" where
  "scan_window body =
     (if length body \<le> MAX_FINGERPRINT_BODY_SCAN_BYTES then length body
      else floor_boundary body MAX_FINGERPRINT_BODY_SCAN_BYTES)"

lemma lowercase_prefix_window:
  "lowercase_prefix body MAX_FINGERPRINT_BODY_SCAN_BYTES = to_ascii_lowercase (take (scan_window body) body)"
  by (simp add: lowercase_prefix_def scan_window_def)

lemma scan_window_ok:
  "scan_window body \<le> MAX_FINGERPRINT_BODY_SCAN_BYTES \<and> scan_window body \<le> length body
   \<and> is_char_boundary body (scan_window body)"
  using floor_boundary_greatest [of body MAX_FINGERPRINT_BODY_SCAN_BYTES]
  by (auto simp: scan_window_def is_char_boundary_def)

text \<open>The first rule of the greatest confidence among the rules that match.\<close>

definition first_strongest :: "headers \<Rightarrow> string \<Rightarrow> fingerprint_rule list \<Rightarrow> fingerprint_rule \<Rightarrow> bool" where
  "first_strongest hs b rules r \<longleftrightarrow>
     (\<exists>pre post. rules = pre @ r # post \<and> rule_matches r hs b
        \<and> (\<forall>x \<in> set pre. rule_matches x hs b \<longrightarrow> fr_confidence x < fr_confidence r)
        \<and> (\<forall>x \<in> set post. rule_matches x hs b \<longrightarrow> fr_confidence x \<le> fr_confidence r))"

lemma first_strongest_Nil [simp]: "\<not> first_strongest hs b [] r"
  by (simp add: first_strongest_def)

lemma first_strongest_Cons:
  "first_strongest hs b (x # xs) r \<longleftrightarrow>
     x = r \<and> rule_matches r hs b \<and> (\<forall>y \<in> set xs. rule_matches y hs b \<longrightarrow> fr_confidence y \<le> fr_confidence r)
   \<or> (rule_matches x hs b \<longrightarrow> fr_confidence x < fr_confidence r) \<and> first_strongest hs b xs r"
proof
  assume "first_strongest hs b (x # xs) r"
  then obtain pre post where "x # xs = pre @ r # post" "rule_matches r hs b"
    "\<forall>y \<in> set pre. rule_matches y hs b \<longrightarrow> fr_confidence y < fr_confidence r"
    "\<forall>y \<in> set post. rule_matches y hs b \<longrightarrow> fr_confidence y \<le> fr_confidence r"
    by (auto simp: first_strongest_def)
  then show "x = r \<and> rule_matches r hs b \<and> (\<forall>y \<in> set xs. rule_matches y hs b \<longrightarrow> fr_confidence y \<le> fr_confidence r)
    \<or> (rule_matches x hs b \<longrightarrow> fr_confidence x < fr_confidence r) \<and> first_strongest hs b xs r"
    by (cases pre) (auto simp: first_strongest_def)
next
  assume "x = r \<and> rule_matches r hs b \<and> (\<forall>y \<in> set xs. rule_matches y hs b \<longrightarrow> fr_confidence y \<le> fr_confidence r)
    \<or> (rule_matches x hs b \<longrightarrow> fr_confidence x < fr_confidence r) \<and> first_strongest hs b xs r"
  then show "first_strongest hs b (x # xs) r"
    unfolding first_strongest_def
  proof (elim disjE conjE exE)
    show "\<exists>pre post. x # xs = pre @ r # post \<and> rule_matches r hs b
        \<and> (\<forall>x \<in> set pre. rule_matches x hs b \<longrightarrow> fr_confidence x < fr_confidence r)
        \<and> (\<forall>x \<in> set post. rule_matches x hs b \<longrightarrow> fr_confidence x \<le> fr_confidence r)"
      if "x = r" "rule_matches r hs b" "\<forall>y \<in> set xs. rule_matches y hs b \<longrightarrow> fr_confidence y \<le> fr_confidence r"
      using that by (intro exI [of _ "[]"] exI [of _ xs]) simp
    show "\<exists>pre post. x # xs = pre @ r # post \<and> rule_matches r hs b
        \<and> (\<forall>x \<in> set pre. rule_matches x hs b \<longrightarrow> fr_confidence x < fr_confidence r)
        \<and> (\<forall>x \<in> set post. rule_matches x hs b \<longrightarrow> fr_confidence x \<le> fr_confidence r)"
      if "rule_matches x hs b \<longrightarrow> fr_confidence x < fr_confidence r" "xs = pre @ r # post" "rule_matches r hs b"
        "\<forall>x \<in> set pre. rule_matches x hs b \<longrightarrow> fr_confidence x < fr_confidence r"
        "\<forall>x \<in> set post. rule_matches x hs b \<longrightarrow> fr_confidence x \<le> fr_confidence r" for pre post
      using that by (intro exI [of _ "x # pre"] exI [of _ post]) auto
  qed
qed

lemma first_strongest_matches: "first_strongest hs b rules r \<Longrightarrow> rule_matches r hs b"
  by (auto simp: first_strongest_def)

lemma best_rule_exact:
  "best_rule hs b rules best = Some r \<longleftrightarrow>
     best = Some r \<and> (\<forall>x \<in> set rules. rule_matches x hs b \<longrightarrow> fr_confidence x \<le> fr_confidence r)
   \<or> (\<forall>c \<in> set_option best. fr_confidence c < fr_confidence r) \<and> first_strongest hs b rules r"
proof (induction hs b rules best rule: best_rule.induct)
  case (2 hs b x rest best)
  then show ?case
    by (cases best) (auto simp: first_strongest_Cons)
qed simp

lemma matcher_lowercase:
  "matcher_matches m (map (map_prod to_ascii_lowercase to_ascii_lowercase) hs) b = matcher_matches m hs b"
  by (cases m)
    (simp_all add: header_present_def header_value_contains_def cookie_contains_def eq_ignore_ascii_case_def
      list_ex_iff case_prod_unfold)

lemma best_rule_lowercase:
  "best_rule (map (map_prod to_ascii_lowercase to_ascii_lowercase) hs) b rules best = best_rule hs b rules best"
  by (induction rules arbitrary: best) (simp_all add: rule_matches_def matcher_lowercase)

lemma lowercase_prefix_lowercase: "lowercase_prefix (to_ascii_lowercase body) n = lowercase_prefix body n"
proof -
  have "to_ascii_lowercase (take k (to_ascii_lowercase body)) = to_ascii_lowercase (take k body)" for k
    by (simp add: to_ascii_lowercase_def take_map comp_def)
  moreover have "length (to_ascii_lowercase body) = length body" by (simp add: to_ascii_lowercase_def)
  ultimately show ?thesis by (simp add: lowercase_prefix_def)
qed

lemma RULES_signals_distinct: "distinct (map rule_fingerprint RULES)"
  by (simp add: RULES_def fp_rule_def rule_fingerprint_def)

lemma fingerprint_Some_iff:
  "fingerprint hs body = Some fp \<longleftrightarrow>
     (\<exists>r. first_strongest hs (to_ascii_lowercase (take (scan_window body) body)) RULES r \<and> fp = rule_fingerprint r)"
  by (auto simp: fingerprint_def lowercase_prefix_window best_rule_exact)

lemma fingerprint_None_iff:
  "fingerprint hs body = None \<longleftrightarrow>
     (\<forall>r \<in> set RULES. \<not> rule_matches r hs (to_ascii_lowercase (take (scan_window body) body)))"
proof -
  have "best_rule hs b rules best = None \<longleftrightarrow> best = None \<and> (\<forall>r \<in> set rules. \<not> rule_matches r hs b)" for b rules best
    by (induction rules arbitrary: best) (auto split: option.splits)
  then show ?thesis by (simp add: fingerprint_def lowercase_prefix_window)
qed

text \<open>
  The fingerprint of a response is decided by the first rule of the greatest confidence among the
  rules of the table that match, and is absent only when none matches. Only a prefix of the body of
  at most 16 KiB that ends at a UTF-8 boundary is looked at, and the letter case of header names,
  header values and body never matters.
\<close>

theorem fingerprint_exact:
  "(fingerprint hs body = Some fp \<longleftrightarrow>
      (\<exists>r. first_strongest hs (to_ascii_lowercase (take (scan_window body) body)) RULES r \<and> fp = rule_fingerprint r))
   \<and> (fingerprint hs body = None \<longleftrightarrow>
        (\<forall>r \<in> set RULES. \<not> rule_matches r hs (to_ascii_lowercase (take (scan_window body) body))))
   \<and> scan_window body \<le> 16384 \<and> scan_window body \<le> length body \<and> is_char_boundary body (scan_window body)
   \<and> fingerprint (map (map_prod to_ascii_lowercase to_ascii_lowercase) hs) (to_ascii_lowercase body) = fingerprint hs body"
proof (intro conjI)
  show "fingerprint (map (map_prod to_ascii_lowercase to_ascii_lowercase) hs) (to_ascii_lowercase body) =
      fingerprint hs body"
    by (simp add: fingerprint_def best_rule_lowercase lowercase_prefix_lowercase)
qed (use scan_window_ok [of body] in
  \<open>simp_all add: fingerprint_Some_iff fingerprint_None_iff MAX_FINGERPRINT_BODY_SCAN_BYTES_def\<close>)

theorem fingerprint_exact_witness:
  "fingerprint [(''X-Amzn-RequestId'', ''1''), (''Server'', ''CloudFlare'')] ''Attention Required!'' =
     Some \<lparr>fp_product = Cloudflare, fp_confidence = StrongSignal, fp_signal = ''header:server=cloudflare''\<rparr>
   \<and> fingerprint [(''x-amzn-requestid'', ''1''), (''server'', ''cloudflare'')] ''attention required!'' =
     fingerprint [(''X-Amzn-RequestId'', ''1''), (''Server'', ''CloudFlare'')] ''Attention Required!''"
proof
  show "fingerprint [(''X-Amzn-RequestId'', ''1''), (''Server'', ''CloudFlare'')] ''Attention Required!'' =
     Some \<lparr>fp_product = Cloudflare, fp_confidence = StrongSignal, fp_signal = ''header:server=cloudflare''\<rparr>"
    by code_simp
  have "map (map_prod to_ascii_lowercase to_ascii_lowercase) [(''X-Amzn-RequestId'', ''1''), (''Server'', ''CloudFlare'')] =
      [(''x-amzn-requestid'', ''1''), (''server'', ''cloudflare'')]
    \<and> to_ascii_lowercase ''Attention Required!'' = ''attention required!''"
    by code_simp
  with fingerprint_exact [of "[(''X-Amzn-RequestId'', ''1''), (''Server'', ''CloudFlare'')]" "''Attention Required!''"]
  show "fingerprint [(''x-amzn-requestid'', ''1''), (''server'', ''cloudflare'')] ''attention required!'' =
     fingerprint [(''X-Amzn-RequestId'', ''1''), (''Server'', ''CloudFlare'')] ''Attention Required!''"
    by simp
qed

section \<open>Posture and recommendation\<close>

lemma derive_posture_eq:
  "derive_posture signal challenged limited print =
     (if is_block signal \<or> challenged then Blocking
      else if limited \<or> print \<noteq> None then Suspected else Open)"
  by (auto simp: derive_posture_def split: option.splits)

lemma posture_order [simp]:
  "Open < Suspected" "Suspected < Blocking" "Open < Blocking" "\<not> p < Open" "\<not> Blocking < p"
  by (simp_all add: less_defense_posture_def) (cases p, simp_all)

text \<open>A state as the three constructors build it.\<close>

definition state_consistent :: "defense_state \<Rightarrow> bool" where
  "state_consistent s \<longleftrightarrow>
     (dst_posture s = Blocking \<longleftrightarrow> is_block (dst_status_signal s) \<or> dst_challenged s)
   \<and> (dst_posture s = Open \<longleftrightarrow>
        \<not> is_block (dst_status_signal s) \<and> \<not> dst_challenged s \<and> \<not> dst_rate_limited s \<and> dst_fingerprint s = None)
   \<and> (dst_rate_limit_headers s \<longrightarrow> dst_rate_limited s)"

lemma observe_consistent: "state_consistent (observe_response status hs body)"
  by (simp add: state_consistent_def observe_response_def derive_posture_eq Let_def)

lemma assessment_consistent: "state_consistent (from_assessment_projection status challenged limited headers print)"
  by (simp add: state_consistent_def from_assessment_projection_def derive_posture_eq Let_def)

lemma authorization_consistent: "state_consistent (from_authorization_projection status challenged limited)"
  by (simp add: state_consistent_def from_authorization_projection_def)

definition blocked :: "defense_state \<Rightarrow> bool" where
  "blocked s \<longleftrightarrow> is_block (dst_status_signal s) \<or> dst_challenged s"

lemma posture_cases:
  assumes "state_consistent s"
  shows "dst_posture s = (if blocked s then Blocking
    else if dst_rate_limited s \<or> dst_fingerprint s \<noteq> None then Suspected else Open)"
  using assms by (cases "dst_posture s") (auto simp: state_consistent_def blocked_def)

text \<open>
  Every way of building an observation makes its posture the exact summary of its signals. On
  such observations the recommendation follows from what was seen: a block that the control did not
  have is attributed to the candidate (reconsider), a block that both have stops the line, throttling
  without a block asks for backoff, a mere fingerprint is only recorded and nothing at all lets the
  planner proceed. A denial status alone, in an authorisation review, never restricts. The kind of a
  transition is the direction of the posture, and comparing an observation with itself shows no change.
\<close>

theorem recommendation_exact:
  assumes "state_consistent control" and "state_consistent candidate"
    and "response = recommend candidate (Some (transition_between control candidate))"
    and "kind = dtr_kind (transition_between control candidate)"
  shows "(response = Reconsider \<longleftrightarrow> blocked candidate \<and> \<not> blocked control)
    \<and> (response = HaltLine \<longleftrightarrow> blocked candidate \<and> blocked control)
    \<and> (response = Backoff \<longleftrightarrow> \<not> blocked candidate \<and> dst_rate_limited candidate)
    \<and> (response = Observe \<longleftrightarrow> \<not> blocked candidate \<and> \<not> dst_rate_limited candidate \<and> dst_fingerprint candidate \<noteq> None)
    \<and> recommend candidate None = (if response = Reconsider then HaltLine else response)
    \<and> (kind = DefenseEngaged \<longleftrightarrow> dst_posture control < dst_posture candidate)
    \<and> (kind = DefenseRelaxed \<longleftrightarrow> dst_posture candidate < dst_posture control)
    \<and> dtr_kind (transition_between candidate candidate) = NoChange
    \<and> state_consistent (observe_response status hs body)
    \<and> state_consistent (from_assessment_projection status challenged limited headers print)
    \<and> state_consistent (from_authorization_projection status challenged limited)
    \<and> recommend (from_authorization_projection status False False) None = Proceed"
proof (intro conjI)
  note postures = posture_cases [OF assms(1)] posture_cases [OF assms(2)]
  show "response = Reconsider \<longleftrightarrow> blocked candidate \<and> \<not> blocked control"
    and "response = HaltLine \<longleftrightarrow> blocked candidate \<and> blocked control"
    and "response = Backoff \<longleftrightarrow> \<not> blocked candidate \<and> dst_rate_limited candidate"
    and "response = Observe \<longleftrightarrow> \<not> blocked candidate \<and> \<not> dst_rate_limited candidate \<and> dst_fingerprint candidate \<noteq> None"
    and "recommend candidate None = (if response = Reconsider then HaltLine else response)"
    by (simp_all add: assms(3) recommend_def transition_between_def Let_def postures)
  show "kind = DefenseEngaged \<longleftrightarrow> dst_posture control < dst_posture candidate"
    and "kind = DefenseRelaxed \<longleftrightarrow> dst_posture candidate < dst_posture control"
    by (auto simp: assms(4) transition_between_def Let_def)
  show "dtr_kind (transition_between candidate candidate) = NoChange"
    by (simp add: transition_between_def Let_def)
  show "recommend (from_authorization_projection status False False) None = Proceed"
    by (simp add: recommend_def from_authorization_projection_def)
qed (rule observe_consistent assessment_consistent authorization_consistent)+

definition sample_control :: defense_state where
  "sample_control = observe_response 200 [(''Server'', ''nginx'')] ''hello''"

definition sample_candidate :: defense_state where
  "sample_candidate = observe_response 403 [(''CF-RAY'', ''1'')] ''Attention Required!''"

theorem recommendation_exact_witness:
  "recommend sample_candidate (Some (transition_between sample_control sample_candidate)) = Reconsider"
proof -
  have "state_consistent sample_control" "state_consistent sample_candidate"
    unfolding sample_control_def sample_candidate_def by (rule observe_consistent)+
  from recommendation_exact [OF this refl refl]
  have "recommend sample_candidate (Some (transition_between sample_control sample_candidate)) = Reconsider
    \<longleftrightarrow> blocked sample_candidate \<and> \<not> blocked sample_control" by blast
  moreover have "blocked sample_candidate \<and> \<not> blocked sample_control" by code_simp
  ultimately show ?thesis by blast
qed

section \<open>Identity of a projected observation\<close>

lemma length_le_bytes [simp]: "length (le_bytes n w) = n"
  by (simp add: le_bytes_def)

lemma le_bytes_inj:
  fixes w w' :: "'w::len word"
  assumes "le_bytes n w = le_bytes n w'" and "LENGTH('w) = 8 * n"
  shows "w = w'"
proof (rule bit_word_eqI)
  fix k
  assume "k < LENGTH('w)"
  then have i: "k div 8 < n" using assms(2) by simp
  have "le_bytes n w ! (k div 8) = le_bytes n w' ! (k div 8)" using assms(1) by simp
  then have "(ucast (drop_bit (8 * (k div 8)) w) :: u8) = ucast (drop_bit (8 * (k div 8)) w')"
    using i by (simp add: le_bytes_def)
  then have "bit (ucast (drop_bit (8 * (k div 8)) w) :: u8) (k mod 8) = bit (ucast (drop_bit (8 * (k div 8)) w') :: u8) (k mod 8)"
    by simp
  then show "bit w k = bit w' k" by (simp add: bit_simps)
qed

lemma bytes_of_inj: "bytes_of s = bytes_of t \<longleftrightarrow> s = t"
proof -
  have "inj (\<lambda>c. word_of_nat (byte c) :: u8)"
  proof (rule injI)
    fix c d
    assume "(word_of_nat (byte c) :: u8) = word_of_nat (byte d)"
    then have "unat (word_of_nat (byte c) :: u8) = unat (word_of_nat (byte d) :: u8)" by simp
    moreover have "unat (word_of_nat (byte e) :: u8) = byte e" for e
      by (rule unat_of_nat_exact) (simp add: byte_def)
    ultimately have "byte c = byte d" by simp
    then show "c = d" by (simp add: byte_def)
  qed
  then show ?thesis by (simp add: bytes_of_def inj_map_eq_map)
qed

lemma framed_cancel:
  assumes "framed a @ x = framed b @ y" and "length a < 2 ^ 64" and "length b < 2 ^ 64"
  shows "a = b \<and> x = y"
proof -
  from assms(1) have "le_bytes 8 (word_of_nat (length a) :: u64) @ (a @ x) = le_bytes 8 (word_of_nat (length b) :: u64) @ (b @ y)"
    by (simp add: framed_def)
  then have "le_bytes 8 (word_of_nat (length a) :: u64) = le_bytes 8 (word_of_nat (length b) :: u64)" and rest: "a @ x = b @ y"
    by (simp_all add: append_eq_append_conv)
  then have "(word_of_nat (length a) :: u64) = word_of_nat (length b)" by (intro le_bytes_inj) simp_all
  moreover have "unat (word_of_nat (length c) :: u64) = length c" if "length c < 2 ^ 64" for c :: "u8 list"
    using that by (intro unat_of_nat_exact) simp
  ultimately have "length a = length b" using assms(2,3) by metis
  with rest show ?thesis by (simp add: append_eq_append_conv)
qed

lemma framed_list_cancel:
  assumes "concat (map (\<lambda>f. framed (bytes_of f)) as) @ x = concat (map (\<lambda>f. framed (bytes_of f)) bs) @ y"
    and "length as = length bs" and "\<forall>f \<in> set as \<union> set bs. length f < 2 ^ 64"
  shows "as = bs \<and> x = y"
  using assms(2,1,3)
proof (induction as bs rule: list_induct2)
  case (Cons a as b bs)
  have "bytes_of a = bytes_of b \<and>
      concat (map (\<lambda>f. framed (bytes_of f)) as) @ x = concat (map (\<lambda>f. framed (bytes_of f)) bs) @ y"
    using Cons.prems by (intro framed_cancel) (simp_all add: bytes_of_def)
  with Cons.IH Cons.prems(2) show ?case by (simp add: bytes_of_inj)
qed simp

text \<open>A string of the program is shorter than the address space.\<close>

definition context_sized :: "defense_observation_context \<Rightarrow> bool" where
  "context_sized ctx \<longleftrightarrow> length (doc_producer_id ctx) < 2 ^ 64 \<and> length (doc_resource ctx) < 2 ^ 64
     \<and> length (doc_correlation_id ctx) < 2 ^ 64 \<and> length (doc_response_receipt ctx) < 2 ^ 64"

lemma evidence_preimage_inj:
  assumes "context_sized ctx" and "context_sized ctx'"
    and "\<forall>s \<in> {namespace, name, namespace', name'}. length s < 2 ^ 64"
  shows "evidence_preimage ctx namespace name = evidence_preimage ctx' namespace' name' \<longleftrightarrow>
    ctx = ctx' \<and> namespace = namespace' \<and> name = name'"
proof
  let ?fields = "\<lambda>c ns n. [doc_producer_id c, doc_resource c, doc_correlation_id c, doc_response_receipt c, ns, n]"
  assume "evidence_preimage ctx namespace name = evidence_preimage ctx' namespace' name'"
  then have "concat (map (\<lambda>f. framed (bytes_of f)) (?fields ctx namespace name))
        @ (le_bytes 8 (doc_sequence ctx) @ le_bytes 8 (doc_observed_at_ms ctx))
      = concat (map (\<lambda>f. framed (bytes_of f)) (?fields ctx' namespace' name'))
        @ (le_bytes 8 (doc_sequence ctx') @ le_bytes 8 (doc_observed_at_ms ctx'))"
    unfolding evidence_preimage_def same_append_eq append_assoc .
  from framed_list_cancel [OF this] assms
  have "?fields ctx namespace name = ?fields ctx' namespace' name'"
    and "le_bytes 8 (doc_sequence ctx) @ le_bytes 8 (doc_observed_at_ms ctx)
       = le_bytes 8 (doc_sequence ctx') @ le_bytes 8 (doc_observed_at_ms ctx')"
    by (simp_all add: context_sized_def)
  moreover from this(2) have "doc_sequence ctx = doc_sequence ctx'" "doc_observed_at_ms ctx = doc_observed_at_ms ctx'"
    by (auto simp: append_eq_append_conv intro: le_bytes_inj [where n = 8])
  ultimately show "ctx = ctx' \<and> namespace = namespace' \<and> name = name'" by simp
qed simp

lemma defense_evidence_id_Ok:
  "defense_evidence_id sha256 ctx namespace name =
     Ok (''defense/'' @ encode_digest (sha256 (evidence_preimage ctx namespace name)))"
  by (simp add: defense_evidence_id_def expect_def evidence_id_parse_def non_empty_def visible_not_blank
      DEFENSE_EVIDENCE_CATEGORY_def visible_def ascii_blank_def byte_def)

section \<open>Records of a projection\<close>

text \<open>What the projection says of a state: predicate, method and reliability of each record.\<close>

definition state_signals :: "defense_state \<Rightarrow> (string \<times> string \<times> string \<times> confidence_score) list" where
  "state_signals s =
     [(''defense.posture'', posture_slug (dst_posture s), ''defense-posture'', 9000)]
     @ (if is_block (dst_status_signal s) then [(''defense.status'', ''blocked'', ''defense-status'', 9000)] else [])
     @ (if dst_challenged s then [(''defense.challenge'', ''present'', ''defense-challenge'', 9000)] else [])
     @ (if dst_rate_limited s then [(''defense.rate_limit'', ''observed'', ''defense-rate-limit'', 9000)] else [])
     @ (case dst_fingerprint s of None \<Rightarrow> []
        | Some p \<Rightarrow> [(''defense.fingerprint'', product_slug (fp_product p), ''defense-fingerprint'',
            case fp_confidence p of WeakSignal \<Rightarrow> 3000 | ProbableSignal \<Rightarrow> 6000 | StrongSignal \<Rightarrow> 9000)])"

definition projected_record ::
  "(u8 list \<Rightarrow> u8 list) \<Rightarrow> defense_observation_context \<Rightarrow> string \<times> string \<times> string \<times> confidence_score \<Rightarrow> evidence" where
  "projected_record sha256 ctx signal =
     (case signal of (namespace, name, meth, score) \<Rightarrow>
       \<lparr>e_id = ''defense/'' @ encode_digest (sha256 (evidence_preimage ctx namespace name)),
        e_subject = doc_resource ctx, e_kind = CustomEvidence ''defense'',
        e_predicate = \<lparr>kp_namespace = namespace, kp_name = name\<rparr>, e_value = Boolean True,
        e_source = \<lparr>es_component = doc_producer_id ctx, es_method = meth,
                    es_correlation_id = Some (doc_correlation_id ctx)\<rparr>,
        e_reliability = score, e_observed_at_ms = doc_observed_at_ms ctx, e_origin = Direct\<rparr>)"

definition context_ok :: "defense_observation_context \<Rightarrow> bool" where
  "context_ok ctx \<longleftrightarrow>
     \<not> blank (doc_producer_id ctx) \<and> \<not> blank (doc_correlation_id ctx) \<and> \<not> blank (doc_response_receipt ctx)"

lemma context_new_ok:
  "observation_context_new p r c s rc t = Ok ctx \<longleftrightarrow>
     context_ok ctx \<and> ctx = \<lparr>doc_producer_id = p, doc_resource = r, doc_correlation_id = c, doc_sequence = s,
       doc_response_receipt = rc, doc_observed_at_ms = t\<rparr>"
  by (auto simp: observation_context_new_def non_empty_def context_ok_def)

lemma reliabilities:
  "direct_reliability = Ok 9000"
  "fingerprint_reliability c = Ok (case c of WeakSignal \<Rightarrow> 3000 | ProbableSignal \<Rightarrow> 6000 | StrongSignal \<Rightarrow> 9000)"
  by (simp_all add: direct_reliability_def fingerprint_reliability_def expect_def confidence_from_percent_def
      confidence_from_basis_points_def DIRECT_OBSERVATION_PERCENT_def MAX_CONFIDENCE_BASIS_POINTS_def
      split: fingerprint_confidence.split)

lemma defense_observation_Ok:
  assumes "context_ok ctx" and "\<not> blank namespace" and "\<not> blank name" and "\<not> blank meth"
  shows "defense_observation sha256 ctx namespace name meth (Ok score) =
    Ok (projected_record sha256 ctx (namespace, name, meth, score))"
  using assms
  by (simp add: defense_observation_def knowledge_predicate_new_def evidence_source_new_def with_correlation_id_def
      expect_def non_empty_def context_ok_def defense_evidence_id_Ok evidence_with_id_at_def projected_record_def
      DEFENSE_EVIDENCE_CATEGORY_def)

definition short_visible :: "string \<Rightarrow> bool" where
  "short_visible s \<longleftrightarrow> s \<noteq> [] \<and> length s < 16 \<and> visible (hd s)"

lemma short_visible_slugs [simp]:
  "short_visible (posture_slug x)" "short_visible (product_slug y)" "short_visible (transition_kind_slug z)"
  by (cases x, simp_all add: short_visible_def visible_def ascii_blank_def byte_def)
    (cases y; cases z; simp add: visible_def ascii_blank_def byte_def)+

lemma short_visible_not_blank: "short_visible s \<Longrightarrow> \<not> blank s"
  by (metis list.collapse short_visible_def visible_not_blank)

lemma short_visible_sized: "short_visible s \<Longrightarrow> length s < 2 ^ 64"
  by (simp add: short_visible_def)

lemmas literal_not_blank = short_visible_slugs [THEN short_visible_not_blank]
lemmas slugs_sized = short_visible_slugs [THEN short_visible_sized]

lemma d_not_blank: "\<not> blank (CHR ''d'' # s)" "\<not> blank (CHR ''b'' # s)" "\<not> blank (CHR ''p'' # s)"
    "\<not> blank (CHR ''o'' # s)" "\<not> blank (CHR ''n'' # s)" "\<not> blank (CHR ''f'' # s)"
  by (simp_all add: visible_not_blank visible_def ascii_blank_def byte_def)

lemma project_state_Ok:
  assumes "context_ok ctx"
  shows "project_defense_state sha256 s ctx = Ok (map (projected_record sha256 ctx) (state_signals s))"
  using assms
  by (simp add: project_defense_state_def state_signals_def reliabilities defense_observation_Ok
      literal_not_blank d_not_blank split: option.split)

definition transition_signals :: "defense_transition \<Rightarrow> (string \<times> string \<times> string \<times> confidence_score) list" where
  "transition_signals d =
     map (\<lambda>name. (''defense.transition'', name, ''defense-transition'', 9000))
       ([transition_kind_slug (dtr_kind d)]
        @ (if dtr_newly_blocking d then [''newly_blocking''] else [])
        @ (if dtr_newly_rate_limited d then [''newly_rate_limited''] else [])
        @ (if dtr_fingerprint_changed d then [''fingerprint_changed''] else []))"

lemma project_transition_Ok:
  assumes "context_ok ctx"
  shows "project_defense_transition sha256 d ctx = Ok (map (projected_record sha256 ctx) (transition_signals d))"
  using assms
  by (simp add: project_defense_transition_def transition_signals_def reliabilities defense_observation_Ok
      literal_not_blank d_not_blank)

definition signal_name :: "string \<times> string \<times> string \<times> confidence_score \<Rightarrow> string \<times> string" where
  "signal_name signal = (case signal of (namespace, name, _) \<Rightarrow> (namespace, name))"

lemma signals_distinct: "distinct (map signal_name (state_signals s))" "distinct (map signal_name (transition_signals d))"
  by (simp add: state_signals_def signal_name_def split: option.split)
    (cases "dtr_kind d"; simp add: transition_signals_def signal_name_def)

lemma signals_sized:
  "x \<in> set (state_signals s) \<union> set (transition_signals d) \<Longrightarrow>
     length (fst (signal_name x)) < 2 ^ 64 \<and> length (snd (signal_name x)) < 2 ^ 64"
  using slugs_sized by (auto simp: state_signals_def transition_signals_def signal_name_def split: option.splits if_splits)

section \<open>Ingestion of a projection\<close>

lemma collect_pending_succeeds:
  assumes "\<forall>e \<in> set es. stored (e_id e) = None \<or> stored (e_id e) = Some e"
    and "\<forall>e \<in> set es. \<forall>e' \<in> set es. e_id e = e_id e' \<longrightarrow> e = e'"
    and "\<forall>e \<in> set es. map_of pending (e_id e) = None \<or> map_of pending (e_id e) = Some e"
  shows "\<exists>p. collect_pending stored es pending = Ok p \<and> snd ` set p \<subseteq> snd ` set pending \<union> set es"
  using assms
proof (induction es arbitrary: pending)
  case (Cons e es)
  let ?p = "if map_of pending (e_id e) = None then pending @ [(e_id e, e)] else pending"
  have "map_of ?p (e_id x) = None \<or> map_of ?p (e_id x) = Some x" if "x \<in> set es" for x
  proof (cases "e_id x = e_id e")
    case True
    with Cons.prems(2) that have "x = e" by auto
    then show ?thesis using Cons.prems(3) by (auto simp: map_add_def)
  next
    case False
    then have "map_of ?p (e_id x) = map_of pending (e_id x)" by (simp add: map_add_def split: option.split)
    then show ?thesis using Cons.prems(3) that by simp
  qed
  with Cons.prems have "\<exists>p. collect_pending stored es ?p = Ok p \<and> snd ` set p \<subseteq> snd ` set ?p \<union> set es"
    by (intro Cons.IH) auto
  moreover have "collect_pending stored (e # es) pending = collect_pending stored es ?p"
    using Cons.prems(1,3) by auto
  ultimately show ?case by (auto split: if_splits)
qed auto

lemma write_evidence_all_stored:
  "\<forall>e \<in> set es. ks_evidence st (e_id e) \<noteq> None \<Longrightarrow>
     write_evidence_all es st = (Ok (replicate (length es) Unchanged), st)"
  by (induction es) auto

lemma direct_batch_validated:
  assumes "hash_order iter" and "\<forall>e \<in> set es. ks_evidence st (e_id e) = None \<or> ks_evidence st (e_id e) = Some e"
    and "\<forall>e \<in> set es. \<forall>e' \<in> set es. e_id e = e_id e' \<longrightarrow> e = e'" and "\<forall>e \<in> set es. e_origin e = Direct"
  shows "insert_evidence_batch iter es st = write_evidence_all es st"
proof -
  from collect_pending_succeeds [OF assms(2,3), of "[]"] obtain p where
    p: "collect_pending (ks_evidence st) es [] = Ok p" and sub: "snd ` set p \<subseteq> set es" by auto
  have "distinct (map fst p)" by (rule collect_pending_Ok(1) [OF p]) simp_all
  then have "set (iter p) = set p" using assms(1) by (simp add: hash_order_def)
  then have none: "e_parents e = []" if "(i, e) \<in> set (iter p)" for i e
    using that sub assms(4) by (force simp: e_parents_def)
  then have "batch_edges (iter p) = {}" by (auto simp: batch_edges_def dest: map_of_SomeD)
  then have "validate_batch_derivations (ks_evidence st) (iter p) = Ok ()"
    using none by (auto simp: validate_batch_Ok_iff parents_resolve_def acyclic_def)
  then show ?thesis by (simp add: insert_evidence_batch_def p)
qed

lemma direct_batch_stored:
  assumes "hash_order iter" and "\<forall>e \<in> set es. ks_evidence st (e_id e) = None \<or> ks_evidence st (e_id e) = Some e"
    and "\<forall>e \<in> set es. \<forall>e' \<in> set es. e_id e = e_id e' \<longrightarrow> e = e'" and "\<forall>e \<in> set es. e_origin e = Direct"
    and "\<forall>s. unat (subject_revision st s) + length es < 2 ^ 64"
  shows "\<exists>ws st'. insert_evidence_batch iter es st = (Ok ws, st')
    \<and> (\<forall>i e. ks_evidence st' i = Some e \<longleftrightarrow> ks_evidence st i = Some e \<or> e \<in> set es \<and> e_id e = i)
    \<and> insert_evidence_batch iter es st' = (Ok (replicate (length es) Unchanged), st')"
proof -
  obtain r st' where run: "write_evidence_all es st = (r, st')" by fastforce
  with write_evidence_all_total [OF assms(5)] write_evidence_all_not_Err [of es st] obtain ws where r: "r = Ok ws"
    by (cases r) auto
  have stored: "ks_evidence st' i = Some e \<longleftrightarrow> ks_evidence st i = Some e \<or> e \<in> set es \<and> e_id e = i" for i e
    by (rule write_evidence_all_evidence [OF run [unfolded r]]) (use assms(2,3) in blast)+
  then have "\<forall>e \<in> set es. ks_evidence st' (e_id e) = Some e" by simp
  then have "insert_evidence_batch iter es st' = (Ok (replicate (length es) Unchanged), st')"
    using assms by (simp add: direct_batch_validated write_evidence_all_stored)
  with run r stored show ?thesis using direct_batch_validated [OF assms(1-4)] by auto
qed

definition record_preimage :: "defense_observation_context \<Rightarrow> evidence \<Rightarrow> u8 list" where
  "record_preimage ctx e = evidence_preimage ctx (kp_namespace (e_predicate e)) (kp_name (e_predicate e))"

lemma projected_record_fields:
  "record_preimage ctx (projected_record sha256 ctx x) = evidence_preimage ctx (fst (signal_name x)) (snd (signal_name x))"
  "e_id (projected_record sha256 ctx x) =
     ''defense/'' @ encode_digest (sha256 (evidence_preimage ctx (fst (signal_name x)) (snd (signal_name x))))"
  "e_origin (projected_record sha256 ctx x) = Direct"
  by (simp_all add: projected_record_def record_preimage_def signal_name_def split: prod.split)

lemma projected_ids_distinct:
  assumes "context_sized ctx" and "distinct (map signal_name signals)"
    and "\<And>x. x \<in> set signals \<Longrightarrow> length (fst (signal_name x)) < 2 ^ 64 \<and> length (snd (signal_name x)) < 2 ^ 64"
    and "inj_on sha256 (record_preimage ctx ` projected_record sha256 ctx ` set signals)"
    and "x \<in> set signals" and "y \<in> set signals"
    and "e_id (projected_record sha256 ctx x) = e_id (projected_record sha256 ctx y)"
  shows "x = y"
proof -
  let ?pre = "\<lambda>x. evidence_preimage ctx (fst (signal_name x)) (snd (signal_name x))"
  have "inj_on sha256 (?pre ` set signals)"
    using assms(4) by (simp add: image_image projected_record_fields(1))
  moreover have "sha256 (?pre x) = sha256 (?pre y)"
    using assms(7) by (simp add: projected_record_fields encode_digest_inj)
  ultimately have "?pre x = ?pre y" using assms(5,6) by (meson imageI inj_onD)
  then have "signal_name x = signal_name y"
    using evidence_preimage_inj [OF assms(1,1)] assms(3) [OF assms(5)] assms(3) [OF assms(6)]
    by (simp add: prod_eq_iff)
  then show ?thesis using assms(2,5,6) by (simp add: distinct_map inj_on_def)
qed


definition sample_defense_context :: defense_observation_context where
  "sample_defense_context =
     \<lparr>doc_producer_id = ''defense'', doc_resource = ''s'', doc_correlation_id = ''case'', doc_sequence = 1,
      doc_response_receipt = ''r1'', doc_observed_at_ms = 7\<rparr>"


end
