(* ===== verification/Defense_Planning.thy ===== *)
theory Defense_Planning
  imports Defense_Properties Planner_Defense
begin

text \<open>
  Defense-aware planning: the decision table, the corroborated signal of a resource, the shadow plan
  with its delta (\<open>src/crates/termivar-scanner/src/defense/shadow_planning.rs\<close>) and the default-off
  enforcement (\<open>enforcement.rs\<close>). The classification of actions is a function of the host. The
  filter itself is the planner's and its laws come from the planner's theories.
\<close>

section \<open>Decision table\<close>

datatype defense_interaction_class =
  LocalOnly | PassiveRead | Behavioral | DifferentialRead | ActiveVerification | Mutating

datatype interaction_decision = Allow | Deprioritize | Suppress

fun decision_rank :: "interaction_decision \<Rightarrow> nat" where
  "decision_rank Allow = 0"
| "decision_rank Deprioritize = 1"
| "decision_rank Suppress = 2"

lemma decision_rank_inj: "decision_rank a = decision_rank b \<Longrightarrow> a = b"
  by (cases a; cases b) simp_all

instantiation interaction_decision :: linorder
begin

definition less_eq_interaction_decision :: "interaction_decision \<Rightarrow> interaction_decision \<Rightarrow> bool" where
  "less_eq_interaction_decision a b \<longleftrightarrow> decision_rank a \<le> decision_rank b"

definition less_interaction_decision :: "interaction_decision \<Rightarrow> interaction_decision \<Rightarrow> bool" where
  "less_interaction_decision a b \<longleftrightarrow> decision_rank a < decision_rank b"

instance
  by standard (auto simp: less_eq_interaction_decision_def less_interaction_decision_def intro: decision_rank_inj)

end

definition decide :: "defense_response \<Rightarrow> defense_interaction_class \<Rightarrow> interaction_decision" where
  "decide response cls =
     (case response of
        Proceed \<Rightarrow> Allow
      | Observe \<Rightarrow> (case cls of ActiveVerification \<Rightarrow> Deprioritize | Mutating \<Rightarrow> Deprioritize | _ \<Rightarrow> Allow)
      | Backoff \<Rightarrow>
          (case cls of ActiveVerification \<Rightarrow> Suppress | Mutating \<Rightarrow> Suppress | DifferentialRead \<Rightarrow> Deprioritize
           | _ \<Rightarrow> Allow)
      | Reconsider \<Rightarrow>
          (case cls of ActiveVerification \<Rightarrow> Suppress | Mutating \<Rightarrow> Suppress | Behavioral \<Rightarrow> Deprioritize
           | DifferentialRead \<Rightarrow> Deprioritize | PassiveRead \<Rightarrow> Allow | LocalOnly \<Rightarrow> Allow)
      | HaltLine \<Rightarrow> (case cls of LocalOnly \<Rightarrow> Allow | _ \<Rightarrow> Suppress))"

fun explanation_code :: "defense_response \<Rightarrow> interaction_decision \<Rightarrow> string" where
  "explanation_code Observe Deprioritize = ''defense.observe.deprioritize''"
| "explanation_code Backoff Deprioritize = ''defense.backoff.deprioritize''"
| "explanation_code Backoff Suppress = ''defense.backoff.suppress''"
| "explanation_code Reconsider Deprioritize = ''defense.reconsider.deprioritize''"
| "explanation_code Reconsider Suppress = ''defense.reconsider.suppress''"
| "explanation_code HaltLine Suppress = ''defense.halt.suppress''"
| "explanation_code _ _ = ''defense.none''"

definition render_explanation :: "string \<Rightarrow> string" where
  "render_explanation code =
     (if code = ''defense.observe.deprioritize''
      then ''defensive infrastructure was observed; active work is deprioritized''
      else if code = ''defense.backoff.deprioritize''
      then ''rate limiting is in effect; differential reads are deprioritized''
      else if code = ''defense.backoff.suppress''
      then ''rate limiting is in effect; active verification and mutation are suppressed''
      else if code = ''defense.reconsider.deprioritize''
      then ''the candidate provoked a block; behavioral and differential work is deprioritized''
      else if code = ''defense.reconsider.suppress''
      then ''the candidate provoked a block; active verification and mutation are suppressed''
      else if code = ''defense.halt.suppress''
      then ''a standing block or challenge halts all network-producing actions''
      else if code = ''defense.dependency.suppress''
      then ''an action was suppressed because a required prerequisite was removed''
      else ''no defensive adjustment'')"

section \<open>Corroborated signal of a resource\<close>

record resource_defense_observation =
  rdo_state :: defense_state
  rdo_transition :: "defense_transition option"
  rdo_evidence_ids :: "evidence_id list"

record resource_defense_signal =
  rds_resource :: entity_id
  rds_response :: defense_response
  rds_evidence_ids :: "evidence_id list"

definition signal_proceed :: "entity_id \<Rightarrow> resource_defense_signal" where
  "signal_proceed resource = \<lparr>rds_resource = resource, rds_response = Proceed, rds_evidence_ids = []\<rparr>"

definition downgrade_uncorroborated_halt :: "defense_response \<Rightarrow> nat \<Rightarrow> defense_response" where
  "downgrade_uncorroborated_halt response standing_blocks =
     (if response = HaltLine \<and> standing_blocks < 2 then Observe else response)"

definition aggregate_signal :: "entity_id \<Rightarrow> resource_defense_observation list \<Rightarrow> resource_defense_signal" where
  "aggregate_signal resource observations =
     (let responses = map (\<lambda>ob. recommend (rdo_state ob) (rdo_transition ob)) observations;
          standing_blocks = length (filter (\<lambda>response. response = HaltLine) responses);
          downgraded = map (\<lambda>response. downgrade_uncorroborated_halt response standing_blocks) responses
      in \<lparr>rds_resource = resource,
          rds_response = (case downgraded of [] \<Rightarrow> Proceed | r # rs \<Rightarrow> fold max rs r),
          rds_evidence_ids = remdups_adj (sort (concat (map rdo_evidence_ids observations)))\<rparr>)"

section \<open>Shadow plan\<close>

record plan_adjustment =
  pj_action_id :: string
  pj_class :: defense_interaction_class
  pj_recommendation :: defense_response
  pj_evidence_ids :: "evidence_id list"
  pj_explanation_code :: string

record shadow_plan_delta =
  sd_unchanged :: "string list"
  sd_deprioritized :: "plan_adjustment list"
  sd_suppressed :: "plan_adjustment list"

definition delta_default :: shadow_plan_delta where
  "delta_default = \<lparr>sd_unchanged = [], sd_deprioritized = [], sd_suppressed = []\<rparr>"

definition delta_is_empty :: "shadow_plan_delta \<Rightarrow> bool" where
  "delta_is_empty delta \<longleftrightarrow> sd_deprioritized delta = [] \<and> sd_suppressed delta = []"

record defense_aware_shadow_plan =
  dsp_current :: attack_plan
  dsp_shadow :: attack_plan
  dsp_delta :: shadow_plan_delta

fun classify_candidates ::
  "attack_planner \<Rightarrow> defense_response \<Rightarrow> (attack_action \<Rightarrow> defense_interaction_class) \<Rightarrow> string list \<Rightarrow>
   (string, defense_interaction_class) bmap \<Rightarrow> string list \<Rightarrow>
   (string, defense_interaction_class) bmap \<times> string list" where
  "classify_candidates planner response classify [] classes suppressed = (classes, suppressed)"
| "classify_candidates planner response classify (action_id # rest) classes suppressed =
     (case map_of planner action_id of
        None \<Rightarrow> classify_candidates planner response classify rest classes suppressed
      | Some action \<Rightarrow>
          (let cls = classify action
           in classify_candidates planner response classify rest (bmap_insert action_id cls classes)
                (if decide response cls = Suppress then bset_insert action_id suppressed else suppressed)))"

definition adjustment ::
  "resource_defense_signal \<Rightarrow> string \<Rightarrow> defense_interaction_class \<Rightarrow> string \<Rightarrow> plan_adjustment" where
  "adjustment signal action_id cls code =
     \<lparr>pj_action_id = action_id, pj_class = cls, pj_recommendation = rds_response signal,
      pj_evidence_ids = rds_evidence_ids signal, pj_explanation_code = code\<rparr>"

definition delta_step ::
  "string set \<Rightarrow> (string, defense_interaction_class) bmap \<Rightarrow> resource_defense_signal \<Rightarrow> plan_step \<Rightarrow>
   shadow_plan_delta \<Rightarrow> shadow_plan_delta" where
  "delta_step retained classes signal step delta =
     (let action_id = st_action_id step
      in case map_of classes action_id of
           None \<Rightarrow> delta\<lparr>sd_unchanged := sd_unchanged delta @ [action_id]\<rparr>
         | Some cls \<Rightarrow>
             (let decision = decide (rds_response signal) cls
              in if action_id \<notin> retained
                 then delta\<lparr>sd_suppressed := sd_suppressed delta @
                   [adjustment signal action_id cls
                      (if decision = Suppress then explanation_code (rds_response signal) decision
                       else ''defense.dependency.suppress'')]\<rparr>
                 else
                   (case decision of
                      Allow \<Rightarrow> delta\<lparr>sd_unchanged := sd_unchanged delta @ [action_id]\<rparr>
                    | Deprioritize \<Rightarrow> delta\<lparr>sd_deprioritized := sd_deprioritized delta @
                        [adjustment signal action_id cls (explanation_code (rds_response signal) Deprioritize)]\<rparr>
                    | Suppress \<Rightarrow> delta\<lparr>sd_suppressed := sd_suppressed delta @
                        [adjustment signal action_id cls (explanation_code (rds_response signal) Suppress)]\<rparr>)))"

definition build_delta ::
  "attack_plan \<Rightarrow> attack_plan \<Rightarrow> (string, defense_interaction_class) bmap \<Rightarrow> resource_defense_signal \<Rightarrow>
   shadow_plan_delta" where
  "build_delta current shadow classes signal =
     fold (delta_step (set (map st_action_id (ap_steps shadow))) classes signal) (ap_steps current) delta_default"

definition shadow_plan_from_current ::
  "attack_plan \<Rightarrow> attack_planner \<Rightarrow> resource_defense_signal \<Rightarrow> (attack_action \<Rightarrow> defense_interaction_class) \<Rightarrow>
   defense_aware_shadow_plan" where
  "shadow_plan_from_current current planner signal classify =
     (let applies = (rds_resource signal = ap_subject current \<and> rds_response signal \<noteq> Proceed)
      in case (if applies
               then classify_candidates planner (rds_response signal) classify
                      (map st_action_id (ap_steps current)) [] []
               else ([], [])) of
           (classes, suppressed) \<Rightarrow>
             (let shadow = into_defense_filtered current suppressed
              in \<lparr>dsp_current = current, dsp_shadow = shadow,
                  dsp_delta = build_delta current shadow classes signal\<rparr>))"

definition shadow_plan ::
  "attack_planner \<Rightarrow> knowledge_snapshot \<Rightarrow> entity_id \<Rightarrow> planning_context \<Rightarrow> resource_defense_signal \<Rightarrow>
   (attack_action \<Rightarrow> defense_interaction_class) \<Rightarrow> defense_aware_shadow_plan planner_res" where
  "shadow_plan planner sn subject context signal classify =
     and_then (plan_snapshot planner sn context) (\<lambda>current.
       if ap_subject current \<noteq> subject
       then Ok \<lparr>dsp_current = current, dsp_shadow = current, dsp_delta = delta_default\<rparr>
       else Ok (shadow_plan_from_current current planner signal classify))"

section \<open>Enforcement\<close>

record defense_planning_policy =
  dpp_enabled :: bool

definition policy_disabled :: defense_planning_policy where "policy_disabled = \<lparr>dpp_enabled = False\<rparr>"
definition policy_enabled :: defense_planning_policy where "policy_enabled = \<lparr>dpp_enabled = True\<rparr>"

definition defense_aware_plan ::
  "defense_planning_policy \<Rightarrow> attack_planner \<Rightarrow> knowledge_snapshot \<Rightarrow> entity_id \<Rightarrow> planning_context \<Rightarrow>
   resource_defense_signal \<Rightarrow> (attack_action \<Rightarrow> defense_interaction_class) \<Rightarrow> attack_plan planner_res" where
  "defense_aware_plan policy planner sn subject context signal classify =
     (if \<not> dpp_enabled policy then plan_snapshot planner sn context
      else and_then (shadow_plan planner sn subject context signal classify) (\<lambda>shadow. Ok (dsp_shadow shadow)))"

section \<open>The signal\<close>

lemma Proceed_least [simp]: "Proceed \<le> r"
  by (simp add: less_eq_defense_response_def)

lemma decide_mono: "r \<le> r' \<Longrightarrow> decide r c \<le> decide r' c"
  by (cases r; cases r'; cases c)
    (simp_all add: decide_def less_eq_defense_response_def less_eq_interaction_decision_def)

definition responses_of :: "resource_defense_observation list \<Rightarrow> defense_response list" where
  "responses_of obs = map (\<lambda>ob. recommend (rdo_state ob) (rdo_transition ob)) obs"

definition standing_blocks :: "resource_defense_observation list \<Rightarrow> nat" where
  "standing_blocks obs = length (filter (\<lambda>r. r = HaltLine) (responses_of obs))"

lemma aggregate_response:
  "rds_response (aggregate_signal resource obs) =
     Max (insert Proceed ((\<lambda>r. downgrade_uncorroborated_halt r (standing_blocks obs)) ` set (responses_of obs)))"
proof (cases obs)
  case Nil
  then show ?thesis by (simp add: aggregate_signal_def responses_of_def)
next
  case (Cons ob rest)
  let ?f = "\<lambda>ob. downgrade_uncorroborated_halt (recommend (rdo_state ob) (rdo_transition ob)) (standing_blocks obs)"
  have "rds_response (aggregate_signal resource obs) = fold max (map ?f rest) (?f ob)"
    unfolding Cons by (simp add: aggregate_signal_def Let_def standing_blocks_def responses_of_def comp_def)
  also have "\<dots> = Max (?f ` set obs)"
    unfolding Max.set_eq_fold [symmetric] by (simp add: Cons)
  also have "\<dots> = Max (insert Proceed (?f ` set obs))"
    using Cons by (simp add: max_def)
  finally show ?thesis by (simp add: responses_of_def image_image)
qed

lemma remdups_adj_strict: "sorted xs \<Longrightarrow> bset_ok (remdups_adj xs)"
  by (induction xs rule: remdups_adj.induct) (auto simp: order.strict_iff_order)

lemma aggregate_evidence:
  "rds_evidence_ids (aggregate_signal resource obs) = bset_of_list (concat (map rdo_evidence_ids obs))"
proof -
  have "bset_ok (remdups_adj (sort xs))" for xs :: "evidence_id list"
    by (rule remdups_adj_strict) simp
  then show ?thesis
    by (simp add: aggregate_signal_def Let_def bset_eq_iff)
qed

lemma standing_blocks_mset: "mset obs = mset obs' \<Longrightarrow> standing_blocks obs = standing_blocks obs'"
proof -
  have size: "standing_blocks xs =
      size (filter_mset (\<lambda>r. r = HaltLine) (image_mset (\<lambda>ob. recommend (rdo_state ob) (rdo_transition ob)) (mset xs)))" for xs
    unfolding standing_blocks_def responses_of_def mset_map [symmetric] mset_filter [symmetric] size_mset ..
  show "mset obs = mset obs' \<Longrightarrow> standing_blocks obs = standing_blocks obs'"
    unfolding size by simp
qed

lemma standing_block_seen: "0 < standing_blocks obs \<longleftrightarrow> HaltLine \<in> set (responses_of obs)"
  by (auto simp: standing_blocks_def filter_empty_conv)

lemma downgrade_mono: "m \<le> n \<Longrightarrow> downgrade_uncorroborated_halt r m \<le> downgrade_uncorroborated_halt r n"
  by (simp add: downgrade_uncorroborated_halt_def less_eq_defense_response_def)

lemma downgrade_HaltLine: "HaltLine = downgrade_uncorroborated_halt r n \<longleftrightarrow> r = HaltLine \<and> 2 \<le> n"
  by (auto simp: downgrade_uncorroborated_halt_def)

lemma HaltLine_greatest: "HaltLine \<le> r \<longleftrightarrow> r = HaltLine"
  by (cases r) (simp_all add: less_eq_defense_response_def)

lemma Max_HaltLine: "finite S \<Longrightarrow> Max (insert Proceed S) = HaltLine \<longleftrightarrow> HaltLine \<in> S"
  by (metis HaltLine_greatest Max_ge Max_in defense_response.distinct(7) finite_insert insertE insertI2 insert_not_empty)


definition sample_observation :: "string \<Rightarrow> resource_defense_observation" where
  "sample_observation i = \<lparr>rdo_state = from_authorization_projection 403 True False, rdo_transition = None, rdo_evidence_ids = [i]\<rparr>"


section \<open>The shadow plan and its delta\<close>

text \<open>What the signal decides about one action of the plan.\<close>

definition verdict ::
  "attack_planner \<Rightarrow> resource_defense_signal \<Rightarrow> (attack_action \<Rightarrow> defense_interaction_class) \<Rightarrow> bool \<Rightarrow> string \<Rightarrow>
   interaction_decision" where
  "verdict planner signal classify scoped i =
     (case map_of planner i of
        None \<Rightarrow> Allow
      | Some a \<Rightarrow> if scoped then decide (rds_response signal) (classify a) else Allow)"

lemma classify_candidates_exact:
  "classify_candidates planner response classify ids classes suppressed = (classes', suppressed') \<Longrightarrow>
     map_of classes' = (\<lambda>i. if i \<in> set ids \<and> map_of planner i \<noteq> None then map_option classify (map_of planner i)
                            else map_of classes i)
   \<and> set suppressed' = set suppressed
       \<union> {i \<in> set ids. \<exists>a. map_of planner i = Some a \<and> decide response (classify a) = Suppress}"
  by (induction planner response classify ids classes suppressed arbitrary: classes' suppressed'
        rule: classify_candidates.induct)
    (auto simp: Let_def fun_eq_iff split: option.splits if_splits)

lemma fold_delta_step:
  fixes signal :: resource_defense_signal
  assumes "\<And>s. s \<in> set steps \<Longrightarrow> map_of classes (st_action_id s) = Some (cls (st_action_id s))"
  shows "fold (delta_step retained classes signal) steps delta =
    \<lparr>sd_unchanged = sd_unchanged delta @ map st_action_id
       (filter (\<lambda>s. st_action_id s \<in> retained \<and> decide (rds_response signal) (cls (st_action_id s)) = Allow) steps),
     sd_deprioritized = sd_deprioritized delta @ map (\<lambda>s. adjustment signal (st_action_id s) (cls (st_action_id s))
         (explanation_code (rds_response signal) Deprioritize))
       (filter (\<lambda>s. st_action_id s \<in> retained \<and> decide (rds_response signal) (cls (st_action_id s)) = Deprioritize) steps),
     sd_suppressed = sd_suppressed delta @ map (\<lambda>s. adjustment signal (st_action_id s) (cls (st_action_id s))
         (if decide (rds_response signal) (cls (st_action_id s)) = Suppress
          then explanation_code (rds_response signal) Suppress else ''defense.dependency.suppress''))
       (filter (\<lambda>s. st_action_id s \<notin> retained \<or> decide (rds_response signal) (cls (st_action_id s)) = Suppress) steps)\<rparr>"
  using assms
proof (induction steps arbitrary: delta)
  case (Cons s steps)
  have "map_of classes (st_action_id s) = Some (cls (st_action_id s))" using Cons.prems by simp
  then show ?case
    using Cons.IH [OF Cons.prems] by (cases "decide (rds_response signal) (cls (st_action_id s))") (simp_all add: delta_step_def Let_def)
qed simp

lemma fold_delta_idle:
  "fold (delta_step retained [] signal) steps delta =
     delta\<lparr>sd_unchanged := sd_unchanged delta @ map st_action_id steps\<rparr>"
  by (induction steps arbitrary: delta) (simp_all add: delta_step_def Let_def)

lemma retained_iff_survives:
  assumes "defense_filtered current D shadow" and "s \<in> set (ap_steps current)"
  shows "st_action_id s \<in> set (map st_action_id (ap_steps shadow)) \<longleftrightarrow> survives (ap_steps current) D (st_action_id s)"
proof -
  have "map st_action_id (ap_steps shadow) =
      map st_action_id (filter (\<lambda>s. survives (ap_steps current) D (st_action_id s)) (ap_steps current))"
    using assms(1) by (simp add: defense_filtered_def)
  with assms(2) show ?thesis by auto
qed

lemma suppressed_not_survives: "i \<in> set D \<Longrightarrow> \<not> survives steps D i"
  unfolding survives_def by blast

lemma nothing_suppressed_survives: "survives steps [] i"
  by (simp add: survives_def)

lemma filtered_current:
  assumes "planner_ok planner" and "plan_snapshot planner sn context = Ok current"
  shows "defense_filtered current D (into_defense_filtered current D)
    \<and> steps_safe {} (ap_steps (into_defense_filtered current D))
    \<and> ap_total_cost (into_defense_filtered current D) \<le> ap_total_cost current
    \<and> (\<forall>s \<in> set (ap_steps (into_defense_filtered current D)). st_action_id s \<notin> set D)"
proof -
  have "plan_with_action_suppressions_and_baseline planner sn context \<lparr>sup_policy = [], sup_defense = D\<rparr> =
      Ok (current, into_defense_filtered current D)"
    using assms(2)
    by (simp add: plan_with_action_suppressions_and_baseline_def plan_snapshot_def plan_snapshot_with_suppressed_eq)
  from filtered_plan_facts [OF assms(1) this] show ?thesis by simp
qed

lemma planned_registered:
  assumes "planner_ok planner" and "plan_snapshot planner sn context = Ok current" and "s \<in> set (ap_steps current)"
  shows "\<exists>a. map_of planner (st_action_id s) = Some a"
  using plan_facts [OF assms(1) assms(2) [unfolded plan_snapshot_def]] assms(3) by blast

text \<open>The delta of a shadow plan against the steps that survive.\<close>

definition delta_exact ::
  "attack_plan \<Rightarrow> string list \<Rightarrow> (string \<Rightarrow> interaction_decision) \<Rightarrow> defense_response \<Rightarrow> shadow_plan_delta \<Rightarrow> bool" where
  "delta_exact current D decision response delta \<longleftrightarrow>
     (let keeps = (\<lambda>s. survives (ap_steps current) D (st_action_id s))
      in sd_unchanged delta =
           map st_action_id (filter (\<lambda>s. keeps s \<and> decision (st_action_id s) = Allow) (ap_steps current))
       \<and> map pj_action_id (sd_deprioritized delta) =
           map st_action_id (filter (\<lambda>s. keeps s \<and> decision (st_action_id s) = Deprioritize) (ap_steps current))
       \<and> map pj_action_id (sd_suppressed delta) =
           map st_action_id (filter (\<lambda>s. \<not> keeps s) (ap_steps current))
       \<and> (\<forall>a \<in> set (sd_suppressed delta). pj_explanation_code a =
            (if decision (pj_action_id a) = Suppress then explanation_code response Suppress
             else ''defense.dependency.suppress'')))"

lemma delta_exact_applied:
  assumes "planner_ok planner" and "plan_snapshot planner sn context = Ok current"
    and "rds_resource signal = ap_subject current"
    and "classify_candidates planner (rds_response signal) classify (map st_action_id (ap_steps current)) [] [] = (classes, D)"
  shows "set D = {i \<in> st_action_id ` set (ap_steps current). verdict planner signal classify True i = Suppress}
    \<and> delta_exact current D (verdict planner signal classify True) (rds_response signal)
        (build_delta current (into_defense_filtered current D) classes signal)"
proof -
  let ?cls = "\<lambda>i. classify (the (map_of planner i))"
  let ?keeps = "\<lambda>s. survives (ap_steps current) D (st_action_id s)"
  note classified = classify_candidates_exact [OF assms(4)]
  note registered = planned_registered [OF assms(1,2)]
  have classes: "map_of classes (st_action_id s) = Some (?cls (st_action_id s))"
    and decision: "decide (rds_response signal) (?cls (st_action_id s)) = verdict planner signal classify True (st_action_id s)"
    if "s \<in> set (ap_steps current)" for s
    using classified registered [OF that] that by (auto simp: verdict_def)
  have D: "set D = {i \<in> st_action_id ` set (ap_steps current). verdict planner signal classify True i = Suppress}"
    using classified by (auto simp: verdict_def split: option.splits)
  have retained: "st_action_id s \<in> set (map st_action_id (ap_steps (into_defense_filtered current D))) \<longleftrightarrow> ?keeps s"
    if "s \<in> set (ap_steps current)" for s
    using retained_iff_survives [OF _ that] filtered_current [OF assms(1,2)] by blast
  have gone: "\<not> ?keeps s" if "s \<in> set (ap_steps current)" "verdict planner signal classify True (st_action_id s) = Suppress" for s
    using that by (intro suppressed_not_survives) (simp add: D)
  have delta: "build_delta current (into_defense_filtered current D) classes signal =
    \<lparr>sd_unchanged = map st_action_id
       (filter (\<lambda>s. ?keeps s \<and> verdict planner signal classify True (st_action_id s) = Allow) (ap_steps current)),
     sd_deprioritized = map (\<lambda>s. adjustment signal (st_action_id s) (?cls (st_action_id s))
         (explanation_code (rds_response signal) Deprioritize))
       (filter (\<lambda>s. ?keeps s \<and> verdict planner signal classify True (st_action_id s) = Deprioritize) (ap_steps current)),
     sd_suppressed = map (\<lambda>s. adjustment signal (st_action_id s) (?cls (st_action_id s))
         (if verdict planner signal classify True (st_action_id s) = Suppress
          then explanation_code (rds_response signal) Suppress else ''defense.dependency.suppress''))
       (filter (\<lambda>s. \<not> ?keeps s) (ap_steps current))\<rparr>"
    unfolding build_delta_def
    by (subst fold_delta_step [of "ap_steps current" classes ?cls])
      (use classes decision retained gone in \<open>auto simp: delta_default_def simp del: set_map intro!: filter_cong map_cong\<close>)
  show ?thesis
    unfolding delta delta_exact_def by (auto simp: D Let_def adjustment_def comp_def)
qed

lemma delta_exact_idle:
  assumes "\<not> scoped \<or> rds_response signal = Proceed"
  shows "delta_exact current [] (verdict planner signal classify scoped) response (build_delta current current [] signal)"
    and "verdict planner signal classify scoped i = Allow"
proof -
  show allow: "verdict planner signal classify scoped i = Allow" for i
    using assms by (auto simp: verdict_def decide_def split: option.split)
  show "delta_exact current [] (verdict planner signal classify scoped) response (build_delta current current [] signal)"
    by (simp add: delta_exact_def build_delta_def fold_delta_idle delta_default_def allow nothing_suppressed_survives)
qed

lemma no_filter [simp]: "into_defense_filtered plan [] = plan"
  by (simp add: into_defense_filtered_def)

lemma shadow_plan_anatomy:
  assumes "planner_ok planner" and "shadow_plan planner sn subject context signal classify = Ok sp"
    and "scoped = (ap_subject (dsp_current sp) = subject \<and> rds_resource signal = subject)"
  obtains D where "plan_snapshot planner sn context = Ok (dsp_current sp)"
    and "dsp_shadow sp = into_defense_filtered (dsp_current sp) D"
    and "set D = {i \<in> st_action_id ` set (ap_steps (dsp_current sp)). verdict planner signal classify scoped i = Suppress}"
    and "if ap_subject (dsp_current sp) = subject
      then delta_exact (dsp_current sp) D (verdict planner signal classify scoped) (rds_response signal) (dsp_delta sp)
      else dsp_delta sp = delta_default"
proof -
  from assms(2) obtain current where plan: "plan_snapshot planner sn context = Ok current"
    and sp: "sp = (if ap_subject current \<noteq> subject
      then \<lparr>dsp_current = current, dsp_shadow = current, dsp_delta = delta_default\<rparr>
      else shadow_plan_from_current current planner signal classify)"
    by (auto simp: shadow_plan_def res_simps split: if_splits)
  have current: "dsp_current sp = current"
    by (simp add: sp shadow_plan_from_current_def Let_def case_prod_unfold)
  show thesis
  proof (cases "scoped \<and> rds_response signal \<noteq> Proceed")
    case True
    then have here: "ap_subject current = subject" "rds_resource signal = ap_subject current" scoped
      using assms(3) by (simp_all add: current)
    obtain classes D where run: "classify_candidates planner (rds_response signal) classify
        (map st_action_id (ap_steps current)) [] [] = (classes, D)" by fastforce
    have "sp = \<lparr>dsp_current = current, dsp_shadow = into_defense_filtered current D,
        dsp_delta = build_delta current (into_defense_filtered current D) classes signal\<rparr>"
      using here True by (simp add: sp shadow_plan_from_current_def Let_def run)
    with delta_exact_applied [OF assms(1) plan here(2) run] plan here show thesis by (intro that [of D]) simp_all
  next
    case False
    then have idle: "\<not> scoped \<or> rds_response signal = Proceed" by blast
    have "sp = \<lparr>dsp_current = current, dsp_shadow = current,
        dsp_delta = (if ap_subject current \<noteq> subject then delta_default else build_delta current current [] signal)\<rparr>"
      using idle assms(3) [unfolded current] unfolding sp
      by (cases "ap_subject current = subject"; cases "rds_resource signal = subject")
        (simp_all add: shadow_plan_from_current_def Let_def)
    then have fields: "dsp_shadow sp = current"
      "dsp_delta sp = (if ap_subject current \<noteq> subject then delta_default else build_delta current current [] signal)"
      by simp_all
    show thesis
    proof (rule that [of "[]"])
      show "plan_snapshot planner sn context = Ok (dsp_current sp)" using plan by (simp only: current)
      show "dsp_shadow sp = into_defense_filtered (dsp_current sp) []" by (simp only: current fields no_filter)
      show "set [] = {i \<in> st_action_id ` set (ap_steps (dsp_current sp)). verdict planner signal classify scoped i = Suppress}"
        using delta_exact_idle(2) [OF idle] by simp
      show "if ap_subject (dsp_current sp) = subject
        then delta_exact (dsp_current sp) [] (verdict planner signal classify scoped) (rds_response signal) (dsp_delta sp)
        else dsp_delta sp = delta_default"
        using delta_exact_idle(1) [OF idle] by (simp only: current fields if_True if_False not_True_eq_False not_False_eq_True split: if_split) simp
    qed
  qed
qed


definition backoff_signal :: resource_defense_signal where
  "backoff_signal = \<lparr>rds_resource = ''s'', rds_response = Backoff, rds_evidence_ids = [''e'']\<rparr>"

definition sample_class :: "attack_action \<Rightarrow> defense_interaction_class" where
  "sample_class a = (if act_id a = ''b'' then ActiveVerification else PassiveRead)"

definition sample_shadow :: defense_aware_shadow_plan where
  "sample_shadow = shadow_plan_from_current sample_plan sample_planner backoff_signal sample_class"


end
