(* ===== verification/Decision_Runner.thy ===== *)
theory Decision_Runner
  imports Decision_Loop Budget
begin

text \<open>
  The decision runner (\<open>src/crates/termivar-scanner/src/decision_runner.rs\<close> and
  \<open>decision_runner/\<close>): the executor registry with its routes, the execution request and its receipts,
  provenance checks, the commit of an evidence batch, and the turn that executes a command and resumes
  the decision loop. An executor is a trait object of the host: its identity, class and supported
  strategies are data of the registry, and what it answers in a turn is part of the turn's
  environment, with nothing assumed of it. The environment also holds the writes of other threads
  between the runner's own accesses to the knowledge base. The scheduler's sleep is one of these
  points. The bridge to source-level plugins is not modelled.
\<close>

section \<open>Requests, failures and receipts\<close>

datatype execution_class = TransportBound | LocalKnowledge

datatype execution_failure_kind =
  NotApplicable | BlockedByPolicy | TransportFailureKind | RequestTimeoutKind | ExecutorFailureKind

record execution_limits =
  xl_max_response_body_bytes :: "u64 option"

definition execution_limits_new :: execution_limits where
  "execution_limits_new = \<lparr>xl_max_response_body_bytes = None\<rparr>"

definition with_max_response_body_bytes :: "execution_limits \<Rightarrow> u64 \<Rightarrow> execution_limits" where
  "with_max_response_body_bytes limits limit = limits\<lparr>xl_max_response_body_bytes := Some limit\<rparr>"

record execution_request =
  xq_case :: verification_case
  xq_stage :: execution_stage
  xq_origin :: "action_origin option"
  xq_delay_ms :: "u64 option"
  xq_limits :: execution_limits

record execution_failure_receipt =
  xf_request :: execution_request
  xf_executor_id :: string
  xf_diagnostic :: string
  xf_kind :: execution_failure_kind
  xf_runtime_limit :: "limit_exceeded option"

record executor_error =
  xe_message :: string
  xe_kind :: execution_failure_kind
  xe_receipt :: "execution_failure_receipt option"
  xe_runtime_limit :: "limit_exceeded option"

definition executor_error_with_kind :: "execution_failure_kind \<Rightarrow> string \<Rightarrow> executor_error" where
  "executor_error_with_kind kind message =
     \<lparr>xe_message = (if blank message then ''executor failed without a diagnostic'' else message),
      xe_kind = kind, xe_receipt = None, xe_runtime_limit = None\<rparr>"

definition executor_error_new :: "string \<Rightarrow> executor_error" where
  "executor_error_new message = executor_error_with_kind ExecutorFailureKind message"

definition with_execution_context :: "executor_error \<Rightarrow> execution_request \<Rightarrow> string \<Rightarrow> executor_error" where
  "with_execution_context e request executor_id =
     e\<lparr>xe_receipt := Some \<lparr>xf_request = request, xf_executor_id = executor_id, xf_diagnostic = xe_message e,
        xf_kind = xe_kind e, xf_runtime_limit = xe_runtime_limit e\<rparr>\<rparr>"

record evidence_receipt =
  er_case :: verification_case
  er_stage :: execution_stage
  er_executor_id :: string
  er_evidence :: "evidence list"
  er_writes :: "knowledge_write list"
  er_baseline :: "knowledge_snapshot option"
  er_after_execution :: knowledge_snapshot

datatype runner_error =
    RunnerEmptyValue string
  | ExecutorIdentityConflict string
  | ActionRouteConflict execution_stage string
  | UnknownExecutor string
  | MissingActionRoute execution_stage string
  | UnsupportedPayloadStrategy string payload_strategy_ref
  | NonExecutionCommand string
  | CommandCaseMismatch string string
  | UnexpectedSessionState execution_stage string
  | MissingActiveBaseline
  | HostPolicyContextRequired string
  | ActionSuppressedByHostPolicy string
  | ActionSuppressedByDefense string
  | EvidenceSubjectMismatch evidence_id entity_id entity_id
  | EvidenceSourceMismatch evidence_id string string
  | EvidenceCorrelationMismatch evidence_id string "string option"
  | ExecutorError string executor_error
  | OutcomeAfterEvidenceCommit evidence_receipt runner_error
  | RunnerKnowledge knowledge_base_error
  | RunnerDecision decision_loop_error

type_synonym 'a runner_res = "('a, runner_error) res"

fun runner_runtime_limit :: "runner_error \<Rightarrow> limit_exceeded option" where
  "runner_runtime_limit (ExecutorError _ source) = xe_runtime_limit source"
| "runner_runtime_limit _ = None"

fun execution_failure :: "runner_error \<Rightarrow> execution_failure_receipt option" where
  "execution_failure (ExecutorError _ source) = xe_receipt source"
| "execution_failure _ = None"

fun committed_evidence :: "runner_error \<Rightarrow> evidence_receipt option" where
  "committed_evidence (OutcomeAfterEvidenceCommit receipt _) = Some receipt"
| "committed_evidence _ = None"

fun runner_committed_reasoning :: "runner_error \<Rightarrow> reasoning_receipt option" where
  "runner_committed_reasoning (RunnerDecision source) = committed_reasoning source"
| "runner_committed_reasoning (OutcomeAfterEvidenceCommit _ source) = runner_committed_reasoning source"
| "runner_committed_reasoning _ = None"

section \<open>Executor registry\<close>

record action_executor =
  ax_id :: string
  ax_class :: execution_class
  ax_supports :: "payload_strategy_ref \<Rightarrow> bool"
  ax_overrides_snapshot_execution :: bool

record executor_registry =
  xr_executors :: "(string, action_executor) bmap"
  xr_routes :: "execution_stage \<times> string \<rightharpoonup> string"

definition executor_registry_new :: executor_registry where
  "executor_registry_new = \<lparr>xr_executors = [], xr_routes = Map.empty\<rparr>"

definition runner_non_empty :: "string \<Rightarrow> string \<Rightarrow> string runner_res" where
  "runner_non_empty v field = (if blank v then Err (RunnerEmptyValue field) else Ok v)"

definition register_executor :: "action_executor \<Rightarrow> executor_registry \<Rightarrow> unit runner_res \<times> executor_registry" where
  "register_executor ex rg =
     (case runner_non_empty (ax_id ex) ''executor id'' of
        Err e \<Rightarrow> (Err e, rg)
      | Panic \<Rightarrow> (Panic, rg)
      | Ok i \<Rightarrow>
          if map_of (xr_executors rg) i \<noteq> None then (Err (ExecutorIdentityConflict i), rg)
          else (Ok (), rg\<lparr>xr_executors := bmap_insert i ex (xr_executors rg)\<rparr>))"

definition route_action ::
  "execution_stage \<Rightarrow> string \<Rightarrow> string \<Rightarrow> executor_registry \<Rightarrow> unit runner_res \<times> executor_registry" where
  "route_action stage action_id executor_id rg =
     (case and_then (runner_non_empty action_id ''action id'') (\<lambda>a.
           and_then (runner_non_empty executor_id ''executor id'') (\<lambda>x. Ok (a, x))) of
        Err e \<Rightarrow> (Err e, rg)
      | Panic \<Rightarrow> (Panic, rg)
      | Ok (a, x) \<Rightarrow>
          if map_of (xr_executors rg) x = None then (Err (UnknownExecutor x), rg)
          else
            (case xr_routes rg (stage, a) of
               Some existing \<Rightarrow>
                 if existing = x then (Ok (), rg) else (Err (ActionRouteConflict stage a), rg)
             | None \<Rightarrow> (Ok (), rg\<lparr>xr_routes := (xr_routes rg)((stage, a) \<mapsto> x)\<rparr>)))"

definition resolve_executor ::
  "executor_registry \<Rightarrow> execution_stage \<Rightarrow> string \<Rightarrow> string option \<Rightarrow> (string \<times> action_executor) runner_res" where
  "resolve_executor rg stage action_id requested =
     and_then
       (case requested of
          Some r \<Rightarrow> runner_non_empty r ''executor id''
        | None \<Rightarrow>
            (case xr_routes rg (stage, action_id) of
               None \<Rightarrow> Err (MissingActionRoute stage action_id)
             | Some x \<Rightarrow> Ok x))
       (\<lambda>executor_id.
         case map_of (xr_executors rg) executor_id of
           None \<Rightarrow> Err (UnknownExecutor executor_id)
         | Some ex \<Rightarrow> Ok (executor_id, ex))"

section \<open>Execution\<close>

record runner_env =
  rn_execute :: "string \<Rightarrow> execution_request \<Rightarrow> (evidence list, executor_error) res"
  rn_execute_with_snapshot ::
    "string \<Rightarrow> execution_request \<Rightarrow> knowledge_snapshot \<Rightarrow> (evidence list, executor_error) res"
  rn_before_baseline :: "knowledge_state \<Rightarrow> knowledge_state"
  rn_before_local_snapshot :: "knowledge_state \<Rightarrow> knowledge_state"
  rn_before_commit :: "knowledge_state \<Rightarrow> knowledge_state"
  rn_after_commit :: "knowledge_state \<Rightarrow> knowledge_state"
  rn_iter :: "pending \<Rightarrow> pending"
  rn_planning :: planning_env
  rn_submission :: submit_env

text \<open>The fail-closed default of the trait answers for an executor that does not override snapshot execution.\<close>

definition execute_with_snapshot ::
  "runner_env \<Rightarrow> string \<Rightarrow> action_executor \<Rightarrow> execution_request \<Rightarrow> knowledge_snapshot \<Rightarrow>
   (evidence list, executor_error) res" where
  "execute_with_snapshot env executor_id ex request sn =
     (if ax_overrides_snapshot_execution ex then rn_execute_with_snapshot env executor_id request sn
      else Err (executor_error_new ''local-knowledge executor did not implement snapshot execution''))"

fun execution_parts ::
  "decision_loop_command \<Rightarrow>
   (verification_case \<times> execution_stage \<times> action_origin option \<times> u64 option \<times> string option) runner_res" where
  "execution_parts (CmdExecuteAction c executor origin delay_ms) = Ok (c, Passive, Some origin, delay_ms, executor)"
| "execution_parts (CmdCollectActiveEvidence c) = Ok (c, Active, None, None, None)"
| "execution_parts CmdReplan = Err (NonExecutionCommand ''replan'')"
| "execution_parts (CmdComplete _) = Err (NonExecutionCommand ''complete'')"
| "execution_parts (CmdAwaitHumanReview _) = Err (NonExecutionCommand ''await_human_review'')"
| "execution_parts (CmdHalt _) = Err (NonExecutionCommand ''halt'')"

definition execution_class_for_command :: "executor_registry \<Rightarrow> decision_loop_command \<Rightarrow> execution_class runner_res" where
  "execution_class_for_command rg command =
     and_then (execution_parts command) (\<lambda>(c, stage, _, _, requested).
     and_then (resolve_executor rg stage (vc_action_id c) requested) (\<lambda>(_, ex). Ok (ax_class ex)))"

fun validate_evidence :: "evidence list \<Rightarrow> verification_case \<Rightarrow> string \<Rightarrow> unit runner_res" where
  "validate_evidence [] c executor_id = Ok ()"
| "validate_evidence (e # rest) c executor_id =
     (if e_subject e \<noteq> vc_subject c
      then Err (EvidenceSubjectMismatch (e_id e) (vc_subject c) (e_subject e))
      else if es_component (e_source e) \<noteq> executor_id
      then Err (EvidenceSourceMismatch (e_id e) executor_id (es_component (e_source e)))
      else if es_correlation_id (e_source e) \<noteq> Some (vc_id c)
      then Err (EvidenceCorrelationMismatch (e_id e) (vc_id c) (es_correlation_id (e_source e)))
      else validate_evidence rest c executor_id)"

definition resolve_supported ::
  "executor_registry \<Rightarrow> execution_stage \<Rightarrow> verification_case \<Rightarrow> string option \<Rightarrow> (string \<times> action_executor) runner_res" where
  "resolve_supported rg stage c requested =
     and_then (resolve_executor rg stage (vc_action_id c) requested) (\<lambda>(executor_id, ex).
       case vc_payload c of
         None \<Rightarrow> Ok (executor_id, ex)
       | Some strategy \<Rightarrow>
           if \<not> ax_supports ex strategy then Err (UnsupportedPayloadStrategy executor_id strategy)
           else Ok (executor_id, ex))"

text \<open>The answer of the executor, and the store as it is when the answer is there.\<close>

definition invoke_executor ::
  "runner_env \<Rightarrow> knowledge_authority \<Rightarrow> string \<Rightarrow> action_executor \<Rightarrow> execution_request \<Rightarrow> knowledge_state \<Rightarrow>
   (evidence list, executor_error) res \<times> knowledge_state" where
  "invoke_executor env auth executor_id ex request st =
     (case ax_class ex of
        TransportBound \<Rightarrow> (rn_execute env executor_id request, st)
      | LocalKnowledge \<Rightarrow>
          (let st' = rn_before_local_snapshot env st
           in (execute_with_snapshot env executor_id ex request
                 (snapshot_for_subject \<lparr>kb_authority = auth, kb_state = st'\<rparr> (vc_subject (xq_case request))), st')))"

definition commit_evidence ::
  "runner_env \<Rightarrow> knowledge_authority \<Rightarrow> verification_case \<Rightarrow> execution_stage \<Rightarrow> string \<Rightarrow> knowledge_snapshot option \<Rightarrow>
   evidence list \<Rightarrow> knowledge_state \<Rightarrow> evidence_receipt runner_res \<times> knowledge_state" where
  "commit_evidence env auth c stage executor_id baseline es st =
     (case insert_evidence_batch (rn_iter env) es (rn_before_commit env st) of
        (Err e, st') \<Rightarrow> (Err (RunnerKnowledge e), st')
      | (Panic, st') \<Rightarrow> (Panic, st')
      | (Ok writes, st') \<Rightarrow>
          (let st'' = rn_after_commit env st'
           in (Ok \<lparr>er_case = c, er_stage = stage, er_executor_id = executor_id, er_evidence = es, er_writes = writes,
                   er_baseline = baseline,
                   er_after_execution = snapshot_for_subject \<lparr>kb_authority = auth, kb_state = st''\<rparr> (vc_subject c)\<rparr>,
               st'')))"

definition execute_command_with_limits ::
  "runner_env \<Rightarrow> executor_registry \<Rightarrow> knowledge_authority \<Rightarrow> decision_loop_command \<Rightarrow> execution_limits \<Rightarrow>
   knowledge_state \<Rightarrow> evidence_receipt runner_res \<times> knowledge_state" where
  "execute_command_with_limits env rg auth command limits st =
     (case execution_parts command of
        Err e \<Rightarrow> (Err e, st)
      | Panic \<Rightarrow> (Panic, st)
      | Ok (c, stage, origin, delay_ms, requested) \<Rightarrow>
          (case resolve_supported rg stage c requested of
             Err e \<Rightarrow> (Err e, st)
           | Panic \<Rightarrow> (Panic, st)
           | Ok (executor_id, ex) \<Rightarrow>
               (let st1 = rn_before_baseline env st;
                    baseline =
                      (if stage = Active
                       then Some (snapshot_for_subject \<lparr>kb_authority = auth, kb_state = st1\<rparr> (vc_subject c))
                       else None);
                    request = \<lparr>xq_case = c, xq_stage = stage, xq_origin = origin, xq_delay_ms = delay_ms,
                               xq_limits = limits\<rparr>
                in case invoke_executor env auth executor_id ex request st1 of
                     (Err source, st2) \<Rightarrow>
                       (Err (ExecutorError executor_id (with_execution_context source request executor_id)), st2)
                   | (Panic, st2) \<Rightarrow> (Panic, st2)
                   | (Ok es, st2) \<Rightarrow>
                       (case validate_evidence es c executor_id of
                          Err e \<Rightarrow> (Err e, st2)
                        | Panic \<Rightarrow> (Panic, st2)
                        | Ok _ \<Rightarrow> commit_evidence env auth c stage executor_id baseline es st2))))"

definition execute_command ::
  "runner_env \<Rightarrow> executor_registry \<Rightarrow> knowledge_authority \<Rightarrow> decision_loop_command \<Rightarrow> knowledge_state \<Rightarrow>
   evidence_receipt runner_res \<times> knowledge_state" where
  "execute_command env rg auth command st = execute_command_with_limits env rg auth command execution_limits_new st"

section \<open>Session checks\<close>

fun session_state_name :: "decision_loop_state \<Rightarrow> string" where
  "session_state_name Ready = ''ready''"
| "session_state_name (AwaitingPassive _) = ''awaiting_passive''"
| "session_state_name (AwaitingActive _) = ''awaiting_active''"
| "session_state_name Decision_Loop.Completed = ''completed''"
| "session_state_name (Halted _) = ''halted''"

definition validate_session_case :: "decision_session \<Rightarrow> execution_stage \<Rightarrow> verification_case \<Rightarrow> unit runner_res" where
  "validate_session_case s stage command_case =
     and_then
       (case (stage, ds_state s) of
          (Passive, AwaitingPassive c) \<Rightarrow> Ok c
        | (Active, AwaitingActive c) \<Rightarrow> Ok c
        | (_, state) \<Rightarrow> Err (UnexpectedSessionState stage (session_state_name state)))
       (\<lambda>outstanding.
         if outstanding \<noteq> command_case then Err (CommandCaseMismatch (vc_id outstanding) (vc_id command_case))
         else Ok ())"

definition validate_command_suppression :: "decision_loop_command \<Rightarrow> suppression_context \<Rightarrow> unit runner_res" where
  "validate_command_suppression command suppr =
     (case execution_command_action_id command of
        None \<Rightarrow> Ok ()
      | Some action_id \<Rightarrow>
          if action_id \<in> set (sup_defense suppr) then Err (ActionSuppressedByDefense action_id)
          else if action_id \<in> set (sup_policy suppr) then Err (ActionSuppressedByHostPolicy action_id)
          else Ok ())"

definition session_case_of_command :: "decision_session \<Rightarrow> decision_loop_command \<Rightarrow> unit runner_res" where
  "session_case_of_command s command =
     and_then (execution_parts command) (\<lambda>(c, stage, _). validate_session_case s stage c)"

definition replan_defense_suppressed_command ::
  "decision_loop_command \<Rightarrow> suppression_context \<Rightarrow> decision_session \<Rightarrow> bool runner_res \<times> decision_session" where
  "replan_defense_suppressed_command command suppr s =
     (case execution_command_action_id command of
        None \<Rightarrow> (Ok False, s)
      | Some action_id \<Rightarrow>
          if action_id \<notin> set (sup_defense suppr) then (Ok False, s)
          else
            (case execution_parts command of
               Ok (c, stage, _) \<Rightarrow>
                 (case validate_session_case s stage c of
                    Err e \<Rightarrow> (Err e, s)
                  | Panic \<Rightarrow> (Panic, s)
                  | Ok _ \<Rightarrow>
                      (case replan_after_defense_suppression s of
                         (Err e, s') \<Rightarrow> (Err (RunnerDecision e), s')
                       | (Panic, s') \<Rightarrow> (Panic, s')
                       | (Ok _, s') \<Rightarrow> (Ok True, s')))
             | _ \<Rightarrow> (Ok False, s)))"

definition execute_session_command_with_limits ::
  "runner_env \<Rightarrow> executor_registry \<Rightarrow> knowledge_authority \<Rightarrow> decision_loop_command \<Rightarrow> decision_session \<Rightarrow>
   execution_limits \<Rightarrow> knowledge_state \<Rightarrow> evidence_receipt runner_res \<times> knowledge_state" where
  "execute_session_command_with_limits env rg auth command s limits st =
     (case session_case_of_command s command of
        Err e \<Rightarrow> (Err e, st)
      | Panic \<Rightarrow> (Panic, st)
      | Ok _ \<Rightarrow> execute_command_with_limits env rg auth command limits st)"

section \<open>Turns\<close>

datatype runner_turn =
    PlanningTurn planning_report
  | OutcomeTurn evidence_receipt outcome_report
  | TerminalTurn decision_loop_command

text \<open>Passive and active submissions of \<open>submit_passive\<close> and \<open>submit_active\<close> with and without host policy are one definition of the loop's model.\<close>

definition submit_command ::
  "runner_env \<Rightarrow> decision_loop \<Rightarrow> knowledge_authority \<Rightarrow> decision_loop_command \<Rightarrow> evidence_receipt \<Rightarrow>
   suppression_context option \<Rightarrow> experience_store \<Rightarrow> decision_session \<Rightarrow> knowledge_state \<Rightarrow>
   outcome_report runner_res \<times> experience_store \<times> decision_session \<times> knowledge_state" where
  "submit_command env dl auth command receipt host x s st =
     (case command of
        CmdExecuteAction c _ _ _ \<Rightarrow>
          (case validate_session_case s Passive c of
             Err e \<Rightarrow> (Err e, x, s, st)
           | Panic \<Rightarrow> (Panic, x, s, st)
           | Ok _ \<Rightarrow>
               (case submit_passive_with_optional_suppressions (rn_submission env) dl auth host x s st of
                  (r, rest) \<Rightarrow> (map_err RunnerDecision r, rest)))
      | CmdCollectActiveEvidence c \<Rightarrow>
          (case validate_session_case s Active c of
             Err e \<Rightarrow> (Err e, x, s, st)
           | Panic \<Rightarrow> (Panic, x, s, st)
           | Ok _ \<Rightarrow>
               (case er_baseline receipt of
                  None \<Rightarrow> (Err MissingActiveBaseline, x, s, st)
                | Some baseline \<Rightarrow>
                    (case submit_active_with_optional_suppressions (rn_submission env) dl auth host baseline
                        (er_after_execution receipt) x s st of
                       (r, rest) \<Rightarrow> (map_err RunnerDecision r, rest))))
      | _ \<Rightarrow>
          (case execution_parts command of
             Err e \<Rightarrow> (Err e, x, s, st)
           | _ \<Rightarrow> (Panic, x, s, st)))"

definition resume_session_command ::
  "runner_env \<Rightarrow> decision_loop \<Rightarrow> knowledge_authority \<Rightarrow> decision_loop_command \<Rightarrow> evidence_receipt \<Rightarrow>
   suppression_context option \<Rightarrow> experience_store \<Rightarrow> decision_session \<Rightarrow> knowledge_state \<Rightarrow>
   runner_turn runner_res \<times> experience_store \<times> decision_session \<times> knowledge_state" where
  "resume_session_command env dl auth command receipt host x s st =
     (case submit_command env dl auth command receipt host x s st of
        (Ok decision, rest) \<Rightarrow> (Ok (OutcomeTurn receipt decision), rest)
      | (Err source, rest) \<Rightarrow> (Err (OutcomeAfterEvidenceCommit receipt source), rest)
      | (Panic, rest) \<Rightarrow> (Panic, rest))"

definition planning_command ::
  "runner_env \<Rightarrow> decision_loop \<Rightarrow> knowledge_authority \<Rightarrow> suppression_context option \<Rightarrow> experience_store \<Rightarrow>
   decision_session \<Rightarrow> knowledge_state \<Rightarrow>
   runner_turn runner_res \<times> experience_store \<times> decision_session \<times> knowledge_state" where
  "planning_command env dl auth host x s st =
     (case (case host of
              Some suppr \<Rightarrow> plan_next_with_action_suppressions (rn_planning env) dl auth x suppr s st
            | None \<Rightarrow> plan_next (rn_planning env) dl auth x s st) of
        (Ok report, s', st') \<Rightarrow> (Ok (PlanningTurn report), x, s', st')
      | (Err e, s', st') \<Rightarrow> (Err (RunnerDecision e), x, s', st')
      | (Panic, s', st') \<Rightarrow> (Panic, x, s', st'))"

definition drive_validated ::
  "runner_env \<Rightarrow> executor_registry \<Rightarrow> decision_loop \<Rightarrow> knowledge_authority \<Rightarrow> decision_loop_command \<Rightarrow>
   execution_limits \<Rightarrow> suppression_context option \<Rightarrow> experience_store \<Rightarrow> decision_session \<Rightarrow> knowledge_state \<Rightarrow>
   runner_turn runner_res \<times> experience_store \<times> decision_session \<times> knowledge_state" where
  "drive_validated env rg dl auth command limits host x s st =
     (case validate_execution_command_authority (dl_planner dl) \<lparr>kb_authority = auth, kb_state = st\<rparr> command of
        Err e \<Rightarrow> (Err (RunnerDecision e), x, s, st)
      | Panic \<Rightarrow> (Panic, x, s, st)
      | Ok _ \<Rightarrow>
          (case command of
             CmdReplan \<Rightarrow> planning_command env dl auth host x s st
           | CmdComplete _ \<Rightarrow> (Ok (TerminalTurn command), x, s, st)
           | CmdAwaitHumanReview _ \<Rightarrow> (Ok (TerminalTurn command), x, s, st)
           | CmdHalt _ \<Rightarrow> (Ok (TerminalTurn command), x, s, st)
           | _ \<Rightarrow>
               (case execute_session_command_with_limits env rg auth command s limits st of
                  (Err e, st') \<Rightarrow> (Err e, x, s, st')
                | (Panic, st') \<Rightarrow> (Panic, x, s, st')
                | (Ok receipt, st') \<Rightarrow> resume_session_command env dl auth command receipt host x s st')))"

definition drive_suppressed ::
  "runner_env \<Rightarrow> decision_loop \<Rightarrow> knowledge_authority \<Rightarrow> decision_loop_command \<Rightarrow> suppression_context \<Rightarrow>
   runner_error \<Rightarrow> experience_store \<Rightarrow> decision_session \<Rightarrow> knowledge_state \<Rightarrow>
   runner_turn runner_res \<times> experience_store \<times> decision_session \<times> knowledge_state" where
  "drive_suppressed env dl auth command suppr source x s st =
     (case validate_execution_command_authority (dl_planner dl) \<lparr>kb_authority = auth, kb_state = st\<rparr> command of
        Err e \<Rightarrow> (Err (RunnerDecision e), x, s, st)
      | Panic \<Rightarrow> (Panic, x, s, st)
      | Ok _ \<Rightarrow>
          (case replan_defense_suppressed_command command suppr s of
             (Err e, s') \<Rightarrow> (Err e, x, s', st)
           | (Panic, s') \<Rightarrow> (Panic, x, s', st)
           | (Ok replanned, s') \<Rightarrow>
               if \<not> replanned then (Err source, x, s', st)
               else planning_command env dl auth (Some suppr) x s' st))"

definition drive_command_with_optional_suppressions ::
  "runner_env \<Rightarrow> executor_registry \<Rightarrow> decision_loop \<Rightarrow> knowledge_authority \<Rightarrow> decision_loop_command \<Rightarrow>
   execution_limits \<Rightarrow> suppression_context option \<Rightarrow> experience_store \<Rightarrow> decision_session \<Rightarrow> knowledge_state \<Rightarrow>
   runner_turn runner_res \<times> experience_store \<times> decision_session \<times> knowledge_state" where
  "drive_command_with_optional_suppressions env rg dl auth command limits host x s st =
     (case host of
        None \<Rightarrow>
          (case command_requiring_host_policy_context command of
             Some name \<Rightarrow> (Err (HostPolicyContextRequired name), x, s, st)
           | None \<Rightarrow> drive_validated env rg dl auth command limits None x s st)
      | Some suppr \<Rightarrow>
          (case validate_command_suppression command suppr of
             Err (ActionSuppressedByDefense action_id) \<Rightarrow>
               drive_suppressed env dl auth command suppr (ActionSuppressedByDefense action_id) x s st
           | Err source \<Rightarrow> (Err source, x, s, st)
           | Panic \<Rightarrow> (Panic, x, s, st)
           | Ok _ \<Rightarrow> drive_validated env rg dl auth command limits host x s st))"

definition drive_command ::
  "runner_env \<Rightarrow> executor_registry \<Rightarrow> decision_loop \<Rightarrow> knowledge_authority \<Rightarrow> decision_loop_command \<Rightarrow>
   experience_store \<Rightarrow> decision_session \<Rightarrow> knowledge_state \<Rightarrow>
   runner_turn runner_res \<times> experience_store \<times> decision_session \<times> knowledge_state" where
  "drive_command env rg dl auth command x s st =
     drive_command_with_optional_suppressions env rg dl auth command execution_limits_new None x s st"

definition drive_command_with_suppressed_actions ::
  "runner_env \<Rightarrow> executor_registry \<Rightarrow> decision_loop \<Rightarrow> knowledge_authority \<Rightarrow> decision_loop_command \<Rightarrow>
   string list \<Rightarrow> experience_store \<Rightarrow> decision_session \<Rightarrow> knowledge_state \<Rightarrow>
   runner_turn runner_res \<times> experience_store \<times> decision_session \<times> knowledge_state" where
  "drive_command_with_suppressed_actions env rg dl auth command host x s st =
     drive_command_with_optional_suppressions env rg dl auth command execution_limits_new (Some (policy_only host)) x s st"

definition drive_command_with_limits ::
  "runner_env \<Rightarrow> executor_registry \<Rightarrow> decision_loop \<Rightarrow> knowledge_authority \<Rightarrow> decision_loop_command \<Rightarrow>
   execution_limits \<Rightarrow> experience_store \<Rightarrow> decision_session \<Rightarrow> knowledge_state \<Rightarrow>
   runner_turn runner_res \<times> experience_store \<times> decision_session \<times> knowledge_state" where
  "drive_command_with_limits env rg dl auth command limits x s st =
     drive_command_with_optional_suppressions env rg dl auth command limits None x s st"

definition drive_command_with_limits_and_suppressed_actions ::
  "runner_env \<Rightarrow> executor_registry \<Rightarrow> decision_loop \<Rightarrow> knowledge_authority \<Rightarrow> decision_loop_command \<Rightarrow>
   execution_limits \<Rightarrow> string list \<Rightarrow> experience_store \<Rightarrow> decision_session \<Rightarrow> knowledge_state \<Rightarrow>
   runner_turn runner_res \<times> experience_store \<times> decision_session \<times> knowledge_state" where
  "drive_command_with_limits_and_suppressed_actions env rg dl auth command limits host x s st =
     drive_command_with_optional_suppressions env rg dl auth command limits (Some (policy_only host)) x s st"

end
