(* ===== verification/Decision_Runner_Properties.thy ===== *)
theory Decision_Runner_Properties
  imports Decision_Runner Decision_Loop_Properties
begin

text \<open>
  What the runner guarantees on top of the decision loop: an executor is only asked when the command is
  authorised, not suppressed and the one the session waits for; only evidence with the right provenance
  is committed, as one batch; a failing turn says what was committed before it failed; and the runner
  and the loop stay in step until the session ends.
\<close>

section \<open>Provenance and commits\<close>

definition provenance_ok :: "verification_case \<Rightarrow> string \<Rightarrow> evidence \<Rightarrow> bool" where
  "provenance_ok c executor_id e \<longleftrightarrow>
     e_subject e = vc_subject c \<and> es_component (e_source e) = executor_id
   \<and> es_correlation_id (e_source e) = Some (vc_id c)"

lemma validate_evidence_Ok_iff:
  "validate_evidence es c executor_id = Ok () \<longleftrightarrow> (\<forall>e \<in> set es. provenance_ok c executor_id e)"
  by (induction es) (auto simp: provenance_ok_def)

lemma validate_evidence_not_Panic: "validate_evidence es c executor_id \<noteq> Panic"
  by (induction es) auto

lemma resolve_not_Panic: "resolve_executor rg stage a requested \<noteq> Panic"
  by (auto simp: resolve_executor_def res_simps runner_non_empty_def split: option.splits)

lemma resolve_supported_Ok:
  assumes "resolve_supported rg stage c requested = Ok (executor_id, ex)"
  shows "resolve_executor rg stage (vc_action_id c) requested = Ok (executor_id, ex)
    \<and> map_of (xr_executors rg) executor_id = Some ex
    \<and> (\<forall>strategy. vc_payload c = Some strategy \<longrightarrow> ax_supports ex strategy)"
  using assms
  by (auto simp: resolve_supported_def resolve_executor_def res_simps split: option.splits if_splits)

definition request_of :: "decision_loop_command \<Rightarrow> execution_limits \<Rightarrow> execution_request \<Rightarrow> bool" where
  "request_of command limits request \<longleftrightarrow>
     (\<exists>c stage origin delay_ms requested. execution_parts command = Ok (c, stage, origin, delay_ms, requested)
        \<and> request = \<lparr>xq_case = c, xq_stage = stage, xq_origin = origin, xq_delay_ms = delay_ms, xq_limits = limits\<rparr>)"

text \<open>The stages of one execution, from the command to the committed batch.\<close>

lemma execute_Ok:
  assumes "execute_command_with_limits env rg auth command limits st = (Ok receipt, st')"
  obtains c stage origin delay_ms requested executor_id ex request es st1 st2 st3 where
    "execution_parts command = Ok (c, stage, origin, delay_ms, requested)"
    and "resolve_supported rg stage c requested = Ok (executor_id, ex)"
    and "request = \<lparr>xq_case = c, xq_stage = stage, xq_origin = origin, xq_delay_ms = delay_ms, xq_limits = limits\<rparr>"
    and "st1 = rn_before_baseline env st"
    and "invoke_executor env auth executor_id ex request st1 = (Ok es, st2)"
    and "\<forall>e \<in> set es. provenance_ok c executor_id e"
    and "insert_evidence_batch (rn_iter env) es (rn_before_commit env st2) = (Ok (er_writes receipt), st3)"
    and "st' = rn_after_commit env st3"
    and "receipt = \<lparr>er_case = c, er_stage = stage, er_executor_id = executor_id, er_evidence = es,
      er_writes = er_writes receipt,
      er_baseline = (if stage = Active
        then Some (snapshot_for_subject \<lparr>kb_authority = auth, kb_state = st1\<rparr> (vc_subject c)) else None),
      er_after_execution = snapshot_for_subject \<lparr>kb_authority = auth, kb_state = st'\<rparr> (vc_subject c)\<rparr>"
proof -
  from assms obtain c stage origin delay_ms requested executor_id ex where
    parts: "execution_parts command = Ok (c, stage, origin, delay_ms, requested)"
    and resolved: "resolve_supported rg stage c requested = Ok (executor_id, ex)"
    by (auto simp: execute_command_with_limits_def split: res.splits prod.splits)
  let ?request = "\<lparr>xq_case = c, xq_stage = stage, xq_origin = origin, xq_delay_ms = delay_ms, xq_limits = limits\<rparr>"
  let ?st1 = "rn_before_baseline env st"
  from assms parts resolved obtain es st2 where
    invoked: "invoke_executor env auth executor_id ex ?request ?st1 = (Ok es, st2)"
    and valid: "validate_evidence es c executor_id = Ok ()"
    and commit: "commit_evidence env auth c stage executor_id (if stage = Active
        then Some (snapshot_for_subject \<lparr>kb_authority = auth, kb_state = ?st1\<rparr> (vc_subject c)) else None) es st2
      = (Ok receipt, st')"
    by (auto simp: execute_command_with_limits_def Let_def split: res.splits prod.splits)
  from commit obtain writes st3 where
    batch: "insert_evidence_batch (rn_iter env) es (rn_before_commit env st2) = (Ok writes, st3)"
    and st': "st' = rn_after_commit env st3"
    and receipt: "receipt = \<lparr>er_case = c, er_stage = stage, er_executor_id = executor_id, er_evidence = es,
      er_writes = writes, er_baseline = (if stage = Active
        then Some (snapshot_for_subject \<lparr>kb_authority = auth, kb_state = ?st1\<rparr> (vc_subject c)) else None),
      er_after_execution = snapshot_for_subject \<lparr>kb_authority = auth, kb_state = st'\<rparr> (vc_subject c)\<rparr>"
    by (auto simp: commit_evidence_def Let_def split: res.splits prod.splits)
  show thesis
    by (rule that [OF parts resolved refl refl invoked _ _ st'])
      (use valid batch receipt in \<open>simp_all add: validate_evidence_Ok_iff\<close>)
qed

section \<open>Staying in step\<close>

text \<open>The command the session waits for.\<close>

definition in_step :: "decision_session \<Rightarrow> decision_loop_command \<Rightarrow> bool" where
  "in_step s command \<longleftrightarrow>
     (case command of
        CmdExecuteAction c _ _ _ \<Rightarrow> ds_state s = AwaitingPassive c
      | CmdCollectActiveEvidence c \<Rightarrow> ds_state s = AwaitingActive c
      | CmdReplan \<Rightarrow> ds_state s = Ready
      | CmdComplete _ \<Rightarrow> ds_state s = Completed
      | CmdAwaitHumanReview _ \<Rightarrow> ds_state s = Halted HumanReview
      | CmdHalt reason \<Rightarrow> ds_state s = Halted reason)"

fun turn_command :: "runner_turn \<Rightarrow> decision_loop_command" where
  "turn_command (PlanningTurn report) = pn_command report"
| "turn_command (OutcomeTurn _ report) = or_command report"
| "turn_command (TerminalTurn command) = command"

fun terminal_command :: "decision_loop_command \<Rightarrow> bool" where
  "terminal_command (CmdComplete _) = True"
| "terminal_command (CmdAwaitHumanReview _) = True"
| "terminal_command (CmdHalt _) = True"
| "terminal_command _ = False"

lemma issue_action_in_step: "issue_action s limit c executor origin delay = (command, s') \<Longrightarrow> in_step s' command"
  by (auto simp: issue_action_def in_step_def split: if_splits)

lemma transition_in_step:
  assumes "transition_from_adaptive s limit planner context sn current oc directive suppr = Ok (command, s')"
  shows "in_step s' command"
  using assms
  by (cases directive)
    (auto simp: transition_from_adaptive_def res_simps in_step_def dest: issue_action_in_step split: if_splits)

lemma first_step_in_step: "first_step_command dl plan s = Ok (command, s') \<Longrightarrow> in_step s' command"
  by (auto simp: first_step_command_def res_simps in_step_def dest: issue_action_in_step split: if_splits list.splits)

lemma planning_in_step:
  assumes "plan_next_with_action_suppressions env dl auth x host s st = (Ok report, s', st')"
  shows "in_step s' (pn_command report)"
  using planning_Ok [OF assms] first_step_in_step by (auto simp: in_step_def split: if_splits)

lemma submission_in_step:
  assumes "submit_passive_with_optional_suppressions env dl auth host x s st = (Ok report, x', s', st')
    \<or> submit_active_with_optional_suppressions env dl auth host baseline after_probe x s st = (Ok report, x', s', st')"
    and "loop_ok dl"
  shows "in_step s' (or_command report)"
proof -
  obtain c rg sn b st1 where
    "finalize_outcome env dl auth host sn (or_verification report) x s st1 = (Ok report, x', s', st')"
    by (rule submission_Ok [OF assms]) (rule that)
  from finalize_Ok [OF this] obtain cn where "conclude_candidate env dl host sn (or_verification report) x s = Ok cn"
    "or_command report = cn_command cn" "s' = cn_session cn" by blast
  then show ?thesis using candidate_Ok transition_in_step by metis
qed

lemma in_step_terminal: "in_step s command \<Longrightarrow> terminal_command command \<longleftrightarrow>
    ds_state s = Decision_Loop.Completed \<or> (\<exists>reason. ds_state s = Halted reason)"
  by (cases command) (auto simp: in_step_def)

lemma in_step_session_case:
  assumes "in_step s command" and "\<not> terminal_command command" and "command \<noteq> CmdReplan"
  shows "session_case_of_command s command = Ok ()"
  using assms by (cases command) (auto simp: in_step_def session_case_of_command_def validate_session_case_def)

section \<open>Turns as steps of the loop\<close>

lemma planning_command_eq:
  "planning_command env dl auth host x s st =
     (case plan_next_with_action_suppressions (rn_planning env) dl auth x
          (case host of Some suppr \<Rightarrow> suppr | None \<Rightarrow> policy_only []) s st of
        (Ok report, s', st') \<Rightarrow> (Ok (PlanningTurn report), x, s', st')
      | (Err e, s', st') \<Rightarrow> (Err (RunnerDecision e), x, s', st')
      | (Panic, s', st') \<Rightarrow> (Panic, x, s', st'))"
  by (cases host) (simp_all add: planning_command_def plan_next_def plan_next_with_suppressed_actions_def)

text \<open>What a turn that returns a report has done.\<close>

lemma submit_command_Ok:
  assumes "submit_command env dl auth command receipt host x s st = (Ok report, x', s', st')"
  shows "submit_passive_with_optional_suppressions (rn_submission env) dl auth host x s st = (Ok report, x', s', st')
    \<or> (\<exists>baseline. er_baseline receipt = Some baseline \<and>
        submit_active_with_optional_suppressions (rn_submission env) dl auth host baseline (er_after_execution receipt) x s st
          = (Ok report, x', s', st'))"
  using assms
  by (cases command) (auto simp: submit_command_def res_simps split: res.splits option.splits prod.splits)

lemma planning_command_Ok:
  "planning_command env dl auth host x s st = (Ok turn, x', s', st') \<longleftrightarrow>
     (\<exists>report. turn = PlanningTurn report \<and> x' = x
        \<and> plan_next_with_action_suppressions (rn_planning env) dl auth x
            (case host of Some suppr \<Rightarrow> suppr | None \<Rightarrow> policy_only []) s st = (Ok report, s', st'))"
  by (auto simp: planning_command_eq split: res.splits prod.splits)

definition turn_done ::
  "runner_env \<Rightarrow> executor_registry \<Rightarrow> decision_loop \<Rightarrow> knowledge_authority \<Rightarrow> decision_loop_command \<Rightarrow> execution_limits \<Rightarrow>
   suppression_context option \<Rightarrow> experience_store \<Rightarrow> decision_session \<Rightarrow> knowledge_state \<Rightarrow> runner_turn \<Rightarrow>
   experience_store \<Rightarrow> decision_session \<Rightarrow> knowledge_state \<Rightarrow> bool" where
  "turn_done env rg dl auth command limits host x s st turn x' s' st' \<longleftrightarrow>
     (case turn of
        TerminalTurn c \<Rightarrow> c = command \<and> terminal_command command \<and> x' = x \<and> s' = s \<and> st' = st
      | PlanningTurn report \<Rightarrow>
          x' = x \<and> (\<exists>suppr s0. (s0 = s \<and> command = CmdReplan \<or> replan_after_defense_suppression s = (Ok (), s0))
            \<and> plan_next_with_action_suppressions (rn_planning env) dl auth x suppr s0 st = (Ok report, s', st'))
      | OutcomeTurn receipt report \<Rightarrow>
          (\<exists>st1. session_case_of_command s command = Ok ()
            \<and> execute_command_with_limits env rg auth command limits st = (Ok receipt, st1)
            \<and> submit_command env dl auth command receipt host x s st1 = (Ok report, x', s', st')))"

lemma execute_session_Ok:
  "execute_session_command_with_limits env rg auth command s limits st = (Ok receipt, st1) \<longleftrightarrow>
     session_case_of_command s command = Ok ()
   \<and> execute_command_with_limits env rg auth command limits st = (Ok receipt, st1)"
  by (auto simp: execute_session_command_with_limits_def split: res.splits)

lemma resume_Ok:
  "resume_session_command env dl auth command receipt host x s st = (Ok turn, x', s', st') \<longleftrightarrow>
     (\<exists>report. turn = OutcomeTurn receipt report
        \<and> submit_command env dl auth command receipt host x s st = (Ok report, x', s', st'))"
  by (auto simp: resume_session_command_def split: res.splits prod.splits)

lemma drive_validated_done:
  assumes "drive_validated env rg dl auth command limits host x s st = (Ok turn, x', s', st')"
  shows "turn_done env rg dl auth command limits host x s st turn x' s' st'"
  using assms
  by (cases command)
    (auto simp: drive_validated_def turn_done_def planning_command_Ok execute_session_Ok resume_Ok
      split: res.splits prod.splits, blast)

lemma replan_suppressed_Ok:
  assumes "replan_defense_suppressed_command command suppr s = (Ok True, s')"
  shows "session_case_of_command s command = Ok () \<and> replan_after_defense_suppression s = (Ok (), s')"
  using assms
  by (auto simp: replan_defense_suppressed_command_def session_case_of_command_def
      split: option.splits if_splits res.splits prod.splits)

lemma drive_done:
  assumes "drive_command_with_optional_suppressions env rg dl auth command limits host x s st = (Ok turn, x', s', st')"
  shows "turn_done env rg dl auth command limits host x s st turn x' s' st'"
proof -
  have suppressed: "turn_done env rg dl auth command limits host x s st turn x' s' st'"
    if "drive_suppressed env dl auth command suppr source x s st = (Ok turn, x', s', st')" for suppr source
    using that
    by (auto simp: drive_suppressed_def turn_done_def planning_command_Ok dest!: replan_suppressed_Ok
        split: res.splits prod.splits if_splits, blast)
  show ?thesis
    using assms
    by (auto simp: drive_command_with_optional_suppressions_def dest: drive_validated_done suppressed
        split: option.splits res.splits runner_error.splits)
qed

lemma turn_done_progress:
  assumes "loop_ok dl" and "session_ok dl s" and "experience_ok x"
    and "turn_done env rg dl auth command limits host x s st turn x' s' st'"
  shows "session_ok dl s' \<and> experience_ok x'
    \<and> (if \<exists>c. turn = TerminalTurn c then s' = s else loop_measure dl s' < loop_measure dl s)
    \<and> (in_step s command \<longrightarrow> in_step s' (turn_command turn))"
proof (cases turn)
  case (PlanningTurn report)
  with assms(4) obtain suppr s0 where x': "x' = x"
    and s0: "s0 = s \<and> command = CmdReplan \<or> replan_after_defense_suppression s = (Ok (), s0)"
    and plan: "plan_next_with_action_suppressions (rn_planning env) dl auth x suppr s0 st = (Ok report, s', st')"
    by (auto simp: turn_done_def)
  have "session_ok dl s0 \<and> loop_measure dl s0 \<le> loop_measure dl s"
    using s0
  proof
    assume "replan_after_defense_suppression s = (Ok (), s0)"
    from loop_step.replanned [OF this, of dl auth x st] have
      "loop_step dl auth True \<lparr>lw_session = s, lw_experience = x, lw_knowledge = st\<rparr>
         \<lparr>lw_session = s0, lw_experience = x, lw_knowledge = st\<rparr>" by simp
    from loop_step_keeps [OF this assms(1)] assms(2,3) show ?thesis by (simp add: world_ok_def)
  qed (use assms(2) in simp)
  with planning_keeps [OF _ plan] have "session_ok dl s' \<and> loop_measure dl s' < loop_measure dl s" by fastforce
  with x' assms(3) planning_in_step [OF plan] show ?thesis by (simp add: PlanningTurn)
next
  case (OutcomeTurn receipt report)
  with assms(4) obtain st1 where
    "submit_command env dl auth command receipt host x s st1 = (Ok report, x', s', st')"
    by (auto simp: turn_done_def)
  from submit_command_Ok [OF this] obtain baseline where submitted:
    "submit_passive_with_optional_suppressions (rn_submission env) dl auth host x s st1 = (Ok report, x', s', st')
     \<or> submit_active_with_optional_suppressions (rn_submission env) dl auth host baseline (er_after_execution receipt) x s st1
         = (Ok report, x', s', st')" by blast
  then have "loop_step dl auth True \<lparr>lw_session = s, lw_experience = x, lw_knowledge = st1\<rparr>
      \<lparr>lw_session = s', lw_experience = x', lw_knowledge = st'\<rparr>"
    using loop_step.passive_submitted [of "rn_submission env" dl auth host x s st1 "Ok report" x' s' st']
      loop_step.active_submitted [of "rn_submission env" dl auth host baseline "er_after_execution receipt" x s st1 "Ok report" x' s' st']
    by auto
  from loop_step_keeps [OF this assms(1)] assms(2,3) submission_in_step [OF submitted assms(1)]
  show ?thesis by (simp add: OutcomeTurn world_ok_def)
next
  case (TerminalTurn c)
  with assms show ?thesis by (auto simp: turn_done_def)
qed

section \<open>Properties\<close>

definition turn_bound :: "decision_loop \<Rightarrow> decision_session \<Rightarrow> nat" where
  "turn_bound dl s =
     2 * (unat (dc_max_action_cycles (dl_config dl)) - unat (ds_action_cycles s))
   + 2 * (unat (al_max_transitions (dc_adaptation (dl_config dl))) - unat (lg_transitions (ds_adaptation s))) + 2"

lemma measure_le_bound: "loop_measure dl s \<le> turn_bound dl s"
  using state_weight_le [of "ds_state s"] by (simp add: loop_measure_def turn_bound_def)

text \<open>One turn of a host: it drives the current command and keeps the returned command for the next turn; knowledge may change in between.\<close>

record runner_world =
  rw_command :: decision_loop_command
  rw_experience :: experience_store
  rw_session :: decision_session

definition driven ::
  "decision_loop \<Rightarrow> knowledge_authority \<Rightarrow> runner_world \<Rightarrow> runner_world \<Rightarrow> bool" where
  "driven dl auth w w' \<longleftrightarrow>
     (\<exists>env rg limits host st turn st'.
        drive_command_with_optional_suppressions env rg dl auth (rw_command w) limits host
          (rw_experience w) (rw_session w) st = (Ok turn, rw_experience w', rw_session w', st')
        \<and> rw_command w' = turn_command turn)"

lemma driven_keeps:
  assumes "loop_ok dl" and "driven dl auth w w'"
    and "session_ok dl (rw_session w) \<and> experience_ok (rw_experience w) \<and> in_step (rw_session w) (rw_command w)"
  shows "session_ok dl (rw_session w') \<and> experience_ok (rw_experience w') \<and> in_step (rw_session w') (rw_command w')
    \<and> (if terminal_command (rw_command w) then rw_session w' = rw_session w
       else loop_measure dl (rw_session w') < loop_measure dl (rw_session w))"
proof -
  from assms(2) obtain env rg limits host st turn st' where
    run: "drive_command_with_optional_suppressions env rg dl auth (rw_command w) limits host
          (rw_experience w) (rw_session w) st = (Ok turn, rw_experience w', rw_session w', st')"
    and next_command: "rw_command w' = turn_command turn" by (auto simp: driven_def)
  note completed = drive_done [OF run]
  have "(\<exists>c. turn = TerminalTurn c) \<longleftrightarrow> terminal_command (rw_command w)"
  proof
    assume "terminal_command (rw_command w)"
    then show "\<exists>c. turn = TerminalTurn c"
      using completed assms(3) in_step_terminal [of "rw_session w" "rw_command w"]
      by (cases turn; cases "rw_command w")
        (auto simp: turn_done_def session_case_of_command_def replan_after_defense_suppression_def)
  qed (use completed in \<open>auto simp: turn_done_def\<close>)
  with turn_done_progress [OF assms(1) _ _ completed] assms(3) next_command show ?thesis by auto
qed

definition runner_ok :: "decision_loop \<Rightarrow> runner_world \<Rightarrow> bool" where
  "runner_ok dl w \<longleftrightarrow>
     loop_ok dl \<and> session_ok dl (rw_session w) \<and> experience_ok (rw_experience w) \<and> in_step (rw_session w) (rw_command w)"

interpretation runner_machine: forward_machine "driven dl auth" "runner_ok dl"
    "\<lambda>w w'. loop_measure dl (rw_session w') \<le> loop_measure dl (rw_session w)" for dl auth
  by unfold_locales
    (auto simp: runner_ok_def dest: driven_keeps [of dl auth] split: if_splits)

text \<open>
  C2. The runner and the decision loop stay in step, and every session that is driven successfully
  ends: a session and the command it waits for remain matched along any number of successful turns,
  whatever the executors, limits, suppressions and other writers do, and the host reaches a terminal
  command, with the session completed or halted, after a number of turns that the configured limits
  and what is left of them determine in advance.
\<close>

theorem runner_session_ends:
  assumes "runner_ok dl (run 0)"
    and "\<And>i. \<not> terminal_command (rw_command (run i)) \<Longrightarrow> driven dl auth (run i) (run (Suc i))"
  shows "\<exists>n \<le> turn_bound dl (rw_session (run 0)).
    terminal_command (rw_command (run n)) \<and> runner_ok dl (run n)
    \<and> (ds_state (rw_session (run n)) = Decision_Loop.Completed \<or> (\<exists>reason. ds_state (rw_session (run n)) = Halted reason))
    \<and> (\<forall>i \<le> n. in_step (rw_session (run i)) (rw_command (run i)))"
proof -
  let ?live = "\<lambda>i. \<not> terminal_command (rw_command (run i))"
  have along: "runner_ok dl (run i) \<and> loop_measure dl (rw_session (run i)) + i \<le> loop_measure dl (rw_session (run 0))"
    if "\<forall>k < i. ?live k" for i
    using that
  proof (induction i)
    case (Suc i)
    then have step: "driven dl auth (run i) (run (Suc i))" and ok: "runner_ok dl (run i)"
      and less: "loop_measure dl (rw_session (run i)) + i \<le> loop_measure dl (rw_session (run 0))"
      using assms(2) by simp_all
    from driven_keeps [OF _ step] ok Suc.prems less show ?case
      using runner_machine.step_inv [OF ok step] by (auto simp: runner_ok_def)
  qed (use assms(1) in simp)
  have "\<exists>i. \<not> ?live i"
  proof (rule ccontr)
    assume "\<nexists>i. \<not> ?live i"
    with along [of "Suc (loop_measure dl (rw_session (run 0)))"] show False by simp
  qed
  then obtain n where terminal: "\<not> ?live n" and first: "\<forall>k < n. ?live k"
    using exists_least_iff [of "\<lambda>i. terminal_command (rw_command (run i))"] by blast
  have "n \<le> turn_bound dl (rw_session (run 0))"
    using along [OF first] measure_le_bound [of dl "rw_session (run 0)"] by simp
  moreover have "in_step (rw_session (run i)) (rw_command (run i))" if "i \<le> n" for i
    using along [of i] first that by (auto simp: runner_ok_def)
  ultimately show ?thesis
    using along [OF first] terminal in_step_terminal [of "rw_session (run n)" "rw_command (run n)"] by blast
qed

text \<open>When an executor may be asked.\<close>

definition cleared ::
  "executor_registry \<Rightarrow> decision_loop \<Rightarrow> knowledge_authority \<Rightarrow> decision_loop_command \<Rightarrow> suppression_context option \<Rightarrow>
   decision_session \<Rightarrow> knowledge_state \<Rightarrow> bool" where
  "cleared rg dl auth command host s st \<longleftrightarrow>
     (case host of
        None \<Rightarrow> command_requiring_host_policy_context command = None
      | Some suppr \<Rightarrow>
          \<forall>a. execution_command_action_id command = Some a \<longrightarrow> a \<notin> set (sup_defense suppr) \<union> set (sup_policy suppr))
   \<and> validate_execution_command_authority (dl_planner dl) \<lparr>kb_authority = auth, kb_state = st\<rparr> command = Ok ()
   \<and> session_case_of_command s command = Ok ()
   \<and> (\<exists>c stage origin delay_ms requested executor_id ex.
        execution_parts command = Ok (c, stage, origin, delay_ms, requested)
        \<and> resolve_supported rg stage c requested = Ok (executor_id, ex))"

abbreviation answering ::
  "runner_env \<Rightarrow> (string \<Rightarrow> execution_request \<Rightarrow> (evidence list, executor_error) res) \<Rightarrow>
   (string \<Rightarrow> execution_request \<Rightarrow> knowledge_snapshot \<Rightarrow> (evidence list, executor_error) res) \<Rightarrow> runner_env" where
  "answering env f g \<equiv> env\<lparr>rn_execute := f, rn_execute_with_snapshot := g\<rparr>"

lemma planning_command_answering [simp]:
  "planning_command (answering env f g) dl auth host x s st = planning_command env dl auth host x s st"
  by (simp add: planning_command_eq)

lemma drive_suppressed_answering [simp]:
  "drive_suppressed (answering env f g) dl auth command suppr source x s st =
   drive_suppressed env dl auth command suppr source x s st"
  unfolding drive_suppressed_def planning_command_answering ..

lemma resume_answering [simp]:
  "resume_session_command (answering env f g) dl auth command receipt host x s st =
   resume_session_command env dl auth command receipt host x s st"
proof -
  have "rn_submission (answering env f g) = rn_submission env" by simp
  then show ?thesis unfolding resume_session_command_def submit_command_def by (rule ssubst) (rule refl)
qed

lemma suppression_Ok_iff:
  "validate_command_suppression command suppr = Ok () \<longleftrightarrow>
     (\<forall>a. execution_command_action_id command = Some a \<longrightarrow> a \<notin> set (sup_defense suppr) \<union> set (sup_policy suppr))"
  by (auto simp: validate_command_suppression_def split: option.splits if_splits)

definition plain :: "runner_error \<Rightarrow> bool" where
  "plain e \<longleftrightarrow> committed_evidence e = None \<and> execution_failure e = None"

lemma execution_parts_Err_plain: "execution_parts command = Err e \<Longrightarrow> plain e"
  by (cases command) (auto simp: plain_def)

lemma validate_session_case_Err_plain: "validate_session_case s stage c = Err e \<Longrightarrow> plain e"
  by (cases stage; cases "ds_state s") (auto simp: validate_session_case_def plain_def split: if_splits)

lemma session_case_Err_plain: "session_case_of_command s command = Err e \<Longrightarrow> plain e"
  by (auto simp: session_case_of_command_def res_simps dest: execution_parts_Err_plain validate_session_case_Err_plain)

lemma resolve_Err_plain: "resolve_supported rg stage c requested = Err e \<Longrightarrow> plain e"
  by (auto simp: resolve_supported_def resolve_executor_def runner_non_empty_def res_simps plain_def
      split: option.splits if_splits)

lemma not_resolved:
  assumes "\<And>c stage origin delay_ms requested executor_id ex.
      execution_parts command = Ok (c, stage, origin, delay_ms, requested) \<Longrightarrow>
      resolve_supported rg stage c requested \<noteq> Ok (executor_id, ex)"
  obtains e where "plain e" "\<And>env. execute_command_with_limits env rg auth command limits st = (Err e, st)"
  | "\<And>env. execute_command_with_limits env rg auth command limits st = (Panic, st)"
proof (cases "execution_parts command")
  case (Ok parts)
  obtain c stage origin delay_ms requested where parts: "parts = (c, stage, origin, delay_ms, requested)"
    by (metis prod_cases5)
  show thesis
  proof (cases "resolve_supported rg stage c requested")
    case (Err e)
    then show thesis
      using that(1) [OF resolve_Err_plain [OF Err]] Ok by (simp add: execute_command_with_limits_def parts)
  qed (use assms Ok parts that(2) in \<open>fastforce simp: execute_command_with_limits_def\<close>)+
next
  case (Err e)
  then show thesis using that(1) [OF execution_parts_Err_plain [OF Err]] by (simp add: execute_command_with_limits_def)
next
  case Panic
  then show thesis using that(2) by (simp add: execute_command_with_limits_def)
qed

lemma execute_session_not_cleared:
  assumes "session_case_of_command s command \<noteq> Ok () \<or>
    (\<forall>c stage origin delay_ms requested executor_id ex.
      execution_parts command = Ok (c, stage, origin, delay_ms, requested) \<longrightarrow>
      resolve_supported rg stage c requested \<noteq> Ok (executor_id, ex))"
  obtains e where "plain e" "\<And>env. execute_session_command_with_limits env rg auth command s limits st = (Err e, st)"
  | "\<And>env. execute_session_command_with_limits env rg auth command s limits st = (Panic, st)"
proof (cases "session_case_of_command s command")
  case (Ok u)
  with assms have unresolved: "\<And>c stage origin delay_ms requested executor_id ex.
      execution_parts command = Ok (c, stage, origin, delay_ms, requested) \<Longrightarrow>
      resolve_supported rg stage c requested \<noteq> Ok (executor_id, ex)" by simp
  have same: "execute_session_command_with_limits env rg auth command s limits st =
      execute_command_with_limits env rg auth command limits st" for env
    using Ok by (simp add: execute_session_command_with_limits_def)
  show thesis
    by (rule not_resolved [where command = command and rg = rg and auth = auth and limits = limits and st = st, OF unresolved])
      (auto simp: same intro: that)
next
  case (Err e)
  then show thesis using that(1) [OF session_case_Err_plain [OF Err]] by (simp add: execute_session_command_with_limits_def)
next
  case Panic
  then show thesis using that(2) by (simp add: execute_session_command_with_limits_def)
qed

lemma drive_validated_cases:
  assumes "\<not> terminal_command command" and "command \<noteq> CmdReplan"
    and "validate_execution_command_authority (dl_planner dl) \<lparr>kb_authority = auth, kb_state = st\<rparr> command = Ok ()"
  shows "drive_validated env rg dl auth command limits host x s st =
    (case execute_session_command_with_limits env rg auth command s limits st of
       (Err e, st') \<Rightarrow> (Err e, x, s, st')
     | (Panic, st') \<Rightarrow> (Panic, x, s, st')
     | (Ok receipt, st') \<Rightarrow> resume_session_command env dl auth command receipt host x s st')"
  using assms by (cases command) (auto simp: drive_validated_def)

definition never_executes ::
  "(runner_env \<Rightarrow> runner_turn runner_res \<times> experience_store \<times> decision_session \<times> knowledge_state) \<Rightarrow> runner_env \<Rightarrow> bool" where
  "never_executes turn env \<longleftrightarrow>
     (\<forall>f g. turn (answering env f g) = turn env)
   \<and> (\<forall>receipt report. fst (turn env) \<noteq> Ok (OutcomeTurn receipt report))
   \<and> (\<forall>e. fst (turn env) = Err e \<longrightarrow> committed_evidence e = None \<and> execution_failure e = None)"

lemma planning_never_executes: "never_executes (\<lambda>env. planning_command env dl auth host x s st) env"
proof -
  have "fst (planning_command env dl auth host x s st) \<noteq> Ok (OutcomeTurn receipt report)" for receipt report
    by (auto simp: planning_command_eq split: res.splits prod.splits)
  moreover have "plain e" if "fst (planning_command env dl auth host x s st) = Err e" for e
    using that by (auto simp: planning_command_eq plain_def split: res.splits prod.splits)
  ultimately show ?thesis by (simp add: never_executes_def plain_def)
qed

lemma validated_never_executes:
  assumes "terminal_command command \<or> command = CmdReplan
    \<or> validate_execution_command_authority (dl_planner dl) \<lparr>kb_authority = auth, kb_state = st\<rparr> command \<noteq> Ok ()
    \<or> session_case_of_command s command \<noteq> Ok ()
    \<or> (\<forall>c stage origin delay_ms requested executor_id ex.
      execution_parts command = Ok (c, stage, origin, delay_ms, requested) \<longrightarrow>
      resolve_supported rg stage c requested \<noteq> Ok (executor_id, ex))"
  shows "never_executes (\<lambda>env. drive_validated env rg dl auth command limits host x s st) env"
proof (cases "validate_execution_command_authority (dl_planner dl) \<lparr>kb_authority = auth, kb_state = st\<rparr> command")
  case (Ok u)
  consider (terminal) "terminal_command command" | (replan) "command = CmdReplan"
    | (execution) "\<not> terminal_command command" "command \<noteq> CmdReplan" by blast
  then show ?thesis
  proof cases
    case terminal
    then show ?thesis by (cases command) (simp_all add: drive_validated_def never_executes_def)
  next
    case replan
    then show ?thesis using planning_never_executes by (simp add: drive_validated_def)
  next
    case execution
    have "validate_execution_command_authority (dl_planner dl) \<lparr>kb_authority = auth, kb_state = st\<rparr> command = Ok ()"
      using Ok by simp
    note cases = drive_validated_cases [OF execution this]
    from assms Ok execution have "session_case_of_command s command \<noteq> Ok () \<or>
      (\<forall>c stage origin delay_ms requested executor_id ex.
        execution_parts command = Ok (c, stage, origin, delay_ms, requested) \<longrightarrow>
        resolve_supported rg stage c requested \<noteq> Ok (executor_id, ex))" by simp
    then show ?thesis
      by (rule execute_session_not_cleared [where auth = auth and limits = limits and st = st])
        (simp_all add: cases never_executes_def plain_def)
  qed
qed (simp_all add: drive_validated_def never_executes_def plain_def)

lemma suppressed_never_executes:
  "plain source \<Longrightarrow> never_executes (\<lambda>env. drive_suppressed env dl auth command suppr source x s st) env"
proof -
  assume source: "plain source"
  have replanned: "plain e" if "replan_defense_suppressed_command command suppr s = (Err e, s')" for e s'
    using that
    by (auto simp: replan_defense_suppressed_command_def plain_def split: option.splits if_splits res.splits prod.splits
        dest: validate_session_case_Err_plain [unfolded plain_def])
  show ?thesis
    using planning_never_executes [of dl auth "Some suppr" x _ st env] source
    by (auto simp: drive_suppressed_def never_executes_def plain_def dest: replanned [unfolded plain_def]
        split: res.splits prod.splits if_splits)
qed

lemma executing_commands:
  assumes "session_case_of_command s command = Ok ()"
  shows "\<not> terminal_command command \<and> command \<noteq> CmdReplan"
  using assms by (cases command) (auto simp: session_case_of_command_def)

lemma not_cleared_never_executes:
  assumes "\<not> cleared rg dl auth command host s st"
  shows "never_executes (\<lambda>env. drive_command_with_optional_suppressions env rg dl auth command limits host x s st) env"
proof (cases host)
  case None
  note no_host = None
  show ?thesis
  proof (cases "command_requiring_host_policy_context command")
    case None
    with assms no_host have "never_executes (\<lambda>env. drive_validated env rg dl auth command limits None x s st) env"
      by (intro validated_never_executes) (auto simp: cleared_def)
    then show ?thesis using None no_host by (simp add: drive_command_with_optional_suppressions_def)
  qed (simp add: drive_command_with_optional_suppressions_def no_host never_executes_def plain_def)
next
  case (Some suppr)
  show ?thesis
  proof (cases "validate_command_suppression command suppr")
    case (Ok u)
    then have "validate_command_suppression command suppr = Ok ()" by simp
    with assms Some have "never_executes (\<lambda>env. drive_validated env rg dl auth command limits host x s st) env"
      by (intro validated_never_executes) (auto simp: cleared_def suppression_Ok_iff)
    then show ?thesis using Ok Some by (simp add: drive_command_with_optional_suppressions_def)
  next
    case (Err e)
    then consider a where "e = ActionSuppressedByDefense a" | a where "e = ActionSuppressedByHostPolicy a"
      by (auto simp: validate_command_suppression_def split: option.splits if_splits)
    then show ?thesis
    proof cases
      case (1 a)
      have "plain e" by (simp add: 1 plain_def)
      from suppressed_never_executes [OF this] show ?thesis
        by (simp add: drive_command_with_optional_suppressions_def Some Err 1)
    next
      case (2 a)
      show ?thesis by (simp add: drive_command_with_optional_suppressions_def Some Err 2 never_executes_def)
    qed
  next
    case Panic
    then show ?thesis using Some by (simp add: drive_command_with_optional_suppressions_def never_executes_def)
  qed
qed

lemma cleared_executes:
  assumes "cleared rg dl auth command host s st"
  shows "drive_command_with_optional_suppressions env rg dl auth command limits host x s st =
      (case execute_command_with_limits env rg auth command limits st of
         (Err e, st') \<Rightarrow> (Err e, x, s, st')
       | (Panic, st') \<Rightarrow> (Panic, x, s, st')
       | (Ok receipt, st') \<Rightarrow> resume_session_command env dl auth command receipt host x s st')"
proof -
  have authority: "validate_execution_command_authority (dl_planner dl) \<lparr>kb_authority = auth, kb_state = st\<rparr> command = Ok ()"
    and session: "session_case_of_command s command = Ok ()" using assms by (simp_all add: cleared_def)
  have "drive_command_with_optional_suppressions env rg dl auth command limits host x s st =
      drive_validated env rg dl auth command limits host x s st"
    using assms by (auto simp: cleared_def drive_command_with_optional_suppressions_def
        suppression_Ok_iff [THEN iffD2] split: option.splits)
  also have "\<dots> = (case execute_session_command_with_limits env rg auth command s limits st of
     (Err e, st') \<Rightarrow> (Err e, x, s, st')
   | (Panic, st') \<Rightarrow> (Panic, x, s, st')
   | (Ok receipt, st') \<Rightarrow> resume_session_command env dl auth command receipt host x s st')"
    using executing_commands [OF session] by (intro drive_validated_cases authority) simp_all
  finally show ?thesis using session by (simp add: execute_session_command_with_limits_def)
qed

text \<open>The answer an executor of the given class gives decides the execution; the rest of the environment is the same.\<close>

lemma commit_evidence_answering:
  "commit_evidence (env\<lparr>rn_execute_with_snapshot := g\<rparr>) auth c stage i b es st = commit_evidence env auth c stage i b es st"
  "commit_evidence (env\<lparr>rn_execute := f\<rparr>) auth c stage i b es st = commit_evidence env auth c stage i b es st"
  by (simp_all add: commit_evidence_def split: res.split prod.split)

lemma same_answer_same_execution:
  assumes "\<And>executor_id ex request st'. execution_class_for_command rg command = Ok (ax_class ex) \<Longrightarrow>
      invoke_executor env' auth executor_id ex request st' = invoke_executor env auth executor_id ex request st'"
    and "rn_before_baseline env' = rn_before_baseline env"
    and "\<And>c stage i b es st'. commit_evidence env' auth c stage i b es st' = commit_evidence env auth c stage i b es st'"
  shows "execute_command_with_limits env' rg auth command limits st = execute_command_with_limits env rg auth command limits st"
proof (cases "execution_parts command")
  case (Ok parts)
  obtain c stage origin delay_ms requested where parts: "parts = (c, stage, origin, delay_ms, requested)"
    by (metis prod_cases5)
  show ?thesis
  proof (cases "resolve_supported rg stage c requested")
    case resolved: (Ok found)
    obtain executor_id ex where found: "found = (executor_id, ex)" by (cases found)
    have "execution_class_for_command rg command = Ok (ax_class ex)"
      using resolve_supported_Ok [OF resolved [unfolded found]] Ok
      by (simp add: execution_class_for_command_def parts)
    note same = assms(1) [OF this]
    show ?thesis
      unfolding execute_command_with_limits_def Ok parts resolved found res.case prod.case Let_def same assms(2,3) ..
  qed (simp_all add: execute_command_with_limits_def Ok parts)
qed (simp_all add: execute_command_with_limits_def)


text \<open>No other writer during the turn.\<close>

definition quiet_runner :: "runner_env \<Rightarrow> bool" where
  "quiet_runner env \<longleftrightarrow>
     rn_before_baseline env = id \<and> rn_before_local_snapshot env = id \<and> rn_before_commit env = id
   \<and> rn_after_commit env = id \<and> se_before_snapshot (rn_submission env) = id \<and> se_gap (rn_submission env) = (\<lambda>_ st. st)"

definition failure_accounted :: "decision_loop_command \<Rightarrow> execution_limits \<Rightarrow> runner_error \<Rightarrow> bool" where
  "failure_accounted command limits e \<longleftrightarrow>
     (\<forall>f. execution_failure e = Some f \<longrightarrow> request_of command limits (xf_request f)
        \<and> (\<exists>source. e = ExecutorError (xf_executor_id f) source \<and> xf_diagnostic f = xe_message source
             \<and> xf_kind f = xe_kind source \<and> xf_runtime_limit f = xe_runtime_limit source))"

lemma planning_command_Err:
  "planning_command env dl auth host x s st = (Err e, x', s', st') \<longleftrightarrow>
     x' = x \<and> (\<exists>source. e = RunnerDecision source
        \<and> plan_next_with_action_suppressions (rn_planning env) dl auth x
            (case host of Some suppr \<Rightarrow> suppr | None \<Rightarrow> policy_only []) s st = (Err source, s', st'))"
  by (auto simp: planning_command_eq split: res.splits prod.splits)

lemma plain_accounted: "plain e \<Longrightarrow> failure_accounted command limits e"
  by (simp add: plain_def failure_accounted_def)

lemma validate_evidence_Err_plain: "validate_evidence es c executor_id = Err e \<Longrightarrow> plain e"
  by (induction es) (auto simp: plain_def split: if_splits)

lemma insert_batch_Err: "insert_evidence_batch iter es st = (Err e, st') \<Longrightarrow> st' = st"
  by (auto simp: insert_evidence_batch_def write_evidence_all_not_Err split: res.splits)

lemma execute_Err:
  assumes "execute_command_with_limits env rg auth command limits st = (Err e, st')"
  shows "committed_evidence e = None \<and> failure_accounted command limits e \<and> (quiet_runner env \<longrightarrow> st' = st)"
proof (cases "execution_parts command")
  case (Ok parts)
  obtain c stage origin delay_ms requested where parts: "parts = (c, stage, origin, delay_ms, requested)"
    by (metis prod_cases5)
  let ?request = "\<lparr>xq_case = c, xq_stage = stage, xq_origin = origin, xq_delay_ms = delay_ms, xq_limits = limits\<rparr>"
  show ?thesis
  proof (cases "resolve_supported rg stage c requested")
    case (Err e')
    with assms Ok parts show ?thesis
      using resolve_Err_plain [OF Err] plain_accounted [of e' command limits]
      by (auto simp: execute_command_with_limits_def plain_def)
  next
    case resolved: (Ok found)
    obtain executor_id ex where found: "found = (executor_id, ex)" by (cases found)
    obtain answer st2 where invoked: "invoke_executor env auth executor_id ex ?request (rn_before_baseline env st) = (answer, st2)"
      by fastforce
    have quiet: "st2 = st" if "quiet_runner env"
      using that invoked by (auto simp: invoke_executor_def quiet_runner_def Let_def split: execution_class.splits)
    note run = assms [unfolded execute_command_with_limits_def Ok parts resolved found res.case prod.case Let_def invoked]
    show ?thesis
    proof (cases answer)
      case (Err source)
      then have "e = ExecutorError executor_id (with_execution_context source ?request executor_id)" "st' = st2"
        using run by simp_all
      with quiet Ok parts show ?thesis
        by (auto simp: failure_accounted_def with_execution_context_def request_of_def)
    next
      case (Ok es)
      with run consider "validate_evidence es c executor_id = Err e" "st' = st2"
        | kb_error where "e = RunnerKnowledge kb_error"
            "insert_evidence_batch (rn_iter env) es (rn_before_commit env st2) = (Err kb_error, st')"
        by (auto simp: commit_evidence_def Let_def split: res.splits prod.splits)
      then show ?thesis
      proof cases
        case 1
        with quiet validate_evidence_Err_plain [OF 1(1)] plain_accounted [of e command limits]
        show ?thesis by (simp add: plain_def)
      next
        case 2
        with quiet insert_batch_Err [OF 2(2)] show ?thesis
          by (auto simp: failure_accounted_def quiet_runner_def)
      qed
    qed (use run in simp)
  qed (use assms Ok parts in \<open>simp add: execute_command_with_limits_def\<close>)
next
  case (Err e')
  with assms show ?thesis
    using execution_parts_Err_plain [OF Err] plain_accounted [of e' command limits]
    by (auto simp: execute_command_with_limits_def plain_def)
qed (use assms in \<open>simp add: execute_command_with_limits_def\<close>)

lemma submit_command_Err:
  assumes "submit_command env dl auth command receipt host x s st = (Err e, x', s', st')"
  shows "x' = x \<and> s' = s \<and> (quiet_runner env \<longrightarrow> st' = st)"
proof -
  have loop: "x' = x \<and> s' = s \<and> (quiet_runner env \<longrightarrow> st' = st)"
    if "submit_passive_with_optional_suppressions (rn_submission env) dl auth host x s st = (Err source, x', s', st')
      \<or> submit_active_with_optional_suppressions (rn_submission env) dl auth host baseline after_probe x s st
          = (Err source, x', s', st')" for source baseline after_probe
    using submission_Err [OF that] by (simp add: quiet_runner_def)
  from assms show ?thesis
    by (cases command)
      (auto simp: submit_command_def map_err_eq_Err dest: loop [OF disjI1] loop [OF disjI2]
        split: res.splits option.splits prod.splits)
qed

text \<open>What a failing turn leaves behind.\<close>

definition turn_failed ::
  "runner_env \<Rightarrow> executor_registry \<Rightarrow> decision_loop \<Rightarrow> knowledge_authority \<Rightarrow> decision_loop_command \<Rightarrow> execution_limits \<Rightarrow>
   experience_store \<Rightarrow> decision_session \<Rightarrow> knowledge_state \<Rightarrow> runner_error \<Rightarrow> knowledge_state \<Rightarrow> bool" where
  "turn_failed env rg dl auth command limits x s' st e st' \<longleftrightarrow>
     failure_accounted command limits e
   \<and> (case committed_evidence e of
        Some receipt \<Rightarrow>
          \<exists>st1. execute_command_with_limits env rg auth command limits st = (Ok receipt, st1)
            \<and> (quiet_runner env \<longrightarrow>
                 insert_evidence_batch (rn_iter env) (er_evidence receipt) st = (Ok (er_writes receipt), st'))
      | None \<Rightarrow>
          quiet_runner env \<longrightarrow> st' = st \<or> (\<exists>source suppr. e = RunnerDecision source
            \<and> plan_next_with_action_suppressions (rn_planning env) dl auth x suppr s' st = (Err source, s', st')))"

lemma plain_turn_failed: "plain e \<Longrightarrow> turn_failed env rg dl auth command limits x s st e st"
  by (simp add: turn_failed_def plain_accounted) (simp add: plain_def)

lemma execute_Ok_quiet:
  assumes "execute_command_with_limits env rg auth command limits st = (Ok receipt, st1)" and "quiet_runner env"
  shows "insert_evidence_batch (rn_iter env) (er_evidence receipt) st = (Ok (er_writes receipt), st1)"
proof -
  obtain c stage executor_id ex request es st0 st2 st3 where st0: "st0 = rn_before_baseline env st"
    and invoked: "invoke_executor env auth executor_id ex request st0 = (Ok es, st2)"
    and batch: "insert_evidence_batch (rn_iter env) es (rn_before_commit env st2) = (Ok (er_writes receipt), st3)"
    and st1: "st1 = rn_after_commit env st3" and es: "er_evidence receipt = es"
    by (rule execute_Ok [OF assms(1)]) (metis evidence_receipt.select_convs(4))
  have "st2 = st0" using invoked assms(2)
    by (auto simp: invoke_executor_def quiet_runner_def Let_def split: execution_class.splits)
  with batch st0 st1 es assms(2) show ?thesis by (simp add: quiet_runner_def)
qed

lemma planning_turn_failed:
  assumes "planning_command env dl auth host x s st = (Err e, x', s', st')"
  shows "x' = x \<and> s' = s \<and> turn_failed env rg dl auth command limits x s' st e st'"
proof -
  from assms obtain source where "x' = x" and e: "e = RunnerDecision source"
    and plan: "plan_next_with_action_suppressions (rn_planning env) dl auth x
      (case host of Some suppr \<Rightarrow> suppr | None \<Rightarrow> policy_only []) s st = (Err source, s', st')"
    by (auto simp: planning_command_Err)
  moreover have "s' = s" using planning_Err [OF plan] by blast
  moreover have "turn_failed env rg dl auth command limits x s' st e st'"
    using plan \<open>s' = s\<close> by (auto simp: turn_failed_def failure_accounted_def e)
  ultimately show ?thesis by blast
qed

lemma resume_turn_failed:
  assumes "execute_command_with_limits env rg auth command limits st = (Ok receipt, st1)"
    and "resume_session_command env dl auth command receipt host x s st1 = (Err e, x', s', st')"
  shows "x' = x \<and> s' = s \<and> turn_failed env rg dl auth command limits x s' st e st'"
proof -
  from assms(2) obtain source where e: "e = OutcomeAfterEvidenceCommit receipt source"
    and submitted: "submit_command env dl auth command receipt host x s st1 = (Err source, x', s', st')"
    by (auto simp: resume_session_command_def split: res.splits prod.splits)
  have "quiet_runner env \<longrightarrow> insert_evidence_batch (rn_iter env) (er_evidence receipt) st = (Ok (er_writes receipt), st')"
    using execute_Ok_quiet [OF assms(1)] submit_command_Err [OF submitted] by simp
  with submit_command_Err [OF submitted] assms(1) show ?thesis
    by (simp add: turn_failed_def failure_accounted_def e)
qed

lemma drive_validated_Err:
  assumes "drive_validated env rg dl auth command limits host x s st = (Err e, x', s', st')"
  shows "x' = x \<and> s' = s \<and> turn_failed env rg dl auth command limits x s' st e st'"
proof (cases "validate_execution_command_authority (dl_planner dl) \<lparr>kb_authority = auth, kb_state = st\<rparr> command")
  case (Err e')
  then have "e = RunnerDecision e'" "x' = x" "s' = s" "st' = st" using assms by (simp_all add: drive_validated_def)
  then show ?thesis using plain_turn_failed [of e] by (simp add: plain_def)
next
  case (Ok u)
  then have authority: "validate_execution_command_authority (dl_planner dl) \<lparr>kb_authority = auth, kb_state = st\<rparr> command = Ok ()"
    by simp
  consider (terminal) "terminal_command command" | (replan) "command = CmdReplan"
    | (execution) "\<not> terminal_command command" "command \<noteq> CmdReplan" by blast
  then show ?thesis
  proof cases
    case terminal
    then show ?thesis using assms Ok by (cases command) (simp_all add: drive_validated_def)
  next
    case replan
    then show ?thesis using assms planning_turn_failed by (simp add: drive_validated_def)
  next
    case execution
    from assms [unfolded drive_validated_cases [OF execution authority]]
    consider "execute_session_command_with_limits env rg auth command s limits st = (Err e, st')" "x' = x" "s' = s"
      | receipt st1 where "execute_command_with_limits env rg auth command limits st = (Ok receipt, st1)"
          "resume_session_command env dl auth command receipt host x s st1 = (Err e, x', s', st')"
      by (auto simp: execute_session_Ok split: res.splits prod.splits)
    then show ?thesis
    proof cases
      case 1
      then consider "session_case_of_command s command = Err e" "st' = st"
        | "execute_command_with_limits env rg auth command limits st = (Err e, st')"
        by (auto simp: execute_session_command_with_limits_def split: res.splits)
      then show ?thesis
        using 1(2,3) plain_turn_failed [OF session_case_Err_plain] execute_Err
        by cases (auto simp: turn_failed_def)
    next
      case 2
      then show ?thesis by (rule resume_turn_failed)
    qed
  qed
qed (use assms in \<open>simp add: drive_validated_def\<close>)

lemma drive_suppressed_Err:
  assumes "drive_suppressed env dl auth command suppr source x s st = (Err e, x', s', st')"
    and "plain source" and "execution_command_action_id command = Some a" and "a \<in> set (sup_defense suppr)"
  shows "x' = x \<and> (s' = s \<or> s' = s\<lparr>ds_state := Ready\<rparr>) \<and> turn_failed env rg dl auth command limits x s' st e st'"
proof (cases "validate_execution_command_authority (dl_planner dl) \<lparr>kb_authority = auth, kb_state = st\<rparr> command")
  case (Err e')
  then have "e = RunnerDecision e'" "x' = x" "s' = s" "st' = st" using assms(1) by (simp_all add: drive_suppressed_def)
  then show ?thesis using plain_turn_failed [of e] by (simp add: plain_def)
next
  case (Ok u)
  obtain r s1 where replanned: "replan_defense_suppressed_command command suppr s = (r, s1)" by fastforce
  have s1: "s1 = s \<or> s1 = s\<lparr>ds_state := Ready\<rparr>"
    using replanned
    by (auto simp: replan_defense_suppressed_command_def replan_after_defense_suppression_def
        split: option.splits if_splits res.splits prod.splits)
  have failed: "plain e'" if "r = Err e'" for e'
    using replanned that
    by (auto simp: replan_defense_suppressed_command_def plain_def dest: validate_session_case_Err_plain [unfolded plain_def]
        split: option.splits if_splits res.splits prod.splits)
  show ?thesis
  proof (cases "r = Ok True")
    case True
    then have "planning_command env dl auth (Some suppr) x s1 st = (Err e, x', s', st')"
      using assms(1) Ok replanned by (simp add: drive_suppressed_def)
    from planning_turn_failed [OF this] s1 show ?thesis by blast
  next
    case False
    then have "plain e \<and> x' = x \<and> s' = s1 \<and> st' = st"
      using assms(1,2) Ok replanned failed by (cases r) (auto simp: drive_suppressed_def)
    then show ?thesis using s1 plain_turn_failed [of e] by blast
  qed
qed (use assms(1) in \<open>simp add: drive_suppressed_def\<close>)



section \<open>Sample turns\<close>

definition sample_executor :: action_executor where
  "sample_executor =
     \<lparr>ax_id = ''e'', ax_class = TransportBound, ax_supports = (\<lambda>_. False), ax_overrides_snapshot_execution = False\<rparr>"

definition sample_executors :: executor_registry where
  "sample_executors = snd (register_executor sample_executor executor_registry_new)"

definition sample_env :: "(evidence list, executor_error) res \<Rightarrow> runner_env" where
  "sample_env answer =
     \<lparr>rn_execute = (\<lambda>_ _. answer), rn_execute_with_snapshot = (\<lambda>_ _ _. answer), rn_before_baseline = id,
      rn_before_local_snapshot = id, rn_before_commit = id, rn_after_commit = id, rn_iter = (\<lambda>p. p),
      rn_planning = quiet_planning, rn_submission = quiet_submission\<rparr>"

definition sample_command :: decision_loop_command where
  "sample_command = (case fst sample_planned of Ok report \<Rightarrow> pn_command report | _ \<Rightarrow> CmdReplan)"

definition sample_turn ::
  "(evidence list, executor_error) res \<Rightarrow> suppression_context option \<Rightarrow>
   runner_turn runner_res \<times> experience_store \<times> decision_session \<times> knowledge_state" where
  "sample_turn answer host =
     drive_command_with_optional_suppressions (sample_env answer) sample_executors sample_coordinator 7 sample_command
       execution_limits_new host experience_store_new (fst (snd sample_planned)) (snd (snd sample_planned))"

lemma sample_env_quiet: "quiet_runner (sample_env answer)" "hash_order (rn_iter (sample_env answer))"
  by (simp_all add: quiet_runner_def sample_env_def quiet_submission_def hash_order_def)

lemma sample_turn_outcomes:
  "case fst (sample_turn (Ok []) None) of Err e \<Rightarrow> committed_evidence e \<noteq> None | _ \<Rightarrow> False"
  "case fst (sample_turn (Err (executor_error_new [])) None) of Err e \<Rightarrow> execution_failure e \<noteq> None | _ \<Rightarrow> False"
  "case fst (sample_turn (Ok []) (Some (policy_only [''b'']))) of Err e \<Rightarrow> committed_evidence e = None | _ \<Rightarrow> False"
  by code_simp+



definition sample_observation_of :: "decision_loop_command \<Rightarrow> evidence list" where
  "sample_observation_of command =
     (case execution_parts command of
        Ok (c, _) \<Rightarrow>
          [(sample_evidence ''fresh'' Direct)\<lparr>e_subject := vc_subject c,
             e_source := \<lparr>es_component = ''e'', es_method = ''m'', es_correlation_id = Some (vc_id c)\<rparr>\<rparr>]
      | _ \<Rightarrow> [])"

lemma sample_execution_commits:
  "case fst (execute_command_with_limits (sample_env (Ok (sample_observation_of sample_command))) sample_executors 7 sample_command
      execution_limits_new (snd (snd sample_planned))) of
     Ok receipt \<Rightarrow> length (er_evidence receipt) = 1 \<and> er_writes receipt = [Inserted] | _ \<Rightarrow> False"
  by code_simp


definition idle_turns :: "nat \<Rightarrow> runner_world" where
  "idle_turns n =
     (if n = 0 then \<lparr>rw_command = CmdReplan, rw_experience = experience_store_new, rw_session = sample_session\<rparr>
      else \<lparr>rw_command = (case fst idle_planned of Ok report \<Rightarrow> pn_command report | _ \<Rightarrow> CmdReplan),
            rw_experience = experience_store_new, rw_session = fst (snd idle_planned)\<rparr>)"

lemma runner_session_ends_witness:
  "\<exists>n. terminal_command (rw_command (idle_turns n)) \<and> runner_ok idle_loop (idle_turns n)"
proof -
  have "loop_ok idle_loop"
    by (simp add: idle_loop_def decision_loop_new_def loop_ok_def verification_pipeline_default_def pipeline_ok_def
        planner_ok_def actions_keyed_def bmap_ok_def)
  then have start: "runner_ok idle_loop (idle_turns 0)"
    using session_ok_new [of idle_loop "''s''"]
    by (simp add: runner_ok_def idle_turns_def sample_session_def in_step_def decision_session_new_def)
  obtain report s' st' where run: "idle_planned = (Ok report, s', st')"
    using idle_halts(1) unfolding is_ok_iff by (metis prod.collapse)
  have "in_step s' (pn_command report)" by (rule planning_in_step [OF run [unfolded idle_planned_def]])
  moreover have "ds_state s' = Halted NoEligibleAction" using idle_halts(2) unfolding run by simp
  ultimately have stop: "terminal_command (rw_command (idle_turns (Suc i)))" for i
    using in_step_terminal [of s' "pn_command report"] by (simp add: idle_turns_def run)
  have turn: "drive_command_with_optional_suppressions (sample_env (Ok [])) sample_executors idle_loop 7 CmdReplan execution_limits_new
      (Some (policy_only [])) experience_store_new sample_session sample_store
    = (Ok (PlanningTurn report), experience_store_new, s', st')"
    using run by (simp add: idle_planned_def drive_command_with_optional_suppressions_def drive_validated_def
        validate_command_suppression_def planning_command_def sample_env_def)
  have "driven idle_loop 7 (idle_turns i) (idle_turns (Suc i))" if "\<not> terminal_command (rw_command (idle_turns i))" for i
  proof (cases i)
    case 0
    show ?thesis unfolding driven_def
      by (rule exI [of _ "sample_env (Ok [])"], rule exI [of _ sample_executors], rule exI [of _ execution_limits_new],
          rule exI [of _ "Some (policy_only [])"], rule exI [of _ sample_store], rule exI [of _ "PlanningTurn report"],
          rule exI [of _ st'])
        (simp add: idle_turns_def 0 turn run)
  next
    case (Suc k)
    with stop that show ?thesis by simp
  qed
  from runner_session_ends [OF start this] show ?thesis by blast
qed

end
