(* ===== verification/Spec2Isabelle.thy ===== *)
theory Spec2Isabelle
  imports Rule_Properties Planner_Defense Budget Decision_Loop_Properties Defense_Planning Decision_Runner_Properties
begin

text \<open>
  Termivar: the deterministic reasoning core.
\<close>

end
